(* ===== verification/Prelude.thy ===== *)
theory Prelude
  imports Main "HOL-Library.Word"
begin

text \<open>
  The vocabulary every component shares: the machine words of the 32-bit target, the ways a
  kernel operation can fail to return, the sequencing of operations that may fail, checked array
  access, and the generic lemmas on them.
\<close>

unbundle bit_operations_syntax

section \<open>Machine types\<close>

text \<open>
  \<open>lib/stdint.h\<close> fixes the widths; pointers are 32 bits wide on the target. \<open>NULL\<close> is 0.
\<close>

type_synonym u8 = "8 word"
type_synonym u16 = "16 word"
type_synonym u32 = "32 word"
type_synonym addr = "32 word"

abbreviation NULL :: addr where "NULL \<equiv> 0"

definition PG_SIZE :: "nat" where "PG_SIZE = 4096"

text \<open>\<open>DIV_CEILING\<close> of \<open>kernel/global.h\<close>, with the wrap-around of 32-bit arithmetic.\<close>

definition DIV_CEILING :: "u32 \<Rightarrow> u32 \<Rightarrow> u32" where
  "DIV_CEILING x step = (x + step - 1) div step"

section \<open>Operations that may fail\<close>

text \<open>
  A C function of the kernel does one of the following instead of returning: an \<open>ASSERT\<close> fails
  or \<open>PANIC\<close> is reached (\<open>panic_spin\<close> turns interrupts off and spins), memory outside every
  object is touched, the calling thread has to give up the CPU before it can go on, or a loop
  never ends. Error returns such as \<open>-1\<close> and \<open>NULL\<close> are ordinary values.
\<close>

datatype fault = Assert_failed | Panicked | Bad_access | Would_block | No_return

type_synonym 'a res = "fault + 'a"

definition bindE :: "'a res \<Rightarrow> ('a \<Rightarrow> 'b res) \<Rightarrow> 'b res" where
  "bindE m f = (case m of Inl e \<Rightarrow> Inl e | Inr x \<Rightarrow> f x)"

definition asserting :: "bool \<Rightarrow> 'a res \<Rightarrow> 'a res" where
  "asserting P m = (if P then m else Inl Assert_failed)"

named_theorems res_simps \<open>rewriting of sequenced operations\<close>
named_theorems return_iff \<open>when a sequenced operation returns\<close>
named_theorems wf_intros \<open>operations preserve the invariant of their component\<close>

lemma bindE_Inr [simp, res_simps]: "bindE (Inr x) f = f x"
  by (simp add: bindE_def)

lemma bindE_Inl [simp, res_simps]: "bindE (Inl e) f = Inl e"
  by (simp add: bindE_def)

lemma bindE_assoc: "bindE (bindE m f) g = bindE m (\<lambda>x. bindE (f x) g)"
  by (cases m) simp_all

lemma bindE_eq_Inr [return_iff]: "bindE m f = Inr y \<longleftrightarrow> (\<exists>x. m = Inr x \<and> f x = Inr y)"
  by (cases m) simp_all

lemma bindE_InrE [elim]:
  assumes "bindE m f = Inr y"
  obtains x where "m = Inr x" "f x = Inr y"
  using assms by (cases m) simp_all

lemma bindE_cong [fundef_cong]:
  "m = m' \<Longrightarrow> (\<And>x. m' = Inr x \<Longrightarrow> f x = f' x) \<Longrightarrow> bindE m f = bindE m' f'"
  by (cases m') simp_all

lemma asserting_True [simp, res_simps]: "P \<Longrightarrow> asserting P m = m"
  by (simp add: asserting_def)

lemma asserting_False [simp, res_simps]: "\<not> P \<Longrightarrow> asserting P m = Inl Assert_failed"
  by (simp add: asserting_def)

lemma asserting_eq_Inr [return_iff]: "asserting P m = Inr y \<longleftrightarrow> P \<and> m = Inr y"
  by (simp add: asserting_def)

lemma asserting_cong [fundef_cong]:
  "P = P' \<Longrightarrow> (P' \<Longrightarrow> m = m') \<Longrightarrow> asserting P m = asserting P' m'"
  by (simp add: asserting_def)

section \<open>Checked array access\<close>

text \<open>An array is the list of its cells; an index outside it touches foreign memory.\<close>

definition read_at :: "'a list \<Rightarrow> nat \<Rightarrow> 'a res" where
  "read_at xs i = (if i < length xs then Inr (xs ! i) else Inl Bad_access)"

definition write_at :: "'a list \<Rightarrow> nat \<Rightarrow> 'a \<Rightarrow> 'a list res" where
  "write_at xs i v = (if i < length xs then Inr (xs[i := v]) else Inl Bad_access)"

lemma read_at_Inr [simp]: "i < length xs \<Longrightarrow> read_at xs i = Inr (xs ! i)"
  by (simp add: read_at_def)

lemma read_at_out [simp]: "length xs \<le> i \<Longrightarrow> read_at xs i = Inl Bad_access"
  by (simp add: read_at_def)

lemma read_at_eq_Inr [return_iff]: "read_at xs i = Inr v \<longleftrightarrow> i < length xs \<and> v = xs ! i"
  by (auto simp: read_at_def)

lemma write_at_Inr [simp]: "i < length xs \<Longrightarrow> write_at xs i v = Inr (xs[i := v])"
  by (simp add: write_at_def)

lemma write_at_eq_Inr [return_iff]:
  "write_at xs i v = Inr ys \<longleftrightarrow> i < length xs \<and> ys = xs[i := v]"
  by (auto simp: write_at_def)

section \<open>Sequences of operations\<close>

text \<open>\<open>foldE f xs s\<close>: the loop that runs \<open>f\<close> on each element in turn and stops at the first fault.\<close>

fun foldE :: "('x \<Rightarrow> 's \<Rightarrow> 's res) \<Rightarrow> 'x list \<Rightarrow> 's \<Rightarrow> 's res" where
  "foldE f [] s = Inr s"
| "foldE f (x # xs) s = bindE (f x s) (foldE f xs)"

text \<open>\<open>drain f n s\<close>: run \<open>f\<close> \<open>n\<close> times and collect what it returns.\<close>

fun drain :: "('s \<Rightarrow> ('x \<times> 's) res) \<Rightarrow> nat \<Rightarrow> 's \<Rightarrow> ('x list \<times> 's) res" where
  "drain f 0 s = Inr ([], s)"
| "drain f (Suc n) s =
     bindE (f s) (\<lambda>(x, s). bindE (drain f n s) (\<lambda>(xs, s). Inr (x # xs, s)))"

lemma foldE_append: "foldE f (xs @ ys) s = bindE (foldE f xs s) (foldE f ys)"
  by (induction xs arbitrary: s) (auto simp: bindE_def split: sum.split)

lemma foldE_invariant:
  assumes "foldE f xs s = Inr t" "P s"
    and "\<And>x s t. x \<in> set xs \<Longrightarrow> P s \<Longrightarrow> f x s = Inr t \<Longrightarrow> P t"
  shows "P t"
  using assms by (induction xs arbitrary: s) (auto simp: return_iff)

section \<open>Words\<close>

lemma unat_ucast_widen [simp]:
  "unat (ucast (w8 :: u8) :: u32) = unat w8" "unat (ucast (w16 :: u16) :: u32) = unat w16"
  "unat (ucast (w8 :: u8) :: u16) = unat w8"
  by (transfer, simp add: take_bit_eq_mod)+

lemma unat_eq_zero_iff [simp]: "unat w = 0 \<longleftrightarrow> w = 0"
  by (simp add: unsigned_eq_0_iff)

lemma unat_ne_one: "w \<noteq> 1 \<Longrightarrow> unat w \<noteq> 1"
  by transfer auto

end
