(* ===== verification/Interrupts.thy ===== *)
theory Interrupts
  imports Prelude
begin

text \<open>
  The interrupt flag (\<open>kernel/interrupt.c\<close>). Every state of the development extends the record
  \<open>cpu\<close>, whose field \<open>if_flag\<close> is the IF bit of EFLAGS, so the functions below work on all of
  them. The inline assembly is \<open>sti\<close> (set the flag) and \<open>cli\<close> (clear it).
\<close>

datatype intr_status = INTR_OFF | INTR_ON

record cpu =
  if_flag :: bool

definition intr_get_status :: "'a cpu_scheme \<Rightarrow> intr_status" where
  "intr_get_status s = (if if_flag s then INTR_ON else INTR_OFF)"

definition intr_enable :: "'a cpu_scheme \<Rightarrow> intr_status \<times> 'a cpu_scheme" where
  "intr_enable s =
     (if intr_get_status s = INTR_ON then (INTR_ON, s)
      else (INTR_OFF, s\<lparr>if_flag := True\<rparr>))"

definition intr_disable :: "'a cpu_scheme \<Rightarrow> intr_status \<times> 'a cpu_scheme" where
  "intr_disable s =
     (if intr_get_status s = INTR_ON then (INTR_ON, s\<lparr>if_flag := False\<rparr>)
      else (INTR_OFF, s))"

definition intr_set_status :: "intr_status \<Rightarrow> 'a cpu_scheme \<Rightarrow> 'a cpu_scheme" where
  "intr_set_status st s = snd (if st = INTR_ON then intr_enable s else intr_disable s)"

text \<open>
  The bracket \<open>old = intr_disable(); body; intr_set_status(old)\<close> that guards the critical
  sections of the kernel.
\<close>

definition with_intr_off ::
  "'a cpu_scheme \<Rightarrow> ('a cpu_scheme \<Rightarrow> 'a cpu_scheme res) \<Rightarrow> 'a cpu_scheme res" where
  "with_intr_off s body =
     (case intr_disable s of
        (old_status, s1) \<Rightarrow> bindE (body s1) (\<lambda>s2. Inr (intr_set_status old_status s2)))"

lemma intr_disable_simps [simp]:
  "if_flag (snd (intr_disable s)) = False"
  "fst (intr_disable s) = intr_get_status s"
  by (auto simp: intr_disable_def intr_get_status_def)

lemma snd_intr_disable: "snd (intr_disable s) = s\<lparr>if_flag := False\<rparr>"
  by (auto simp: intr_disable_def intr_get_status_def)

lemma intr_disable_eq: "intr_disable s = (intr_get_status s, s\<lparr>if_flag := False\<rparr>)"
  by (auto simp: intr_disable_def intr_get_status_def)

lemma snd_intr_enable: "snd (intr_enable s) = s\<lparr>if_flag := True\<rparr>"
  by (auto simp: intr_enable_def intr_get_status_def)

lemma intr_set_status_eq: "intr_set_status st s = s\<lparr>if_flag := (st = INTR_ON)\<rparr>"
  by (cases st) (simp_all add: intr_set_status_def snd_intr_enable snd_intr_disable)

lemma intr_set_get [simp]: "(intr_get_status s = INTR_ON) = if_flag s"
  by (simp add: intr_get_status_def)

lemma intr_get_status_off [simp]: "(intr_get_status s = INTR_OFF) = (\<not> if_flag s)"
  by (simp add: intr_get_status_def)

text \<open>The bracket runs its body with interrupts off and restores the caller's setting.\<close>

lemma with_intr_off_eq:
  "with_intr_off s body =
     bindE (body (s\<lparr>if_flag := False\<rparr>)) (\<lambda>s'. Inr (s'\<lparr>if_flag := if_flag s\<rparr>))"
  by (simp add: with_intr_off_def intr_disable_eq intr_set_status_eq)

end
