(* ===== verification/Intrusive_List.thy ===== *)
theory Intrusive_List
  imports Interrupts
begin

text \<open>
  The intrusive doubly linked list of \<open>lib/kernel/list.c\<close>. A list element lives inside the
  structure it links, so the list is its pointers: the heap maps the address of a
  \<open>list_elem_t\<close> to its two fields. \<open>list_at\<close> relates a heap to the sequence of elements the list
  stands for; each operation is shown to be the plain list operation on that sequence, and to
  leave every list that shares no element with it alone. The locale \<open>elem_queue\<close> states the
  contract the kernel's queues rely on, interpreted on the pointer code.
\<close>

section \<open>Heap, list heads and NULL\<close>

record list_heap = cpu +
  next_of :: "addr \<Rightarrow> addr"
  prev_of :: "addr \<Rightarrow> addr"

text \<open>
  \<open>list_t\<close> holds two elements, \<open>head\<close> at offset 0 and \<open>tail\<close> after it (8 bytes: two pointers).
\<close>

definition list_head :: "addr \<Rightarrow> addr" where "list_head l = l"
definition list_tail :: "addr \<Rightarrow> addr" where "list_tail l = l + 8"

text \<open>Field access through a pointer faults on \<open>NULL\<close>.\<close>

definition load_next :: "addr \<Rightarrow> 'a list_heap_scheme \<Rightarrow> addr res" where
  "load_next p h = (if p = NULL then Inl Bad_access else Inr (next_of h p))"

definition load_prev :: "addr \<Rightarrow> 'a list_heap_scheme \<Rightarrow> addr res" where
  "load_prev p h = (if p = NULL then Inl Bad_access else Inr (prev_of h p))"

definition store_next :: "addr \<Rightarrow> addr \<Rightarrow> 'a list_heap_scheme \<Rightarrow> 'a list_heap_scheme res" where
  "store_next p v h =
     (if p = NULL then Inl Bad_access else Inr (h\<lparr>next_of := (next_of h)(p := v)\<rparr>))"

definition store_prev :: "addr \<Rightarrow> addr \<Rightarrow> 'a list_heap_scheme \<Rightarrow> 'a list_heap_scheme res" where
  "store_prev p v h =
     (if p = NULL then Inl Bad_access else Inr (h\<lparr>prev_of := (prev_of h)(p := v)\<rparr>))"

lemmas field_defs = load_next_def load_prev_def store_next_def store_prev_def

section \<open>Operations\<close>

definition list_init :: "addr \<Rightarrow> 'a list_heap_scheme \<Rightarrow> 'a list_heap_scheme res" where
  "list_init l h =
     bindE (store_prev (list_head l) NULL h) (\<lambda>h.
     bindE (store_next (list_head l) (list_tail l) h) (\<lambda>h.
     bindE (store_prev (list_tail l) (list_head l) h) (\<lambda>h.
     store_next (list_tail l) NULL h)))"

definition list_insert_before ::
  "addr \<Rightarrow> addr \<Rightarrow> 'a list_heap_scheme \<Rightarrow> 'a list_heap_scheme res" where
  "list_insert_before before elem h =
     with_intr_off h (\<lambda>h.
       bindE (load_prev before h) (\<lambda>p.
       bindE (store_next p elem h) (\<lambda>h.
       bindE (load_prev before h) (\<lambda>p.
       bindE (store_prev elem p h) (\<lambda>h.
       bindE (store_next elem before h) (\<lambda>h.
       store_prev before elem h))))))"

definition list_push :: "addr \<Rightarrow> addr \<Rightarrow> 'a list_heap_scheme \<Rightarrow> 'a list_heap_scheme res" where
  "list_push l elem h =
     bindE (load_next (list_head l) h) (\<lambda>first. list_insert_before first elem h)"

definition list_append :: "addr \<Rightarrow> addr \<Rightarrow> 'a list_heap_scheme \<Rightarrow> 'a list_heap_scheme res" where
  "list_append l elem h = list_insert_before (list_tail l) elem h"

definition list_remove :: "addr \<Rightarrow> 'a list_heap_scheme \<Rightarrow> 'a list_heap_scheme res" where
  "list_remove e h =
     with_intr_off h (\<lambda>h.
       bindE (load_prev e h) (\<lambda>p.
       bindE (load_next e h) (\<lambda>n.
       bindE (store_next p n h) (\<lambda>h.
       bindE (load_next e h) (\<lambda>n.
       bindE (load_prev e h) (\<lambda>p.
       store_prev n p h))))))"

definition list_pop :: "addr \<Rightarrow> 'a list_heap_scheme \<Rightarrow> (addr \<times> 'a list_heap_scheme) res" where
  "list_pop l h =
     bindE (load_next (list_head l) h) (\<lambda>elem.
     bindE (list_remove elem h) (\<lambda>h. Inr (elem, h)))"

text \<open>
  The scanning loops follow \<open>next\<close> until they meet \<open>tail\<close>. On a damaged list they need not end,
  so their value is an option: \<open>None\<close> is a loop that never ends.
\<close>

partial_function (option) find_loop ::
  "addr \<Rightarrow> addr \<Rightarrow> 'a list_heap_scheme \<Rightarrow> addr \<Rightarrow> bool option" where
  "find_loop tail obj h elem =
     (if elem \<noteq> tail \<and> elem \<noteq> NULL
      then if elem = obj then Some True else find_loop tail obj h (next_of h elem)
      else Some False)"

definition elem_find :: "addr \<Rightarrow> addr \<Rightarrow> 'a list_heap_scheme \<Rightarrow> bool option" where
  "elem_find l obj h = find_loop (list_tail l) obj h (next_of h (list_head l))"

definition list_empty :: "addr \<Rightarrow> 'a list_heap_scheme \<Rightarrow> bool" where
  "list_empty l h = (next_of h (list_head l) = list_tail l)"

text \<open>
  The callback of \<open>list_traversal\<close> may change the state it runs in (\<open>init_adopt_a_child\<close> does);
  it answers whether the traversal stops here.
\<close>

partial_function (option) traversal_loop ::
  "addr \<Rightarrow> (addr \<Rightarrow> 'a list_heap_scheme \<Rightarrow> bool \<times> 'a list_heap_scheme) \<Rightarrow>
   addr \<Rightarrow> 'a list_heap_scheme \<Rightarrow> (addr \<times> 'a list_heap_scheme) option" where
  "traversal_loop tail func elem h =
     (if elem \<noteq> tail
      then case func elem h of
             (stop, h') \<Rightarrow>
               if stop then Some (elem, h') else traversal_loop tail func (next_of h' elem) h'
      else Some (NULL, h))"

definition list_traversal ::
  "addr \<Rightarrow> (addr \<Rightarrow> 'a list_heap_scheme \<Rightarrow> bool \<times> 'a list_heap_scheme) \<Rightarrow>
   'a list_heap_scheme \<Rightarrow> (addr \<times> 'a list_heap_scheme) option" where
  "list_traversal l func h =
     (let elem = next_of h (list_head l)
      in if list_empty l h then Some (NULL, h) else traversal_loop (list_tail l) func elem h)"

partial_function (option) len_loop ::
  "addr \<Rightarrow> 'a list_heap_scheme \<Rightarrow> addr \<Rightarrow> u32 \<Rightarrow> u32 option" where
  "len_loop tail h elem len =
     (if elem \<noteq> tail then len_loop tail h (next_of h elem) (len + 1) else Some len)"

definition list_len :: "addr \<Rightarrow> 'a list_heap_scheme \<Rightarrow> u32 option" where
  "list_len l h = len_loop (list_tail l) h (next_of h (list_head l)) 0"

section \<open>The sequence a list stands for\<close>

text \<open>\<open>links h ys\<close>: neighbours in \<open>ys\<close> point at each other.\<close>

fun links :: "'a list_heap_scheme \<Rightarrow> addr list \<Rightarrow> bool" where
  "links h (a # b # ys) \<longleftrightarrow> next_of h a = b \<and> prev_of h b = a \<and> links h (b # ys)"
| "links h _ \<longleftrightarrow> True"

definition nodes :: "addr \<Rightarrow> addr list \<Rightarrow> addr list" where
  "nodes l xs = list_head l # xs @ [list_tail l]"

definition list_at :: "'a list_heap_scheme \<Rightarrow> addr \<Rightarrow> addr list \<Rightarrow> bool" where
  "list_at h l xs \<longleftrightarrow>
     distinct (nodes l xs) \<and> NULL \<notin> set (nodes l xs) \<and> links h (nodes l xs) \<and>
     prev_of h (list_head l) = NULL \<and> next_of h (list_tail l) = NULL"

lemma links_append: "links h (as @ b # cs) \<longleftrightarrow> links h (as @ [b]) \<and> links h (b # cs)"
  by (induction h as rule: links.induct) auto

lemma links_split: "links h (as @ p # b # cs) \<longleftrightarrow>
    links h (as @ [p]) \<and> next_of h p = b \<and> prev_of h b = p \<and> links h (b # cs)"
  using links_append [of h as p "b # cs"] by auto

lemma links_frame:
  assumes "\<forall>x \<in> set (butlast ys). next_of h' x = next_of h x"
    and "\<forall>x \<in> set (tl ys). prev_of h' x = prev_of h x"
  shows "links h' ys = links h ys"
  using assms by (induction h ys rule: links.induct) auto

lemma links_prefix_frame:
  assumes "links h (as @ [p])" "\<forall>x \<in> set as. next_of h' x = next_of h x"
    and "\<forall>x \<in> set (as @ [p]). prev_of h' x = prev_of h x"
  shows "links h' (as @ [p])"
proof -
  have "set (tl (as @ [p])) \<subseteq> set (as @ [p])" by (cases as) auto
  with assms show ?thesis using links_frame [of "as @ [p]" h' h] by auto
qed

lemma links_suffix_frame:
  assumes "links h (b # cs)" "\<forall>x \<in> set (b # cs). next_of h' x = next_of h x"
    and "\<forall>x \<in> set cs. prev_of h' x = prev_of h x"
  shows "links h' (b # cs)"
  using assms links_frame [of "b # cs" h' h] in_set_butlastD by fastforce

lemma list_at_frame:
  assumes "list_at h l xs"
    and "\<forall>x \<in> set (nodes l xs). next_of h' x = next_of h x \<and> prev_of h' x = prev_of h x"
  shows "list_at h' l xs"
proof -
  have "links h' (nodes l xs) = links h (nodes l xs)"
    using assms(2) by (intro links_frame) (auto dest: in_set_butlastD simp: nodes_def)
  then show ?thesis using assms by (simp add: list_at_def nodes_def)
qed


lemma links_pair: "links h (as @ a # b # cs) \<Longrightarrow> next_of h a = b \<and> prev_of h b = a"
  by (simp add: links_split)

section \<open>Splicing an element in and out\<close>

definition spliced_in :: "addr \<Rightarrow> addr \<Rightarrow> 'a list_heap_scheme \<Rightarrow> 'a list_heap_scheme" where
  "spliced_in b e h =
     h\<lparr>next_of := (next_of h)(prev_of h b := e, e := b),
       prev_of := (prev_of h)(e := prev_of h b, b := e)\<rparr>"

definition spliced_out :: "addr \<Rightarrow> 'a list_heap_scheme \<Rightarrow> 'a list_heap_scheme" where
  "spliced_out e h =
     h\<lparr>next_of := (next_of h)(prev_of h e := next_of h e),
       prev_of := (prev_of h)(next_of h e := prev_of h e)\<rparr>"

lemma list_insert_before_eq:
  assumes "b \<noteq> NULL" "e \<noteq> NULL" "prev_of h b \<noteq> NULL" "b \<noteq> e"
  shows "list_insert_before b e h = Inr (spliced_in b e h)"
  using assms
  by (simp add: list_insert_before_def with_intr_off_eq field_defs spliced_in_def)

lemma list_remove_eq:
  assumes "e \<noteq> NULL" "prev_of h e \<noteq> NULL" "next_of h e \<noteq> NULL" "prev_of h e \<noteq> e"
  shows "list_remove e h = Inr (spliced_out e h)"
  using assms by (simp add: list_remove_def with_intr_off_eq field_defs spliced_out_def)

lemma list_at_spliced_in:
  assumes at: "list_at h l (xs @ ys)" and b: "hd (ys @ [list_tail l]) = b"
    and e: "e \<notin> set (nodes l (xs @ ys))" "e \<noteq> NULL"
  shows "list_at (spliced_in b e h) l (xs @ e # ys)" "list_insert_before b e h = Inr (spliced_in b e h)"
proof -
  define p where "p = last (list_head l # xs)"
  define as where "as = butlast (list_head l # xs)"
  define cs where "cs = tl (ys @ [list_tail l])"
  have pre: "list_head l # xs = as @ [p]" by (simp add: p_def as_def)
  have post: "ys @ [list_tail l] = b # cs" using b by (cases ys) (auto simp: cs_def)
  have old: "nodes l (xs @ ys) = as @ p # b # cs"
    using pre post by (metis append.assoc append_Cons append_Nil nodes_def)
  have new: "nodes l (xs @ e # ys) = as @ p # e # b # cs"
    using pre post by (metis append.assoc append_Cons append_Nil nodes_def)
  have dist: "distinct (as @ p # b # cs)" and nz: "NULL \<notin> set (as @ p # b # cs)"
    and lk: "links h (as @ p # b # cs)"
    using at by (simp_all add: list_at_def old)
  have pb: "prev_of h b = p" using links_pair [OF lk] by simp
  have e': "e \<notin> set (as @ p # b # cs)" using e old by simp
  have out: "p \<notin> set as" "b \<notin> set as" "e \<notin> set as" "p \<noteq> b" "e \<noteq> p" "e \<noteq> b"
    "p \<notin> set cs" "b \<notin> set cs" "e \<notin> set cs"
    using dist e' by auto
  let ?h = "spliced_in b e h"
  have lk': "links h (as @ [p])" "links h (b # cs)" using lk by (simp_all add: links_split)
  have "links ?h (as @ [p])"
    by (rule links_prefix_frame [OF lk'(1)]) (use out in \<open>auto simp: spliced_in_def pb\<close>)
  moreover have "links ?h (b # cs)"
    by (rule links_suffix_frame [OF lk'(2)]) (use out in \<open>auto simp: spliced_in_def pb\<close>)
  moreover have "next_of ?h p = e" "prev_of ?h e = p" "next_of ?h e = b" "prev_of ?h b = e"
    using out by (simp_all add: spliced_in_def pb)
  ultimately have "links ?h (as @ p # e # b # cs)"
    using links_append [of ?h as p "e # b # cs"] by simp
  moreover have "prev_of ?h (list_head l) = NULL" "next_of ?h (list_tail l) = NULL"
  proof -
    have "list_head l \<in> set (as @ [p])" using pre by (metis list.set_intros(1))
    moreover have "list_tail l \<in> set (b # cs)" using post by (metis in_set_conv_decomp)
    ultimately have "list_head l \<noteq> b" "list_tail l \<noteq> p" "list_head l \<noteq> e" "list_tail l \<noteq> e"
      using dist e' by auto
    then show "prev_of ?h (list_head l) = NULL" "next_of ?h (list_tail l) = NULL"
      using at pb by (auto simp: spliced_in_def list_at_def)
  qed
  ultimately show "list_at ?h l (xs @ e # ys)"
    using dist e' nz e(2) by (auto simp: list_at_def new)
  show "list_insert_before b e h = Inr ?h"
    using nz e' e(2) pb by (intro list_insert_before_eq) auto
qed


lemma list_at_spliced_out:
  assumes at: "list_at h l (xs @ e # ys)"
  shows "list_at (spliced_out e h) l (xs @ ys)" "list_remove e h = Inr (spliced_out e h)"
proof -
  define p where "p = last (list_head l # xs)"
  define as where "as = butlast (list_head l # xs)"
  define b where "b = hd (ys @ [list_tail l])"
  define cs where "cs = tl (ys @ [list_tail l])"
  have pre: "list_head l # xs = as @ [p]" by (simp add: p_def as_def)
  have post: "ys @ [list_tail l] = b # cs" by (cases ys) (auto simp: b_def cs_def)
  have old: "nodes l (xs @ e # ys) = as @ p # e # b # cs"
    using pre post by (metis append.assoc append_Cons append_Nil nodes_def)
  have new: "nodes l (xs @ ys) = as @ p # b # cs"
    using pre post by (metis append.assoc append_Cons append_Nil nodes_def)
  have dist: "distinct (as @ p # e # b # cs)" and nz: "NULL \<notin> set (as @ p # e # b # cs)"
    and lk: "links h (as @ p # e # b # cs)"
    using at by (simp_all add: list_at_def old)
  have pe: "prev_of h e = p" "next_of h e = b"
    using links_pair [OF lk] links_pair [of h "as @ [p]" e b cs] lk by simp_all
  have out: "p \<notin> set as" "b \<notin> set as" "p \<noteq> b" "p \<notin> set cs" "b \<notin> set cs" "e \<noteq> p"
    using dist by auto
  let ?h = "spliced_out e h"
  have lk': "links h (as @ [p])" "links h (b # cs)"
    using lk by (simp_all add: links_split)
  have "links ?h (as @ [p])"
    by (rule links_prefix_frame [OF lk'(1)]) (use out in \<open>auto simp: spliced_out_def pe\<close>)
  moreover have "links ?h (b # cs)"
    by (rule links_suffix_frame [OF lk'(2)]) (use out in \<open>auto simp: spliced_out_def pe\<close>)
  moreover have "next_of ?h p = b" "prev_of ?h b = p"
    by (simp_all add: spliced_out_def pe)
  ultimately have "links ?h (as @ p # b # cs)"
    by (simp add: links_split)
  moreover have "prev_of ?h (list_head l) = NULL" "next_of ?h (list_tail l) = NULL"
  proof -
    have "list_head l \<in> set (as @ [p])" using pre by (metis list.set_intros(1))
    moreover have "list_tail l \<in> set (b # cs)" using post by (metis in_set_conv_decomp)
    ultimately have "list_head l \<noteq> b" "list_tail l \<noteq> p" using dist by auto
    then show "prev_of ?h (list_head l) = NULL" "next_of ?h (list_tail l) = NULL"
      using at pe by (auto simp: spliced_out_def list_at_def)
  qed
  ultimately show "list_at ?h l (xs @ ys)"
    using dist nz by (auto simp: list_at_def new)
  show "list_remove e h = Inr ?h"
    using nz out pe by (intro list_remove_eq) auto
qed


section \<open>Each operation is the list operation\<close>

lemma prev_in_nodes:
  assumes "list_at h l (xs @ ys)" "b = hd (ys @ [list_tail l])"
  shows "prev_of h b \<in> set (nodes l (xs @ ys))" "b \<in> set (nodes l (xs @ ys))"
proof -
  have "nodes l (xs @ ys) = butlast (list_head l # xs) @ last (list_head l # xs) # b # tl (ys @ [list_tail l])"
    using assms(2) by (cases ys) (auto simp: nodes_def)
  moreover from this have "prev_of h b = last (list_head l # xs)"
    using assms(1) links_pair unfolding list_at_def by metis
  ultimately show "prev_of h b \<in> set (nodes l (xs @ ys))" "b \<in> set (nodes l (xs @ ys))" by simp_all
qed

lemma spliced_in_frame:
  assumes "list_at h l (xs @ ys)" "hd (ys @ [list_tail l]) = b"
    and "list_at h m zs" "set (nodes m zs) \<inter> insert e (set (nodes l (xs @ ys))) = {}"
  shows "list_at (spliced_in b e h) m zs"
proof (rule list_at_frame [OF assms(3)])
  have "prev_of h b \<in> set (nodes l (xs @ ys))" "b \<in> set (nodes l (xs @ ys))"
    using prev_in_nodes [OF assms(1)] assms(2) by auto
  with assms(4) show "\<forall>x \<in> set (nodes m zs).
      next_of (spliced_in b e h) x = next_of h x \<and> prev_of (spliced_in b e h) x = prev_of h x"
    by (auto simp: spliced_in_def)
qed

lemma spliced_out_frame:
  assumes at: "list_at h l (xs @ e # ys)"
    and "list_at h m zs" "set (nodes m zs) \<inter> set (nodes l (xs @ e # ys)) = {}"
  shows "list_at (spliced_out e h) m zs"
proof (rule list_at_frame [OF assms(2)])
  have "prev_of h e \<in> set (nodes l (xs @ e # ys))"
    using prev_in_nodes(1) [OF at] by simp
  moreover have "next_of h e \<in> set (nodes l (xs @ e # ys))"
  proof -
    have "nodes l (xs @ e # ys) = (list_head l # xs) @ e # hd (ys @ [list_tail l]) # tl (ys @ [list_tail l])"
      by (cases ys) (auto simp: nodes_def)
    with at have "next_of h e = hd (ys @ [list_tail l])"
      using links_pair unfolding list_at_def by metis
    then show ?thesis by (cases ys) (auto simp: nodes_def)
  qed
  ultimately show "\<forall>x \<in> set (nodes m zs).
      next_of (spliced_out e h) x = next_of h x \<and> prev_of (spliced_out e h) x = prev_of h x"
    using assms(3) by (auto simp: spliced_out_def)
qed

text \<open>An address a list can link: it is neither \<open>NULL\<close> nor part of the list head.\<close>

definition linkable :: "addr \<Rightarrow> addr \<Rightarrow> bool" where
  "linkable l e \<longleftrightarrow> e \<noteq> NULL \<and> e \<noteq> list_head l \<and> e \<noteq> list_tail l"

text \<open>\<open>preserves_others h h' A\<close>: every list without an element in \<open>A\<close> is the same in both heaps.\<close>

definition preserves_others ::
  "'a list_heap_scheme \<Rightarrow> 'a list_heap_scheme \<Rightarrow> addr set \<Rightarrow> bool" where
  "preserves_others h h' A \<longleftrightarrow>
     (\<forall>m zs. list_at h m zs \<longrightarrow> set (nodes m zs) \<inter> A = {} \<longrightarrow> list_at h' m zs)"

lemma list_init_spec:
  assumes "list_head l \<noteq> NULL" "list_tail l \<noteq> NULL"
  shows "\<exists>h'. list_init l h = Inr h' \<and> list_at h' l []"
proof -
  have "list_head l \<noteq> list_tail l" by (simp add: list_head_def list_tail_def)
  with assms show ?thesis
    by (auto simp: list_init_def field_defs list_at_def nodes_def)
qed

lemma list_append_spec:
  assumes "list_at h l xs" "linkable l e" "e \<notin> set xs"
  shows "\<exists>h'. list_append l e h = Inr h' \<and> list_at h' l (xs @ [e]) \<and>
           preserves_others h h' (insert e (set (nodes l xs))) \<and> if_flag h' = if_flag h"
  using assms list_at_spliced_in [of h l xs "[]" "list_tail l" e]
    spliced_in_frame [of h l xs "[]" "list_tail l" _ _ e]
  by (auto simp: list_append_def linkable_def nodes_def preserves_others_def spliced_in_def)

lemma list_push_spec:
  assumes at: "list_at h l xs" and "linkable l e" "e \<notin> set xs"
  shows "\<exists>h'. list_push l e h = Inr h' \<and> list_at h' l (e # xs) \<and>
           preserves_others h h' (insert e (set (nodes l xs))) \<and> if_flag h' = if_flag h"
proof -
  have "next_of h (list_head l) = hd (xs @ [list_tail l])" "list_head l \<noteq> NULL"
    using at by (cases xs; simp add: list_at_def nodes_def)+
  then show ?thesis
    using assms list_at_spliced_in [of h l "[]" xs _ e]
      spliced_in_frame [of h l "[]" xs _ _ _ e]
    by (auto simp: list_push_def linkable_def nodes_def preserves_others_def spliced_in_def load_next_def)
qed

lemma list_remove_spec:
  assumes "list_at h l (xs @ e # ys)"
  shows "\<exists>h'. list_remove e h = Inr h' \<and> list_at h' l (xs @ ys) \<and>
           preserves_others h h' (set (nodes l (xs @ e # ys))) \<and> if_flag h' = if_flag h"
  using list_at_spliced_out [OF assms] spliced_out_frame [OF assms]
  by (auto simp: preserves_others_def spliced_out_def)

lemma list_pop_spec:
  assumes at: "list_at h l (x # xs)"
  shows "\<exists>h'. list_pop l h = Inr (x, h') \<and> list_at h' l xs \<and>
           preserves_others h h' (set (nodes l (x # xs))) \<and> if_flag h' = if_flag h"
proof -
  have "next_of h (list_head l) = x" "list_head l \<noteq> NULL"
    using at by (auto simp: list_at_def nodes_def)
  then show ?thesis
    using list_remove_spec [of h l "[]" x xs] at by (auto simp: list_pop_def load_next_def)
qed

lemma list_empty_spec: "list_at h l xs \<Longrightarrow> list_empty l h \<longleftrightarrow> xs = []"
  by (cases xs) (auto simp: list_empty_def list_at_def nodes_def)

text \<open>\<open>list_pop\<close> on an empty list unlinks the \<open>tail\<close> sentinel, whose \<open>next\<close> is \<open>NULL\<close>: a fault.\<close>

lemma list_pop_empty: "list_at h l [] \<Longrightarrow> list_pop l h = Inl Bad_access"
  by (auto simp: list_pop_def list_remove_def with_intr_off_eq field_defs list_at_def nodes_def)

section \<open>The scans end on a well-formed list\<close>

lemma find_loop_links:
  assumes "links h (xs @ [tail])" "tail \<notin> set xs" "NULL \<notin> set xs"
  shows "find_loop tail obj h (hd (xs @ [tail])) = Some (obj \<in> set xs)"
  using assms
proof (induction xs)
  case Nil
  then show ?case by (simp add: find_loop.simps)
next
  case (Cons x xs)
  then have "next_of h x = hd (xs @ [tail])" "links h (xs @ [tail])"
    by (cases xs; simp)+
  with Cons show ?case by (auto simp: find_loop.simps [of tail obj h x])
qed

lemma list_at_links:
  assumes "list_at h l xs"
  shows "links h (xs @ [list_tail l])" "list_tail l \<notin> set xs" "NULL \<notin> set xs"
    "next_of h (list_head l) = hd (xs @ [list_tail l])"
  using assms by (cases xs; auto simp: list_at_def nodes_def)+

lemma elem_find_spec: "list_at h l xs \<Longrightarrow> elem_find l e h = Some (e \<in> set xs)"
  using find_loop_links [OF list_at_links(1,2,3)] list_at_links(4)
  by (metis elem_find_def)

lemma len_loop_links:
  assumes "links h (xs @ [tail])" "tail \<notin> set xs"
  shows "len_loop tail h (hd (xs @ [tail])) n = Some (n + of_nat (length xs))"
  using assms
proof (induction xs arbitrary: n)
  case Nil
  then show ?case by (simp add: len_loop.simps)
next
  case (Cons x xs)
  then have "next_of h x = hd (xs @ [tail])" "links h (xs @ [tail])"
    by (cases xs; simp)+
  with Cons show ?case by (auto simp: len_loop.simps [of tail h x])
qed

lemma list_len_spec: "list_at h l xs \<Longrightarrow> list_len l h = Some (of_nat (length xs))"
  using len_loop_links [where n = 0, OF list_at_links(1) list_at_links(2)] list_at_links(4)
  by (fastforce simp: list_len_def)

text \<open>\<open>visit func xs h\<close>: what a traversal does to the elements \<open>xs\<close>, in order, until one stops it.\<close>

fun visit ::
  "(addr \<Rightarrow> 'a list_heap_scheme \<Rightarrow> bool \<times> 'a list_heap_scheme) \<Rightarrow>
   addr list \<Rightarrow> 'a list_heap_scheme \<Rightarrow> addr \<times> 'a list_heap_scheme" where
  "visit func [] h = (NULL, h)"
| "visit func (x # xs) h =
     (case func x h of (stop, h') \<Rightarrow> if stop then (x, h') else visit func xs h')"

lemma traversal_loop_links:
  assumes "links h (xs @ [tail])" "tail \<notin> set xs"
    and keeps: "\<And>e h. next_of (snd (func e h)) = next_of h \<and> prev_of (snd (func e h)) = prev_of h"
  shows "traversal_loop tail func (hd (xs @ [tail])) h = Some (visit func xs h)"
  using assms(1,2)
proof (induction xs arbitrary: h)
  case Nil
  then show ?case by (simp add: traversal_loop.simps)
next
  case (Cons x xs)
  obtain stop h' where f: "func x h = (stop, h')" by fastforce
  with keeps [of x h] have same: "next_of h' = next_of h" "prev_of h' = prev_of h" by simp_all
  from Cons.prems same have "next_of h' x = hd (xs @ [tail])" by (cases xs; simp)
  moreover have "links h' (xs @ [tail])"
    using Cons.prems same links_frame [of "xs @ [tail]" h' h] by (cases xs; simp)
  moreover have "x \<noteq> tail" using Cons.prems by auto
  ultimately show ?case
    using Cons f by (simp add: traversal_loop.simps [of tail func x])
qed

lemma list_traversal_spec:
  assumes at: "list_at h l xs"
    and keeps: "\<And>e h. next_of (snd (func e h)) = next_of h \<and> prev_of (snd (func e h)) = prev_of h"
  shows "list_traversal l func h = Some (visit func xs h)"
  using list_empty_spec [OF at] traversal_loop_links [OF list_at_links(1,2) [OF at] keeps]
    list_at_links(4) [OF at]
  by (auto simp: list_traversal_def Let_def)


section \<open>The contract of a kernel queue\<close>

text \<open>
  What the scheduler, the semaphores and the allocator rely on: each queue stands for a sequence
  (\<open>rep\<close>), and the operations are the sequence operations on elements that may be linked.
\<close>

locale elem_queue =
  fixes rep :: "'h \<Rightarrow> 'e list \<Rightarrow> bool"
    and okay :: "'e \<Rightarrow> bool"
    and append_op :: "'e \<Rightarrow> 'h \<Rightarrow> 'h res"
    and push_op :: "'e \<Rightarrow> 'h \<Rightarrow> 'h res"
    and remove_op :: "'e \<Rightarrow> 'h \<Rightarrow> 'h res"
    and pop_op :: "'h \<Rightarrow> ('e \<times> 'h) res"
    and find_op :: "'e \<Rightarrow> 'h \<Rightarrow> bool option"
  assumes append_law: "rep h xs \<Longrightarrow> okay e \<Longrightarrow> e \<notin> set xs \<Longrightarrow>
      \<exists>h'. append_op e h = Inr h' \<and> rep h' (xs @ [e])"
    and push_law: "rep h xs \<Longrightarrow> okay e \<Longrightarrow> e \<notin> set xs \<Longrightarrow>
      \<exists>h'. push_op e h = Inr h' \<and> rep h' (e # xs)"
    and remove_law: "rep h (xs @ e # ys) \<Longrightarrow> \<exists>h'. remove_op e h = Inr h' \<and> rep h' (xs @ ys)"
    and pop_law: "rep h (x # xs) \<Longrightarrow> \<exists>h'. pop_op h = Inr (x, h') \<and> rep h' xs"
    and find_law: "rep h xs \<Longrightarrow> find_op e h = Some (e \<in> set xs)"
begin

lemma append_all:
  "rep h xs \<Longrightarrow> distinct (xs @ es) \<Longrightarrow> \<forall>e \<in> set es. okay e \<Longrightarrow>
   \<exists>h'. foldE append_op es h = Inr h' \<and> rep h' (xs @ es)"
proof (induction es arbitrary: h xs)
  case Nil
  then show ?case by simp
next
  case (Cons e es)
  then obtain h1 where "append_op e h = Inr h1" "rep h1 (xs @ [e])"
    using append_law [of h xs e] by auto
  with Cons.IH [of h1 "xs @ [e]"] Cons.prems show ?case by auto
qed

lemma push_all:
  "rep h xs \<Longrightarrow> distinct (es @ xs) \<Longrightarrow> \<forall>e \<in> set es. okay e \<Longrightarrow>
   \<exists>h'. foldE push_op es h = Inr h' \<and> rep h' (rev es @ xs)"
proof (induction es arbitrary: h xs)
  case Nil
  then show ?case by simp
next
  case (Cons e es)
  then obtain h1 where "push_op e h = Inr h1" "rep h1 (e # xs)"
    using push_law [of h xs e] by auto
  with Cons.IH [of h1 "e # xs"] Cons.prems show ?case by auto
qed

lemma drain_all: "rep h (es @ xs) \<Longrightarrow> \<exists>h'. drain pop_op (length es) h = Inr (es, h') \<and> rep h' xs"
proof (induction es arbitrary: h)
  case Nil
  then show ?case by simp
next
  case (Cons e es)
  then obtain h1 where "pop_op h = Inr (e, h1)" "rep h1 (es @ xs)"
    using pop_law [of h e "es @ xs"] by auto
  with Cons.IH [of h1] show ?case by auto
qed

lemma fifo:
  assumes "rep h []" "distinct es" "\<forall>e \<in> set es. okay e"
  shows "\<exists>h1 h2. foldE append_op es h = Inr h1 \<and> rep h1 es \<and>
           drain pop_op (length es) h1 = Inr (es, h2) \<and> rep h2 []"
  using append_all [of h "[]" es] drain_all [of _ es "[]"] assms by fastforce

lemma lifo:
  assumes "rep h []" "distinct es" "\<forall>e \<in> set es. okay e"
  shows "\<exists>h1 h2. foldE push_op es h = Inr h1 \<and> rep h1 (rev es) \<and>
           drain pop_op (length es) h1 = Inr (rev es, h2) \<and> rep h2 []"
  using push_all [of h "[]" es] drain_all [of _ "rev es" "[]"] assms by fastforce

text \<open>One turn of a round-robin queue: the first element goes to the back.\<close>

lemma rotate_once:
  assumes "rep h (x # xs)" "okay x" "x \<notin> set xs"
  shows "\<exists>h1 h2. pop_op h = Inr (x, h1) \<and> append_op x h1 = Inr h2 \<and> rep h2 (xs @ [x])"
  using pop_law [OF assms(1)] append_law [of _ xs x] assms(2,3) by blast

lemma remove_keeps_rest:
  assumes "rep h (xs @ e # ys)" "distinct (xs @ e # ys)"
  shows "\<exists>h'. remove_op e h = Inr h' \<and> rep h' (xs @ ys) \<and> find_op e h' = Some False"
  using remove_law [OF assms(1)] find_law [of _ "xs @ ys" e] assms(2) by auto

end

interpretation dl: elem_queue "\<lambda>h. list_at h l" "linkable l" "list_append l" "list_push l"
    list_remove "list_pop l" "elem_find l"
  for l
proof (unfold_locales, goal_cases)
  case (1 h xs e)
  then show ?case using list_append_spec [OF 1] by blast
next
  case (2 h xs e)
  then show ?case using list_push_spec [OF 2] by blast
next
  case (3 h xs e ys)
  then show ?case using list_remove_spec [OF 3] by blast
next
  case (4 h x xs)
  then show ?case using list_pop_spec [OF 4] by blast
next
  case (5 h xs e)
  then show ?case by (rule elem_find_spec)
qed

lemma list_at_distinct: "list_at h l xs \<Longrightarrow> distinct xs"
  by (simp add: list_at_def nodes_def)

section \<open>Properties of the pointer list\<close>

text \<open>
  C36. Used as a queue, the pointer list is first-in first-out: elements appended one after the
  other to an initialised list come out of \<open>list_pop\<close> in the same order, every operation returns,
  and the list is empty and well formed afterwards.
\<close>

theorem list_fifo:
  assumes "list_at h l []" "distinct es" "\<forall>e \<in> set es. linkable l e"
  shows "\<exists>h1 h2. foldE (list_append l) es h = Inr h1 \<and> list_at h1 l es \<and>
           drain (list_pop l) (length es) h1 = Inr (es, h2) \<and> list_at h2 l []"
  using assms by (rule dl.fifo)

definition zero_heap :: "list_heap" where
  "zero_heap = \<lparr>if_flag = True, next_of = (\<lambda>_. NULL), prev_of = (\<lambda>_. NULL)\<rparr>"

lemma list_fifo_witness:
  "\<exists>h h1 h2. list_init 16 zero_heap = Inr h \<and>
     foldE (list_append 16) [64, 96, 128] h = Inr h1 \<and>
     drain (list_pop 16) 3 h1 = Inr ([64, 96, 128], h2) \<and> list_at h2 16 []"
proof -
  obtain h where h: "list_init 16 zero_heap = Inr h" "list_at h 16 []"
    using list_init_spec [of 16 zero_heap] by (auto simp: list_head_def list_tail_def)
  have "distinct [64, 96, 128 :: addr]" "\<forall>e \<in> set [64, 96, 128]. linkable 16 e"
    by (simp_all add: linkable_def list_head_def list_tail_def)
  from list_fifo [OF h(2) this] h(1) show ?thesis by (auto simp: eval_nat_numeral simp del: foldE.simps drain.simps)
qed

text \<open>
  C22. \<open>list_remove\<close> unlinks exactly its argument: the order of the rest is kept, the element is no
  longer found, every list that shares no node with this one is untouched, and the interrupt flag
  is what it was.
\<close>

theorem list_remove_exact:
  assumes "list_at h l (xs @ e # ys)"
  shows "\<exists>h'. list_remove e h = Inr h' \<and> list_at h' l (xs @ ys) \<and>
           elem_find l e h' = Some False \<and>
           preserves_others h h' (set (nodes l (xs @ e # ys))) \<and> if_flag h' = if_flag h"
  using list_remove_spec [OF assms] elem_find_spec [of _ l "xs @ ys" e] list_at_distinct [OF assms]
  by auto

lemma list_remove_exact_witness:
  "\<exists>(h :: list_heap) h'. list_at h 16 [64, 96, 128] \<and> list_remove 96 h = Inr h' \<and> list_at h' 16 [64, 128] \<and>
     elem_find 16 96 h' = Some False"
proof -
  obtain h where h: "list_init 16 zero_heap = Inr h" "list_at h 16 []"
    using list_init_spec [of 16 zero_heap] by (auto simp: list_head_def list_tail_def)
  have "distinct [64, 96, 128 :: addr]" "\<forall>e \<in> set [64, 96, 128]. linkable 16 e"
    by (simp_all add: linkable_def list_head_def list_tail_def)
  with dl.append_all [OF h(2), of "[64, 96, 128]"]
  obtain h1 :: list_heap where "list_at h1 16 ([64] @ 96 # [128])" by auto
  from list_remove_exact [OF this] this show ?thesis by auto
qed

text \<open>
  C37. On a well-formed list the scanning loops end, and their answers are the list's: membership
  for \<open>elem_find\<close>, the length modulo \<open>2 ^ 32\<close> for \<open>list_len\<close>, the first element the callback stops at
  for \<open>list_traversal\<close>, with the callback's effect on the elements before it.
\<close>

theorem list_scans_total:
  assumes "list_at h l xs"
    and "\<And>e h. next_of (snd (func e h)) = next_of h \<and> prev_of (snd (func e h)) = prev_of h"
  shows "elem_find l e h = Some (e \<in> set xs) \<and> list_len l h = Some (of_nat (length xs)) \<and>
    list_empty l h = (xs = []) \<and> list_traversal l func h = Some (visit func xs h)"
  using elem_find_spec list_len_spec list_empty_spec list_traversal_spec assms by metis

lemma list_scans_total_witness:
  "\<exists>h :: list_heap. list_at h 16 [64, 96] \<and> elem_find 16 96 h = Some True \<and> list_len 16 h = Some 2 \<and>
     list_traversal 16 (\<lambda>e h. (e = 96, h)) h = Some (96, h)"
proof -
  obtain h where h: "list_init 16 zero_heap = Inr h" "list_at h 16 []"
    using list_init_spec [of 16 zero_heap] by (auto simp: list_head_def list_tail_def)
  have "distinct [64, 96 :: addr]" "\<forall>e \<in> set [64, 96]. linkable 16 e"
    by (simp_all add: linkable_def list_head_def list_tail_def)
  with dl.append_all [OF h(2), of "[64, 96]"] obtain h1 :: list_heap where at: "list_at h1 16 [64, 96]" by auto
  from list_scans_total [OF at, of "\<lambda>e h. (e = 96, h)" 96] at show ?thesis by auto
qed

end
