(* ===== verification/C_String.thy ===== *)
theory C_String
  imports Prelude
begin

text \<open>
  \<open>lib/string.c\<close>. A pointer to bytes is the list of the bytes from it to the end of the object it
  points into, \<open>None\<close> being \<open>NULL\<close>; running off the object is a fault. \<open>char\<close> is signed on this
  target, so the comparing functions order bytes by \<open>sint\<close>. A returned pointer into the argument is
  its offset. The lemmas relate each loop to the list function it computes.
\<close>

section \<open>Memory functions\<close>

fun memset_loop :: "u8 list \<Rightarrow> u8 \<Rightarrow> nat \<Rightarrow> u8 list res" where
  "memset_loop dst value 0 = Inr dst"
| "memset_loop [] value (Suc len) = Inl Bad_access"
| "memset_loop (d # dst) value (Suc len) =
     bindE (memset_loop dst value len) (\<lambda>rest. Inr (value # rest))"

definition memset :: "u8 list option \<Rightarrow> u8 \<Rightarrow> nat \<Rightarrow> u8 list res" where
  "memset dst value len =
     asserting (dst \<noteq> None) (memset_loop (the dst) value len)"

fun memcpy_loop :: "u8 list \<Rightarrow> u8 list \<Rightarrow> nat \<Rightarrow> u8 list res" where
  "memcpy_loop dst src 0 = Inr dst"
| "memcpy_loop (d # dst) (s # src) (Suc len) =
     bindE (memcpy_loop dst src len) (\<lambda>rest. Inr (s # rest))"
| "memcpy_loop _ _ (Suc len) = Inl Bad_access"

definition memcpy :: "u8 list option \<Rightarrow> u8 list option \<Rightarrow> nat \<Rightarrow> u8 list res" where
  "memcpy dst src len =
     asserting (dst \<noteq> None \<and> src \<noteq> None) (memcpy_loop (the dst) (the src) len)"

fun memcmp_loop :: "u8 list \<Rightarrow> u8 list \<Rightarrow> nat \<Rightarrow> int res" where
  "memcmp_loop a b 0 = Inr 0"
| "memcmp_loop (x # a) (y # b) (Suc len) =
     (if x \<noteq> y then Inr (if sint x > sint y then 1 else -1) else memcmp_loop a b len)"
| "memcmp_loop _ _ (Suc len) = Inl Bad_access"

definition memcmp :: "u8 list option \<Rightarrow> u8 list option \<Rightarrow> nat \<Rightarrow> int res" where
  "memcmp a b len =
     asserting (a \<noteq> None \<and> b \<noteq> None) (memcmp_loop (the a) (the b) len)"

section \<open>String functions\<close>

fun strcpy_loop :: "u8 list \<Rightarrow> u8 list \<Rightarrow> u8 list res" where
  "strcpy_loop (d # des) (s # src) =
     (if s = 0 then Inr (s # des)
      else bindE (strcpy_loop des src) (\<lambda>rest. Inr (s # rest)))"
| "strcpy_loop _ _ = Inl Bad_access"

definition strcpy :: "u8 list option \<Rightarrow> u8 list option \<Rightarrow> u8 list res" where
  "strcpy des src =
     asserting (des \<noteq> None \<and> src \<noteq> None) (strcpy_loop (the des) (the src))"

fun strlen_loop :: "u8 list \<Rightarrow> nat \<Rightarrow> nat res" where
  "strlen_loop [] n = Inl Bad_access"
| "strlen_loop (c # p) n = (if c = 0 then Inr n else strlen_loop p (Suc n))"

definition strlen :: "u8 list option \<Rightarrow> nat res" where
  "strlen str = asserting (str \<noteq> None) (strlen_loop (the str) 0)"

fun strcmp_loop :: "u8 list \<Rightarrow> u8 list \<Rightarrow> int res" where
  "strcmp_loop (x # a) (y # b) =
     (if x \<noteq> 0 \<and> x = y then strcmp_loop a b
      else Inr (if sint x < sint y then -1 else if sint x > sint y then 1 else 0))"
| "strcmp_loop _ _ = Inl Bad_access"

definition strcmp :: "u8 list option \<Rightarrow> u8 list option \<Rightarrow> int res" where
  "strcmp a b = asserting (a \<noteq> None \<and> b \<noteq> None) (strcmp_loop (the a) (the b))"

fun strcat_loop :: "u8 list \<Rightarrow> u8 list \<Rightarrow> u8 list res" where
  "strcat_loop [] src = Inl Bad_access"
| "strcat_loop (c # dst) src =
     (if c = 0 then strcpy_loop (c # dst) src
      else bindE (strcat_loop dst src) (\<lambda>rest. Inr (c # rest)))"

definition strcat :: "u8 list option \<Rightarrow> u8 list option \<Rightarrow> u8 list res" where
  "strcat dst src =
     asserting (dst \<noteq> None \<and> src \<noteq> None) (strcat_loop (the dst) (the src))"

text \<open>
  \<open>*str == ch\<close> compares a signed \<open>char\<close> with a \<open>uint8_t\<close>; both are promoted to \<open>int\<close> first.
\<close>

definition char_eq_u8 :: "u8 \<Rightarrow> u8 \<Rightarrow> bool" where
  "char_eq_u8 c ch \<longleftrightarrow> sint c = uint ch"

fun strchr_loop :: "u8 list \<Rightarrow> u8 \<Rightarrow> nat \<Rightarrow> nat option res" where
  "strchr_loop [] ch i = Inl Bad_access"
| "strchr_loop (c # str) ch i =
     (if c \<noteq> 0 then if char_eq_u8 c ch then Inr (Some i) else strchr_loop str ch (Suc i)
      else Inr None)"

definition strchr :: "u8 list option \<Rightarrow> u8 \<Rightarrow> nat option res" where
  "strchr str ch = asserting (str \<noteq> None) (strchr_loop (the str) ch 0)"

fun strrchr_loop :: "u8 list \<Rightarrow> u8 \<Rightarrow> nat \<Rightarrow> nat option \<Rightarrow> nat option res" where
  "strrchr_loop [] ch i last_char = Inl Bad_access"
| "strrchr_loop (c # str) ch i last_char =
     (if c \<noteq> 0
      then strrchr_loop str ch (Suc i) (if char_eq_u8 c ch then Some i else last_char)
      else Inr last_char)"

definition strrchr :: "u8 list option \<Rightarrow> u8 \<Rightarrow> nat option res" where
  "strrchr str ch = asserting (str \<noteq> None) (strrchr_loop (the str) ch 0 None)"

fun strchrs_loop :: "u8 list \<Rightarrow> u8 \<Rightarrow> u32 \<Rightarrow> u32 res" where
  "strchrs_loop [] ch ch_cnt = Inl Bad_access"
| "strchrs_loop (c # p) ch ch_cnt =
     (if c \<noteq> 0 then strchrs_loop p ch (if char_eq_u8 c ch then ch_cnt + 1 else ch_cnt)
      else Inr ch_cnt)"

definition strchrs :: "u8 list option \<Rightarrow> u8 \<Rightarrow> u32 res" where
  "strchrs str ch = asserting (str \<noteq> None) (strchrs_loop (the str) ch 0)"

section \<open>The list functions they compute\<close>

text \<open>The string a buffer holds: its bytes before the first NUL, if there is one.\<close>

definition text_of :: "u8 list \<Rightarrow> u8 list" where "text_of bs = takeWhile (\<lambda>c. c \<noteq> 0) bs"

definition terminated :: "u8 list \<Rightarrow> bool" where "terminated bs \<longleftrightarrow> 0 \<in> set bs"

text \<open>A string constant of the source.\<close>

definition lit :: "string \<Rightarrow> u8 list" where "lit s = map of_char s @ [0]"

definition chr :: "char \<Rightarrow> u8" where "chr c = of_char c"

lemma terminated_Nil [simp]: "\<not> terminated []" by (simp add: terminated_def)

lemma terminated_Cons [simp]: "terminated (c # bs) \<longleftrightarrow> c = 0 \<or> terminated bs"
  by (auto simp: terminated_def)

lemma text_of_Nil [simp]: "text_of [] = []" by (simp add: text_of_def)

lemma text_of_Cons [simp]: "text_of (c # bs) = (if c = 0 then [] else c # text_of bs)"
  by (simp add: text_of_def)

lemma text_of_append: "0 \<notin> set xs \<Longrightarrow> text_of (xs @ ys) = xs @ text_of ys"
  by (induction xs) auto

lemma text_of_no_zero [simp]: "0 \<notin> set (text_of bs)"
  by (induction bs) auto

lemma text_of_id [simp]: "0 \<notin> set xs \<Longrightarrow> text_of (xs @ 0 # ys) = xs"
  by (induction xs) auto

lemma terminated_append [simp]: "terminated (xs @ ys) \<longleftrightarrow> terminated xs \<or> terminated ys"
  by (auto simp: terminated_def)

lemma terminated_split:
  assumes "terminated bs"
  obtains rest where "bs = text_of bs @ 0 # rest"
proof -
  have "\<exists>rest. bs = text_of bs @ 0 # rest" using assms by (induction bs) auto
  then show thesis using that by blast
qed

lemma memset_loop_eq:
  "memset_loop dst v n = (if n \<le> length dst then Inr (replicate n v @ drop n dst) else Inl Bad_access)"
  by (induction dst v n rule: memset_loop.induct) auto

lemma memset_eq [simp]:
  "memset (Some dst) v n = (if n \<le> length dst then Inr (replicate n v @ drop n dst) else Inl Bad_access)"
  by (simp add: memset_def memset_loop_eq)

lemma memcpy_loop_eq:
  "memcpy_loop dst src n =
     (if n \<le> length dst \<and> n \<le> length src then Inr (take n src @ drop n dst) else Inl Bad_access)"
  by (induction dst src n rule: memcpy_loop.induct) auto

lemma memcpy_eq [simp]:
  "memcpy (Some dst) (Some src) n =
     (if n \<le> length dst \<and> n \<le> length src then Inr (take n src @ drop n dst) else Inl Bad_access)"
  by (simp add: memcpy_def memcpy_loop_eq)

lemma memcmp_loop_zero:
  assumes "n \<le> length a" "n \<le> length b"
  shows "memcmp_loop a b n = Inr 0 \<longleftrightarrow> take n a = take n b"
  using assms by (induction a b n rule: memcmp_loop.induct) auto

lemma strlen_loop_eq:
  "strlen_loop bs n = (if terminated bs then Inr (n + length (text_of bs)) else Inl Bad_access)"
  by (induction bs n rule: strlen_loop.induct) auto

lemma strlen_eq [simp]:
  "strlen (Some bs) = (if terminated bs then Inr (length (text_of bs)) else Inl Bad_access)"
  by (simp add: strlen_def strlen_loop_eq)

lemma strcpy_loop_eq:
  "terminated src \<Longrightarrow>
   strcpy_loop des src =
     (if length (text_of src) < length des
      then Inr (text_of src @ 0 # drop (Suc (length (text_of src))) des) else Inl Bad_access)"
  by (induction des src rule: strcpy_loop.induct) auto

lemma strcpy_eq:
  "terminated src \<Longrightarrow>
   strcpy (Some des) (Some src) =
     (if length (text_of src) < length des
      then Inr (text_of src @ 0 # drop (Suc (length (text_of src))) des) else Inl Bad_access)"
  by (simp add: strcpy_def strcpy_loop_eq)

lemma strcat_loop_eq:
  assumes "terminated dst" "terminated src"
  shows "strcat_loop dst src =
     (if length (text_of dst) + length (text_of src) < length dst
      then Inr (text_of dst @ text_of src @ 0 #
             drop (Suc (length (text_of dst) + length (text_of src))) dst)
      else Inl Bad_access)"
  using assms(1)
proof (induction dst)
  case (Cons c dst)
  then show ?case
    by (cases "c = 0") (auto simp: strcpy_loop_eq [OF assms(2)])
qed simp

lemma strcat_eq:
  assumes "terminated dst" "terminated src"
  shows "strcat (Some dst) (Some src) =
     (if length (text_of dst) + length (text_of src) < length dst
      then Inr (text_of dst @ text_of src @ 0 #
             drop (Suc (length (text_of dst) + length (text_of src))) dst)
      else Inl Bad_access)"
  using strcat_loop_eq [OF assms] by (simp add: strcat_def)

lemma strcmp_loop_zero:
  assumes "terminated a" "terminated b"
  shows "strcmp_loop a b = Inr 0 \<longleftrightarrow> text_of a = text_of b"
  using assms
proof (induction a b rule: strcmp_loop.induct)
  case (1 x a y b)
  have "sint x < sint y \<or> sint y < sint x" if "x \<noteq> y"
    using that by (metis linorder_neqE word_eq_iff_signed)
  with 1 show ?case by (cases "x = y") auto
qed auto

lemma strcmp_zero:
  "terminated a \<Longrightarrow> terminated b \<Longrightarrow> strcmp (Some a) (Some b) = Inr 0 \<longleftrightarrow> text_of a = text_of b"
  by (simp add: strcmp_def strcmp_loop_zero)

lemma strcmp_total:
  assumes "terminated a" "terminated b"
  shows "\<exists>r \<in> {-1, 0, 1}. strcmp (Some a) (Some b) = Inr r"
proof -
  have "\<exists>r \<in> {-1, 0, 1}. strcmp_loop a b = Inr r"
    using assms by (induction a b rule: strcmp_loop.induct) auto
  then show ?thesis by (simp add: strcmp_def)
qed

lemma strcmp_antisym:
  assumes "terminated a" "terminated b" "strcmp (Some a) (Some b) = Inr r"
  shows "strcmp (Some b) (Some a) = Inr (- r)"
proof -
  have "strcmp_loop a b = Inr r \<Longrightarrow> strcmp_loop b a = Inr (- r)"
    using assms(1,2) by (induction a b rule: strcmp_loop.induct) (auto split: if_splits)
  with assms(3) show ?thesis by (simp add: strcmp_def)
qed


lemma char_eq_u8_ascii: "unat ch < 128 \<Longrightarrow> char_eq_u8 c ch \<longleftrightarrow> c = ch"
proof -
  assume "unat ch < 128"
  then have "uint ch < 128" unfolding uint_nat by linarith
  then have "sint ch = uint ch"
    unfolding sint_uint
    using signed_take_bit_int_eq_self [of 7 "uint ch"] order_trans [OF _ uint_ge_0 [of ch], of "- 128"]
    by simp
  then show ?thesis unfolding char_eq_u8_def by (metis word_eq_iff_signed)
qed

lemma char_eq_u8_high: "128 \<le> unat ch \<Longrightarrow> \<not> char_eq_u8 c ch"
proof -
  assume "128 \<le> unat ch"
  then have "128 \<le> uint ch" unfolding uint_nat by linarith
  moreover have "sint c < 128" using sint_less [of c] by simp
  ultimately show ?thesis by (simp add: char_eq_u8_def)
qed

lemma strchr_ascii:
  assumes "terminated str" "unat ch < 128"
  shows "strchr (Some str) ch =
     Inr (if ch \<in> set (text_of str) then Some (length (takeWhile (\<lambda>c. c \<noteq> ch) (text_of str))) else None)"
proof -
  have "strchr_loop str ch i = Inr (if ch \<in> set (text_of str)
      then Some (i + length (takeWhile (\<lambda>c. c \<noteq> ch) (text_of str))) else None)" for i
    using assms by (induction str ch i rule: strchr_loop.induct) (auto simp: char_eq_u8_ascii)
  from this [of 0] show ?thesis by (simp add: strchr_def)
qed

lemma strchr_high:
  assumes "terminated str" "128 \<le> unat ch"
  shows "strchr (Some str) ch = Inr None"
proof -
  have "strchr_loop str ch i = Inr None" for i
    using assms by (induction str ch i rule: strchr_loop.induct) (auto simp: char_eq_u8_high)
  then show ?thesis by (simp add: strchr_def)
qed

lemma strchrs_ascii:
  assumes "terminated str" "unat ch < 128"
  shows "strchrs (Some str) ch = Inr (of_nat (count_list (text_of str) ch))"
proof -
  have "strchrs_loop str ch n = Inr (n + of_nat (count_list (text_of str) ch))" for n
    using assms by (induction str ch n rule: strchrs_loop.induct) (auto simp: char_eq_u8_ascii)
  then show ?thesis by (simp add: strchrs_def)
qed

text \<open>The last position of a byte in a text.\<close>

fun last_index :: "'a \<Rightarrow> 'a list \<Rightarrow> nat option" where
  "last_index x [] = None"
| "last_index x (y # xs) =
     (case last_index x xs of Some i \<Rightarrow> Some (Suc i) | None \<Rightarrow> if y = x then Some 0 else None)"

lemma last_index_None: "last_index x xs = None \<longleftrightarrow> x \<notin> set xs"
  by (induction xs) (auto split: option.splits)

lemma last_index_Some:
  "last_index x xs = Some i \<Longrightarrow>
   i < length xs \<and> xs ! i = x \<and> x \<notin> set (drop (Suc i) xs)"
  by (induction xs arbitrary: i) (auto split: option.splits if_splits simp: last_index_None)

lemma strrchr_ascii:
  assumes "terminated str" "unat ch < 128"
  shows "strrchr (Some str) ch = Inr (last_index ch (text_of str))"
proof -
  have "strrchr_loop str ch i r = Inr (case last_index ch (text_of str) of
      Some j \<Rightarrow> Some (i + j) | None \<Rightarrow> r)" for i r
    using assms
    by (induction str ch i r rule: strrchr_loop.induct)
      (auto simp: char_eq_u8_ascii split: option.splits)
  from this [of 0 None] show ?thesis by (simp add: strrchr_def split: option.splits)
qed

text \<open>
  C38. \<open>strcat\<close> appends: on two terminated strings it either leaves the destination holding its
  old text followed by the source's, nothing behind the new terminator changed, or, exactly when the
  two texts and a terminator do not fit in the destination, it runs out of the destination.
\<close>

theorem strcat_appends:
  assumes "terminated dst" "terminated src"
  shows "case strcat (Some dst) (Some src) of
      Inr dst' \<Rightarrow> text_of dst' = text_of dst @ text_of src \<and> length dst' = length dst \<and>
        (\<forall>i. length (text_of dst) + length (text_of src) < i \<longrightarrow> i < length dst \<longrightarrow> dst' ! i = dst ! i) \<and>
        length (text_of dst) + length (text_of src) < length dst
    | Inl e \<Rightarrow> e = Bad_access \<and> length dst \<le> length (text_of dst) + length (text_of src)"
proof -
  let ?a = "text_of dst" and ?b = "text_of src"
  have "text_of ((?a @ ?b) @ 0 # rest) = ?a @ ?b" for rest
    by (rule text_of_id) simp
  then show ?thesis
    using strcat_eq [OF assms] by (auto simp: nth_append nth_Cons')
qed

lemma strcat_appends_witness:
  "\<exists>dst'. strcat (Some (lit ''/usr'' @ replicate 5 0)) (Some (lit ''/bin'')) = Inr dst' \<and>
     text_of dst' = map of_char ''/usr/bin''"
  using strcat_appends [of "lit ''/usr'' @ replicate 5 0" "lit ''/bin''"]
  by (auto simp: lit_def terminated_def split: sum.splits)


section \<open>Texts cut at a separator\<close>

text \<open>The maximal runs of a text without the separator, in order.\<close>

function pieces :: "'a \<Rightarrow> 'a list \<Rightarrow> 'a list list" where
  "pieces sep xs =
     (let ys = dropWhile (\<lambda>x. x = sep) xs in
      if ys = [] then []
      else takeWhile (\<lambda>x. x \<noteq> sep) ys # pieces sep (dropWhile (\<lambda>x. x \<noteq> sep) ys))"
  by pat_completeness auto
termination
proof (relation "measure (\<lambda>(sep, xs). length xs)", goal_cases)
  case (2 sep xs ys)
  then have ys: "ys \<noteq> []" "hd ys \<noteq> sep"
    using hd_dropWhile [of "\<lambda>x. x = sep" xs] by auto
  then obtain y ys' where "ys = y # ys'" "y \<noteq> sep" by (cases ys) auto
  then have "length (dropWhile (\<lambda>x. x \<noteq> sep) ys) < length ys"
    by (simp add: length_dropWhile_le le_imp_less_Suc)
  also have "\<dots> \<le> length xs" using 2 by (simp add: length_dropWhile_le)
  finally show ?case by simp
qed simp

declare pieces.simps [simp del]

lemma pieces_elem:
  "xs' \<in> set (pieces sep xs) \<Longrightarrow> xs' \<noteq> [] \<and> sep \<notin> set xs' \<and> set xs' \<subseteq> set xs"
proof (induction sep xs rule: pieces.induct)
  case (1 sep xs)
  let ?ys = "dropWhile (\<lambda>x. x = sep) xs"
  show ?case
  proof (cases "?ys = []")
    case False
    then obtain y ys where ys: "?ys = y # ys" "y \<noteq> sep"
      using hd_dropWhile [of "\<lambda>x. x = sep" xs] by (cases ?ys) auto
    have "pieces sep xs = takeWhile (\<lambda>x. x \<noteq> sep) ?ys # pieces sep (dropWhile (\<lambda>x. x \<noteq> sep) ?ys)"
      using False by (subst pieces.simps) (simp add: Let_def)
    then consider "xs' = takeWhile (\<lambda>x. x \<noteq> sep) ?ys"
      | "xs' \<in> set (pieces sep (dropWhile (\<lambda>x. x \<noteq> sep) ?ys))"
      using 1(2) by auto
    then show ?thesis
    proof cases
      case 1
      have "set (takeWhile (\<lambda>x. x \<noteq> sep) ?ys) \<subseteq> set xs"
        by (meson set_dropWhileD set_takeWhileD subsetI)
      moreover have "sep \<notin> set (takeWhile (\<lambda>x. x \<noteq> sep) ?ys)"
        by (auto dest: set_takeWhileD)
      ultimately show ?thesis using 1 ys by auto
    next
      case 2
      then have "xs' \<noteq> [] \<and> sep \<notin> set xs' \<and> set xs' \<subseteq> set (dropWhile (\<lambda>x. x \<noteq> sep) ?ys)"
        using 1(1) [OF refl False] by blast
      moreover have "set (dropWhile (\<lambda>x. x \<noteq> sep) ?ys) \<subseteq> set xs"
        by (meson set_dropWhileD subsetI)
      ultimately show ?thesis by blast
    qed
  qed (use 1(2) in \<open>simp add: pieces.simps\<close>)
qed

lemma pieces_unfold:
  "dropWhile (\<lambda>x. x = sep) xs = [] \<Longrightarrow> pieces sep xs = []"
  "dropWhile (\<lambda>x. x = sep) xs \<noteq> [] \<Longrightarrow> pieces sep xs =
     takeWhile (\<lambda>x. x \<noteq> sep) (dropWhile (\<lambda>x. x = sep) xs) #
     pieces sep (dropWhile (\<lambda>x. x \<noteq> sep) (dropWhile (\<lambda>x. x = sep) xs))"
  by (subst pieces.simps, simp add: Let_def)+

end
