(* ===== verification/Stdio.thy ===== *)
theory Stdio
  imports C_String
begin

text \<open>
  Formatted output (\<open>lib/stdio.c\<close>). The output pointer \<open>buf_ptr\<close> is the pair of the buffer and
  the position in it; the variable arguments are the list of those not yet taken. The
  specification \<open>rendered\<close> says which text a format and its arguments stand for.
\<close>

type_synonym out_ptr = "u8 list \<times> nat"

text \<open>\<open>*buf_ptr++ = c\<close>\<close>

fun put_char :: "u8 \<Rightarrow> out_ptr \<Rightarrow> out_ptr res" where
  "put_char c (buf, pos) = bindE (write_at buf pos c) (\<lambda>buf. Inr (buf, Suc pos))"

text \<open>
  Dividing by base 0 raises the divide exception, whose handler spins; in base 1 the recursion
  never ends. The kernel uses bases 2, 8, 10 and 16.
\<close>

definition digit_char :: "u32 \<Rightarrow> u8" where
  "digit_char m = (if m < 10 then ucast m + chr CHR ''0'' else ucast m - 10 + chr CHR ''A'')"

function itoa :: "u32 \<Rightarrow> out_ptr \<Rightarrow> u8 \<Rightarrow> out_ptr res" where
  "itoa value p base =
     (if base = 0 then Inl Panicked
      else if base = 1 \<and> value \<noteq> 0 then Inl No_return
      else let m = value mod ucast base; i = value div ucast base in
        bindE (if i \<noteq> 0 then itoa i p base else Inr p) (put_char (digit_char m)))"
  by pat_completeness auto
termination
proof (relation "measure (\<lambda>(value, p, base). unat value)", goal_cases)
  case (2 v p base m i)
  have "v \<noteq> 0" using 2(3,4,5) by auto
  then have "base \<noteq> 0" "base \<noteq> 1" using 2(1,2) by blast+
  then have "unat base \<noteq> 0" "unat base \<noteq> 1" by (simp_all add: unat_ne_one del: One_nat_def)
  then have "1 < unat base" by linarith
  moreover have "0 < unat v" using \<open>v \<noteq> 0\<close> by (simp add: unat_gt_0)
  ultimately show ?case
    using 2(4) by (simp add: unat_div)
qed simp

declare itoa.simps [simp del]

datatype vararg = VInt u32 | VStr "u8 list"

definition va_int :: "vararg list \<Rightarrow> (u32 \<times> vararg list) res" where
  "va_int ap = (case ap of VInt n # ap \<Rightarrow> Inr (n, ap) | _ \<Rightarrow> Inl Bad_access)"

definition va_str :: "vararg list \<Rightarrow> (u8 list \<times> vararg list) res" where
  "va_str ap = (case ap of VStr s # ap \<Rightarrow> Inr (s, ap) | _ \<Rightarrow> Inl Bad_access)"

text \<open>\<open>strcpy(buf_ptr, arg_str); buf_ptr += strlen(arg_str)\<close>\<close>

fun put_str :: "u8 list \<Rightarrow> out_ptr \<Rightarrow> out_ptr res" where
  "put_str s (buf, pos) =
     bindE (strcpy (Some (drop pos buf)) (Some s)) (\<lambda>rest.
     bindE (strlen (Some s)) (\<lambda>n. Inr (take pos buf @ rest, pos + n)))"

definition put_int :: "u8 \<Rightarrow> vararg list \<Rightarrow> out_ptr \<Rightarrow> (out_ptr \<times> vararg list) res" where
  "put_int conv ap p =
     bindE (va_int ap) (\<lambda>(arg_int, ap).
       if conv = chr CHR ''d'' then
         if arg_int <s 0
         then bindE (put_char (chr CHR ''-'') p) (\<lambda>p. bindE (itoa (0 - arg_int) p 10) (\<lambda>p. Inr (p, ap)))
         else bindE (itoa arg_int p 10) (\<lambda>p. Inr (p, ap))
       else bindE (itoa arg_int p
              (if conv = chr CHR ''b'' then 2 else if conv = chr CHR ''o'' then 8 else 16))
              (\<lambda>p. Inr (p, ap)))"

text \<open>The branches of the \<open>switch\<close> that take an argument.\<close>

definition convert :: "u8 \<Rightarrow> vararg list \<Rightarrow> out_ptr \<Rightarrow> (out_ptr \<times> vararg list) res" where
  "convert conv ap p =
     (if conv = chr CHR ''s'' then
        bindE (va_str ap) (\<lambda>(s, ap). bindE (put_str s p) (\<lambda>p. Inr (p, ap)))
      else if conv = chr CHR ''c'' then
        bindE (va_int ap) (\<lambda>(n, ap). bindE (put_char (ucast n) p) (\<lambda>p. Inr (p, ap)))
      else put_int conv ap p)"

definition takes_argument :: "u8 \<Rightarrow> bool" where
  "takes_argument conv \<longleftrightarrow> conv \<in> set (map of_char ''scbodx'')"

fun vsprintf_loop :: "u8 list \<Rightarrow> vararg list \<Rightarrow> out_ptr \<Rightarrow> out_ptr res" where
  "vsprintf_loop [] ap p = Inl Bad_access"
| "vsprintf_loop (index_char # fmt) ap p =
     (if index_char = 0 then Inr p
      else if index_char \<noteq> chr CHR ''%'' then
        bindE (put_char index_char p) (vsprintf_loop fmt ap)
      else (case fmt of
          [] \<Rightarrow> Inl Bad_access
        | conv # fmt' \<Rightarrow>
            if takes_argument conv then
              bindE (convert conv ap p) (\<lambda>(p, ap). vsprintf_loop fmt' ap p)
            else if conv = chr CHR ''%'' then
              bindE (put_char (chr CHR ''%'') p) (vsprintf_loop fmt' ap)
            else vsprintf_loop fmt ap p))"

definition vsprintf :: "u8 list \<Rightarrow> u8 list \<Rightarrow> vararg list \<Rightarrow> (u8 list \<times> nat) res" where
  "vsprintf str fmt ap =
     bindE (vsprintf_loop fmt ap (str, 0)) (\<lambda>(buf, pos).
     bindE (strlen (Some buf)) (\<lambda>n. Inr (buf, n)))"

definition sprintf :: "u8 list \<Rightarrow> u8 list \<Rightarrow> vararg list \<Rightarrow> (u8 list \<times> nat) res" where
  "sprintf buf fmt args = vsprintf buf fmt args"

text \<open>\<open>printf\<close> formats into a zeroed buffer of 1024 bytes and writes its text to descriptor 1.\<close>

definition printf :: "(nat \<Rightarrow> u8 list \<Rightarrow> nat \<Rightarrow> 'r) \<Rightarrow> u8 list \<Rightarrow> vararg list \<Rightarrow> 'r res" where
  "printf write fmt args =
     bindE (vsprintf (replicate 1024 0) fmt args) (\<lambda>(buf, _).
     bindE (strlen (Some buf)) (\<lambda>n. Inr (write 1 buf n)))"

section \<open>Specification: digits and rendered text\<close>

text \<open>The digits of a number, least significant first, at least one of them.\<close>

fun digits_rev :: "nat \<Rightarrow> nat \<Rightarrow> nat list" where
  "digits_rev b n = (if b < 2 \<or> n < b then [n] else n mod b # digits_rev b (n div b))"

declare digits_rev.simps [simp del]

definition digits :: "nat \<Rightarrow> nat \<Rightarrow> nat list" where "digits b n = rev (digits_rev b n)"

definition value_of_digits :: "nat \<Rightarrow> nat list \<Rightarrow> nat" where
  "value_of_digits b ds = foldl (\<lambda>v d. v * b + d) 0 ds"

definition numeral_text :: "nat \<Rightarrow> u32 \<Rightarrow> u8 list" where
  "numeral_text b n = map (\<lambda>d. digit_char (of_nat d)) (digits b (unat n))"

fun arg_text :: "u8 \<Rightarrow> vararg \<Rightarrow> u8 list option" where
  "arg_text conv (VStr s) = (if conv = chr CHR ''s'' \<and> terminated s then Some (text_of s) else None)"
| "arg_text conv (VInt n) =
     (if conv = chr CHR ''s'' then None
      else if conv = chr CHR ''c'' then Some [ucast n]
      else if conv = chr CHR ''d'' then
        Some (if n <s 0 then chr CHR ''-'' # numeral_text 10 (- n) else numeral_text 10 n)
      else Some (numeral_text
        (if conv = chr CHR ''b'' then 2 else if conv = chr CHR ''o'' then 8 else 16) n))"

text \<open>The text a format and its arguments stand for, \<open>None\<close> when they do not match.\<close>

fun rendered :: "u8 list \<Rightarrow> vararg list \<Rightarrow> u8 list option" where
  "rendered [] ap = Some []"
| "rendered (c # fmt) ap =
     (if c \<noteq> chr CHR ''%'' then map_option (Cons c) (rendered fmt ap)
      else (case fmt of
          [] \<Rightarrow> Some []
        | conv # fmt' \<Rightarrow>
            if takes_argument conv then
              (case ap of
                 [] \<Rightarrow> None
               | a # ap \<Rightarrow> (case arg_text conv a of
                     None \<Rightarrow> None | Some xs \<Rightarrow> map_option (append xs) (rendered fmt' ap)))
            else if conv = chr CHR ''%'' then map_option (Cons conv) (rendered fmt' ap)
            else rendered fmt ap))"


section \<open>What the loops emit\<close>

text \<open>
  \<open>emits t p q\<close>: the output went from \<open>p\<close> to \<open>q\<close> by writing \<open>t\<close>; a cell after the new position
  keeps its value or is zero (\<open>strcpy\<close> writes a terminator that the next output replaces).
\<close>

fun emits :: "u8 list \<Rightarrow> out_ptr \<Rightarrow> out_ptr \<Rightarrow> bool" where
  "emits t (buf, pos) (buf', pos') \<longleftrightarrow>
     length buf' = length buf \<and> pos' = pos + length t \<and> pos' \<le> length buf \<and>
     (\<forall>i < pos. buf' ! i = buf ! i) \<and>
     (\<forall>i < length t. buf' ! (pos + i) = t ! i) \<and>
     (\<forall>i. pos' \<le> i \<longrightarrow> i < length buf \<longrightarrow> buf' ! i = buf ! i \<or> buf' ! i = 0)"

lemma emits_Nil: "snd p \<le> length (fst p) \<Longrightarrow> emits [] p p"
  by (cases p) auto

lemma emits_append:
  assumes "emits s p q" "emits t q r"
  shows "emits (s @ t) p r"
proof (cases p; cases q; cases r)
  fix buf pos buf1 pos1 buf2 pos2
  assume eqs: "p = (buf, pos)" "q = (buf1, pos1)" "r = (buf2, pos2)"
  have 1: "length buf1 = length buf" "pos1 = pos + length s" "\<And>i. i < pos \<Longrightarrow> buf1 ! i = buf ! i"
      "\<And>i. i < length s \<Longrightarrow> buf1 ! (pos + i) = s ! i"
      "\<And>i. pos1 \<le> i \<Longrightarrow> i < length buf \<Longrightarrow> buf1 ! i = buf ! i \<or> buf1 ! i = 0"
    using assms(1) by (auto simp: eqs)
  have 2: "length buf2 = length buf1" "pos2 = pos1 + length t" "pos2 \<le> length buf1"
      "\<And>i. i < pos1 \<Longrightarrow> buf2 ! i = buf1 ! i"
      "\<And>i. i < length t \<Longrightarrow> buf2 ! (pos1 + i) = t ! i"
      "\<And>i. pos2 \<le> i \<Longrightarrow> i < length buf1 \<Longrightarrow> buf2 ! i = buf1 ! i \<or> buf2 ! i = 0"
    using assms(2) by (auto simp: eqs)
  have "buf2 ! (pos + i) = (s @ t) ! i" if "i < length s + length t" for i
  proof (cases "i < length s")
    case False
    then show ?thesis using 1(2) 2(5) [of "i - length s"] that by (simp add: nth_append)
  qed (use 1 2(4) in \<open>simp add: nth_append\<close>)
  then show "emits (s @ t) p r"
    using 1 2 by (auto simp: eqs) (metis le_add1 le_trans)
qed

lemma emits_text:
  assumes "emits t (buf, 0) (buf', pos')"
  shows "take (length t) buf' = t" "length buf' = length buf" "pos' = length t"
  using assms by (auto intro!: nth_equalityI)

lemma put_char_emits:
  "snd p < length (fst p) \<Longrightarrow> \<exists>q. put_char c p = Inr q \<and> emits [c] p q"
  by (cases p) (auto simp: less_Suc_eq nth_list_update)

lemma put_str_emits:
  assumes "terminated s" "snd p + length (text_of s) < length (fst p)"
  shows "\<exists>q. put_str s p = Inr q \<and> emits (text_of s) p q"
proof (cases p)
  case (Pair buf pos)
  with assms show ?thesis
    by (auto simp: strcpy_eq nth_append min_def nth_Cons' less_diff_conv2)
qed


lemma length_digits_pos: "0 < length (digits b n)"
  by (subst digits_def, subst digits_rev.simps) simp

lemma digits_unfold:
  "2 \<le> b \<Longrightarrow> digits b n = (if n < b then [n] else digits b (n div b) @ [n mod b])"
  unfolding digits_def by (subst digits_rev.simps) auto

lemma value_of_digits_digits: "2 \<le> b \<Longrightarrow> value_of_digits b (digits b n) = n"
proof (induction b n rule: digits_rev.induct)
  case (1 b n)
  then show ?case by (subst digits_unfold) (auto simp: value_of_digits_def)
qed

lemma digits_less: "2 \<le> b \<Longrightarrow> d \<in> set (digits b n) \<Longrightarrow> d < b"
proof (induction b n rule: digits_rev.induct)
  case (1 b n)
  then show ?case using digits_unfold [of b n] by (auto split: if_splits)
qed

lemma numeral_text_unfold:
  assumes "2 \<le> unat (base :: u8)"
  shows "numeral_text (unat base) v =
    (if v div ucast base = 0 then [digit_char (v mod ucast base)]
     else numeral_text (unat base) (v div ucast base) @ [digit_char (v mod ucast base)])"
proof -
  have "v div ucast base = 0 \<longleftrightarrow> unat (v div ucast base) = 0" by simp
  then have "v div ucast base = 0 \<longleftrightarrow> unat v < unat base"
    using assms by (simp add: unat_div div_eq_0_iff del: unat_eq_zero_iff)
  moreover have "of_nat (unat v mod unat base) = v mod ucast base"
    by (metis unat_ucast_widen(1) unat_mod_distrib of_nat_unat ucast_id)
  moreover have "v mod ucast base = v" if "unat v < unat base"
    using that by (simp add: word_arith_nat_mod)
  ultimately show ?thesis
    by (simp add: numeral_text_def digits_unfold [OF assms] unat_div)
qed

lemma itoa_emits:
  assumes "2 \<le> unat base" "snd p + length (numeral_text (unat base) v) \<le> length (fst p)"
  shows "\<exists>q. itoa v p base = Inr q \<and> emits (numeral_text (unat base) v) p q"
  using assms
proof (induction v p base rule: itoa.induct)
  case (1 v p base)
  have b: "base \<noteq> 0" "base \<noteq> 1" using 1(2) by auto
  show ?case
  proof (cases "v div ucast base = 0")
    case True
    then show ?thesis
      using 1(2,3) b put_char_emits [of p] numeral_text_unfold [OF 1(2), of v]
      by (subst itoa.simps) simp
  next
    case False
    let ?t = "numeral_text (unat base) (v div ucast base)"
    have n: "numeral_text (unat base) v = ?t @ [digit_char (v mod ucast base)]"
      using numeral_text_unfold [OF 1(2), of v] False by simp
    obtain q where q: "itoa (v div ucast base) p base = Inr q" "emits ?t p q"
      using 1(1) [OF _ _ refl refl False] 1(2,3) b n by auto
    have "snd q < length (fst q)" using q(2) 1(3) n by (cases p; cases q) simp
    then obtain r where "put_char (digit_char (v mod ucast base)) q = Inr r"
      "emits [digit_char (v mod ucast base)] q r" using put_char_emits by blast
    with q emits_append [OF q(2)] show ?thesis
      using b False n by (subst itoa.simps) simp
  qed
qed


lemma chr_eqs [simp]:
  "chr CHR ''%'' = 37" "chr CHR ''s'' = 115" "chr CHR ''c'' = 99" "chr CHR ''b'' = 98"
  "chr CHR ''o'' = 111" "chr CHR ''d'' = 100" "chr CHR ''x'' = 120" "chr CHR ''-'' = 45"
  by (simp_all add: chr_def)

lemma takes_argument_iff:
  "takes_argument conv \<longleftrightarrow> conv = 115 \<or> conv = 99 \<or> conv = 98 \<or> conv = 111 \<or> conv = 100 \<or> conv = 120"
  by (auto simp: takes_argument_def)

lemma convert_emits:
  assumes "arg_text conv a = Some xs" "takes_argument conv"
    and "snd p + length xs < length (fst p)"
  shows "\<exists>q. convert conv (a # ap) p = Inr (q, ap) \<and> emits xs p q"
proof (cases a)
  case (VStr s)
  then show ?thesis
    using assms put_str_emits [of s p] by (auto simp: convert_def va_str_def split: if_splits)
next
  case (VInt n)
  consider (c) "conv = 99" | (neg) "conv = 100" "n <s 0" | (pos) "conv = 100" "\<not> n <s 0"
    | (b) "conv = 98" | (oct) "conv = 111" | (x) "conv = 120"
    using assms VInt by (auto simp: takes_argument_iff)
  then show ?thesis
  proof cases
    case c
    then show ?thesis using assms VInt put_char_emits [of p "ucast n"]
      by (auto simp: convert_def va_int_def)
  next
    case neg
    then have xs: "xs = 45 # numeral_text 10 (- n)" using assms VInt by simp
    obtain q where q: "put_char 45 p = Inr q" "emits [45] p q"
      using put_char_emits [of p 45] assms(3) by auto
    have "snd q + length (numeral_text 10 (- n)) \<le> length (fst q)"
      using q(2) assms(3) xs by (cases p; cases q) simp
    then obtain r where "itoa (- n) q 10 = Inr r" "emits (numeral_text 10 (- n)) q r"
      using itoa_emits [of 10 q "- n"] by auto
    then show ?thesis
      using q emits_append [OF q(2)] neg xs VInt by (simp add: convert_def put_int_def va_int_def)
  qed (use assms VInt itoa_emits [of 2 p n] itoa_emits [of 8 p n] itoa_emits [of 10 p n]
         itoa_emits [of 16 p n]
       in \<open>auto simp: convert_def put_int_def va_int_def\<close>)
qed

lemma emits_step:
  assumes "emits s p q" "snd p + length (s @ t) < length (fst p)"
    and "snd q + length t < length (fst q) \<Longrightarrow> \<exists>r. f q = Inr r \<and> emits t q r"
  shows "\<exists>r. f q = Inr r \<and> emits (s @ t) p r"
proof -
  have "snd q + length t < length (fst q)" using assms(1,2) by (cases p; cases q) simp
  then show ?thesis using assms(3) emits_append [OF assms(1)] by blast
qed

lemma vsprintf_loop_emits:
  assumes "terminated fmt" "rendered (text_of fmt) ap = Some t"
    and "snd p + length t < length (fst p)"
  shows "\<exists>q. vsprintf_loop fmt ap p = Inr q \<and> emits t p q"
  using assms
proof (induction fmt ap p arbitrary: t rule: vsprintf_loop.induct)
  case (2 c fmt ap p)
  consider (stop) "c = 0" | (lit) "c \<noteq> 0" "c \<noteq> 37"
    | (arg) conv fmt' where "c = 37" "fmt = conv # fmt'" "takes_argument conv"
    | (pct) fmt' where "c = 37" "fmt = 37 # fmt'"
    | (other) conv fmt' where "c = 37" "fmt = conv # fmt'" "\<not> takes_argument conv" "conv \<noteq> 37"
    using 2(5) by (cases fmt) auto
  then show ?case
  proof cases
    case stop
    then show ?thesis using 2(6,7) by (cases p) auto
  next
    case lit
    then obtain t' where t: "rendered (text_of fmt) ap = Some t'" "t = [c] @ t'"
      using 2(6) by auto
    obtain q where q: "put_char c p = Inr q" "emits [c] p q"
      using put_char_emits [of p c] 2(7) t by auto
    show ?thesis
      using emits_step [OF q(2), of t' "vsprintf_loop fmt ap"] 2(1) [OF _ _ q(1), of t']
        lit t 2(5,7) q(1) by simp
  next
    case arg
    then obtain a ap' xs t' where t: "ap = a # ap'" "arg_text conv a = Some xs"
        "rendered (text_of fmt') ap' = Some t'" "t = xs @ t'"
      using 2(6) by (auto simp: takes_argument_iff split: list.splits option.splits)
    obtain q where q: "convert conv ap p = Inr (q, ap')" "emits xs p q"
      using convert_emits [OF t(2) arg(3), of p ap'] 2(7) t by auto
    show ?thesis
      using emits_step [OF q(2), of t' "vsprintf_loop fmt' ap'"]
        2(2) [OF _ _ arg(2,3) q(1) refl, of t'] arg t 2(5,7) q(1)
      by (auto simp: takes_argument_iff)
  next
    case pct
    then obtain t' where t: "rendered (text_of fmt') ap = Some t'" "t = [37] @ t'"
      using 2(6) by (auto simp: takes_argument_iff)
    obtain q where q: "put_char 37 p = Inr q" "emits [37] p q"
      using put_char_emits [of p 37] 2(7) t by auto
    have ntk: "\<not> takes_argument 37" by (simp add: takes_argument_iff)
    have pre: "c \<noteq> 0" "\<not> c \<noteq> chr CHR ''%''" "37 = chr CHR ''%''"
        "put_char (chr CHR ''%'') p = Inr q" "terminated fmt'"
      using pct 2(5) q(1) by simp_all
    have "\<exists>r. vsprintf_loop fmt' ap q = Inr r \<and> emits t' q r"
      if "snd q + length t' < length (fst q)"
      by (rule 2(3) [OF pre(1,2) pct(2) ntk pre(3-5) t(1) that])
    then have "\<exists>r. vsprintf_loop fmt' ap q = Inr r \<and> emits ([37] @ t') p r"
      using 2(7) t(2) by (intro emits_step [OF q(2)]) simp_all
    then show ?thesis using pct ntk q(1) t(2) by simp
  next
    case other
    then show ?thesis
      using 2(4) [OF _ _ other(2,3), of t] 2(5,6,7) by (auto simp: takes_argument_iff)
  qed
qed simp


section \<open>The printed text\<close>

definition digit_value :: "u8 \<Rightarrow> nat" where
  "digit_value c = (if c < chr CHR ''A'' then unat c - 48 else unat c - 55)"

lemma digit_value_digit_char:
  assumes "d < 16" shows "digit_value (digit_char (of_nat d)) = d"
proof -
  have "\<forall>d \<in> set [0..<16]. digit_value (digit_char (of_nat d)) = d"
    by (simp add: digit_value_def digit_char_def chr_def upt_rec)
  with assms show ?thesis by simp
qed

lemma digits_length: "2 \<le> b \<Longrightarrow> n < b ^ k \<Longrightarrow> 0 < k \<Longrightarrow> length (digits b n) \<le> k"
proof (induction k arbitrary: n)
  case (Suc k)
  show ?case
  proof (cases "n < b")
    case False
    then have "n div b < b ^ k" "0 < k"
      using Suc.prems less_mult_imp_div_less [of n "b ^ k" b] by (auto simp: mult.commute intro: gr0I)
    then show ?thesis using Suc.IH [of "n div b"] Suc.prems False by (simp add: digits_unfold)
  qed (use Suc.prems in \<open>simp add: digits_unfold\<close>)
qed simp

lemma numeral_text_value:
  assumes "b \<in> {2..16}"
  shows "value_of_digits b (map digit_value (numeral_text b v)) = unat v"
proof -
  have "digit_value (digit_char (of_nat d)) = d" if "d \<in> set (digits b (unat v))" for d
    using digits_less [OF _ that] assms by (intro digit_value_digit_char) auto
  then have "map digit_value (numeral_text b v) = digits b (unat v)"
    unfolding numeral_text_def by (simp add: map_idI)
  then show ?thesis using value_of_digits_digits assms by simp
qed

text \<open>
  C35. The digits \<open>itoa\<close> writes are those of the number: read back in the same base they give the
  number again, nothing before them changes, and the position ends just after them.
\<close>

theorem itoa_round_trip:
  assumes "base \<in> {2, 8, 10, 16}" "pos + 32 \<le> length buf"
  shows "\<exists>buf' n. itoa v (buf, pos) base = Inr (buf', pos + n) \<and> 0 < n \<and> n \<le> 32 \<and>
     value_of_digits (unat base) (map digit_value (take n (drop pos buf'))) = unat v \<and>
     take pos buf' = take pos buf \<and> length buf' = length buf"
proof -
  let ?t = "numeral_text (unat base) v"
  have base: "2 \<le> unat base" "unat base \<in> {2..16}" using assms(1) by auto
  have "(2::nat) ^ 32 \<le> unat base ^ 32" using base(1) by (rule power_mono) simp
  then have "unat v < unat base ^ 32" using unsigned_less [of v, where ?'a = nat] by simp
  then have n: "length ?t \<le> 32" "0 < length ?t"
    using digits_length [OF base(1)] length_digits_pos by (simp_all add: numeral_text_def)
  obtain buf' pos' where q: "itoa v (buf, pos) base = Inr (buf', pos')" "emits ?t (buf, pos) (buf', pos')"
    using itoa_emits [OF base(1), of "(buf, pos)" v] n(1) assms(2) by auto
  have "take (length ?t) (drop pos buf') = ?t" "take pos buf' = take pos buf"
    using q(2) by (auto intro!: nth_equalityI)
  then show ?thesis
    using q n numeral_text_value [OF base(2)] by (intro exI [of _ buf'] exI [of _ "length ?t"]) simp
qed

lemma itoa_round_trip_witness:
  "\<exists>buf' n. itoa 3735928559 (replicate 40 0, 3) 16 = Inr (buf', 3 + n) \<and> 0 < n \<and> n \<le> 32 \<and>
     value_of_digits 16 (map digit_value (take n (drop 3 buf'))) = 3735928559"
  using itoa_round_trip [of 16 3 "replicate 40 0" 3735928559] by auto

text \<open>
  C27. Formatting writes exactly the text the format and its arguments stand for, when it fits; the
  result is a string with that text, of the length returned, if the buffer held a NUL there
  (\<open>vsprintf\<close> writes no terminator of its own).
\<close>

theorem sprintf_writes_rendered:
  assumes "terminated fmt" "rendered (text_of fmt) args = Some t"
    and "length t < length buf" "terminated (drop (length t) buf)"
  shows "\<exists>buf' n. sprintf buf fmt args = Inr (buf', n) \<and> take (length t) buf' = t \<and>
     length buf' = length buf \<and>
     (buf ! length t = 0 \<and> 0 \<notin> set t \<longrightarrow> text_of buf' = t \<and> n = length t)"
proof -
  obtain buf' pos' where q: "vsprintf_loop fmt args (buf, 0) = Inr (buf', pos')"
      "emits t (buf, 0) (buf', pos')"
    using vsprintf_loop_emits [OF assms(1,2), of "(buf, 0)"] assms(3) by auto
  have len: "length buf' = length buf" and tk: "take (length t) buf' = t"
    and keep: "\<And>i. length t \<le> i \<Longrightarrow> i < length buf \<Longrightarrow> buf' ! i = buf ! i \<or> buf' ! i = 0"
    using q(2) emits_text [OF q(2)] by auto
  obtain i where i: "i < length buf" "length t \<le> i" "buf ! i = 0"
    using assms(4) by (auto simp: terminated_def in_set_conv_nth)
      (metis assms(3) le_add1 less_diff_conv add.commute)
  have "terminated buf'"
    unfolding terminated_def in_set_conv_nth using i keep [OF i(2,1)] len by auto
  then have s: "sprintf buf fmt args = Inr (buf', length (text_of buf'))"
    using q(1) by (simp add: sprintf_def vsprintf_def)
  have "text_of buf' = t" if "buf ! length t = 0" "0 \<notin> set t"
  proof -
    have "drop (length t) buf' = 0 # drop (Suc (length t)) buf'"
      using keep [of "length t"] that(1) assms(3) len by (simp add: Cons_nth_drop_Suc [symmetric])
    then have "buf' = t @ 0 # drop (Suc (length t)) buf'" using tk by (metis append_take_drop_id)
    then show ?thesis using text_of_id [OF that(2)] by metis
  qed
  with s tk len show ?thesis by auto
qed

lemma sprintf_writes_rendered_witness:
  "\<exists>buf' n. sprintf (replicate 32 0) (lit ''%s has %d of %x%%'')
       [VStr (lit ''sda''), VInt (- 12), VInt 255] = Inr (buf', n) \<and>
     text_of buf' = map of_char ''sda has -12 of FF%'' \<and> n = 18"
proof -
  have neg: "(- 12 :: u32) <s 0" by (simp add: word_sless_alt)
  have "rendered (text_of (lit ''%s has %d of %x%%'')) [VStr (lit ''sda''), VInt (- 12), VInt 255] =
      Some (map of_char ''sda has -12 of FF%'')"
    by (simp add: lit_def neg takes_argument_iff numeral_text_def digits_unfold digit_char_def chr_def)
  from sprintf_writes_rendered [OF _ this, of "replicate 32 0"]
  obtain buf' n where "sprintf (replicate 32 0) (lit ''%s has %d of %x%%'')
       [VStr (lit ''sda''), VInt (- 12), VInt 255] = Inr (buf', n)"
    and "text_of buf' = map of_char ''sda has -12 of FF%'' \<and> n = length ''sda has -12 of FF%''"
    by (auto simp: lit_def nth_append terminated_def)
  then show ?thesis by auto
qed

text \<open>The buffers of \<open>ide.c\<close> are not zeroed: what they held beyond the text stays part of it.\<close>

lemma sprintf_unterminated:
  "sprintf (lit ''xxxxxx'') (lit ''sd%c'') [VInt 97] = Inr (lit ''sdaxxx'', 6)"
  by (simp add: sprintf_def vsprintf_def lit_def takes_argument_iff convert_def va_int_def
      put_int_def)

end
