(* ===== verification/Bitmap.thy ===== *)
theory Bitmap
  imports C_String
begin

text \<open>
  \<open>lib/kernel/bitmap.c\<close>. A bitmap is its length in bytes and the memory \<open>bits\<close> points to, which may
  go on beyond that length. \<open>taken b i\<close> abstracts it to the set of bits that are 1.
\<close>

record bitmap =
  btmp_byte_len :: nat
  bits :: "u8 list"

definition BITMAP_MASK :: u8 where "BITMAP_MASK = 1"

definition bitmap_init :: "bitmap \<Rightarrow> bitmap res" where
  "bitmap_init btmp =
     bindE (memset (Some (bits btmp)) 0 (btmp_byte_len btmp)) (\<lambda>bs. Inr (btmp\<lparr>bits := bs\<rparr>))"

definition bitmap_scan_test :: "bitmap \<Rightarrow> nat \<Rightarrow> bool res" where
  "bitmap_scan_test btmp bit_idx =
     (let byte_idx = bit_idx div 8; bit_odd = bit_idx mod 8 in
      bindE (read_at (bits btmp) byte_idx) (\<lambda>byte.
        Inr (byte AND push_bit bit_odd BITMAP_MASK \<noteq> 0)))"

text \<open>The loops of \<open>bitmap_scan\<close>: over full bytes, over the bits of a byte, over the bits after it.\<close>

function skip_full :: "bitmap \<Rightarrow> nat \<Rightarrow> nat res" where
  "skip_full btmp idx_byte =
     bindE (read_at (bits btmp) idx_byte) (\<lambda>byte.
       if byte = 0xFF \<and> idx_byte < btmp_byte_len btmp then skip_full btmp (Suc idx_byte)
       else Inr idx_byte)"
  by pat_completeness auto
termination
  by (relation "measure (\<lambda>(b, i). length (bits b) - i)") (auto simp: return_iff)

function free_bit :: "u8 \<Rightarrow> nat \<Rightarrow> nat" where
  "free_bit byte idx_bit =
     (if push_bit idx_bit BITMAP_MASK AND byte \<noteq> 0 then free_bit byte (Suc idx_bit) else idx_bit)"
  by pat_completeness auto
termination
proof (relation "measure (\<lambda>(byte, i). 8 - i)", goal_cases)
  case (2 byte i)
  have "i < 8"
  proof (rule ccontr)
    assume "\<not> i < 8"
    then have "push_bit i (1 :: u8) = 0" by (intro bit_word_eqI) (simp only: bit_push_bit_iff, auto)
    with 2 show False by (simp only: BITMAP_MASK_def) simp
  qed
  then show ?case by simp
qed simp

declare skip_full.simps [simp del] free_bit.simps [simp del]

fun count_loop :: "bitmap \<Rightarrow> nat \<Rightarrow> nat \<Rightarrow> nat \<Rightarrow> nat \<Rightarrow> int res" where
  "count_loop btmp cnt 0 next_bit count = Inr (- 1)"
| "count_loop btmp cnt (Suc bit_left) next_bit count =
     bindE (bitmap_scan_test btmp next_bit) (\<lambda>is_set.
       let count = (if \<not> is_set then Suc count else 0) in
       if count = cnt then Inr (int next_bit - int cnt + 1)
       else count_loop btmp cnt bit_left (Suc next_bit) count)"

definition bitmap_scan :: "bitmap \<Rightarrow> nat \<Rightarrow> int res" where
  "bitmap_scan btmp cnt =
     bindE (skip_full btmp 0) (\<lambda>idx_byte.
     asserting (idx_byte < btmp_byte_len btmp)
     (if idx_byte = btmp_byte_len btmp then Inr (- 1)
      else bindE (read_at (bits btmp) idx_byte) (\<lambda>byte.
        let bit_idx_start = idx_byte * 8 + free_bit byte 0 in
        if cnt = 1 then Inr (int bit_idx_start)
        else count_loop btmp cnt (btmp_byte_len btmp * 8 - bit_idx_start)
               (bit_idx_start + 1) 1)))"

definition bitmap_set :: "bitmap \<Rightarrow> nat \<Rightarrow> int \<Rightarrow> bitmap res" where
  "bitmap_set btmp bit_idx v =
     asserting (v = 1 \<or> v = 0)
     (let byte_idx = bit_idx div 8; bit_odd = bit_idx mod 8 in
      bindE (read_at (bits btmp) byte_idx) (\<lambda>byte.
        let byte' = (if v \<noteq> 0 then byte OR push_bit bit_odd BITMAP_MASK
                     else byte AND NOT (push_bit bit_odd BITMAP_MASK)) in
        bindE (write_at (bits btmp) byte_idx byte') (\<lambda>bs. Inr (btmp\<lparr>bits := bs\<rparr>))))"

section \<open>The set of taken bits\<close>

definition taken :: "bitmap \<Rightarrow> nat \<Rightarrow> bool" where
  "taken b i \<longleftrightarrow> bit (bits b ! (i div 8)) (i mod 8)"

text \<open>The bitmap covers its length, and its bits number \<open>bit_cnt b\<close>.\<close>

definition wf_bitmap :: "bitmap \<Rightarrow> bool" where
  "wf_bitmap b \<longleftrightarrow> btmp_byte_len b \<le> length (bits b)"

definition bit_cnt :: "bitmap \<Rightarrow> nat" where "bit_cnt b = 8 * btmp_byte_len b"

text \<open>\<open>cnt\<close> free bits in a row from \<open>s\<close>.\<close>

definition free_run :: "bitmap \<Rightarrow> nat \<Rightarrow> nat \<Rightarrow> bool" where
  "free_run b s cnt \<longleftrightarrow> (\<forall>i. s \<le> i \<longrightarrow> i < s + cnt \<longrightarrow> \<not> taken b i)"

lemma byte_test_bit [simp]:
  "(byte :: u8) AND 2 ^ n = 0 \<longleftrightarrow> \<not> bit byte n" "2 ^ n AND (byte :: u8) = 0 \<longleftrightarrow> \<not> bit byte n"
  by (simp_all add: and_exp_eq_0_iff_not_bit and.commute)

lemma bitmap_scan_test_eq [simp]:
  "i < 8 * length (bits b) \<Longrightarrow> bitmap_scan_test b i = Inr (taken b i)"
  by (simp add: bitmap_scan_test_def taken_def BITMAP_MASK_def Let_def)

lemma bitmap_scan_test_out:
  "8 * length (bits b) \<le> i \<Longrightarrow> bitmap_scan_test b i = Inl Bad_access"
  by (simp add: bitmap_scan_test_def read_at_def Let_def)


lemma bitmap_set_eq:
  assumes "i < 8 * length (bits b)" "v = 0 \<or> v = 1"
  shows "\<exists>b'. bitmap_set b i v = Inr b' \<and> length (bits b') = length (bits b) \<and>
     btmp_byte_len b' = btmp_byte_len b \<and> (\<forall>j < 8 * length (bits b). taken b' j \<longleftrightarrow> (if j = i then v = 1 else taken b j))"
proof -
  have "j div 8 = i div 8 \<Longrightarrow> j mod 8 = i mod 8 \<Longrightarrow> j = i" for j
    by (metis div_mult_mod_eq)
  then show ?thesis
    using assms unfolding bitmap_set_def
    by (auto simp: Let_def BITMAP_MASK_def taken_def nth_list_update bit_simps)
qed

lemma bitmap_init_eq:
  assumes "wf_bitmap b"
  shows "\<exists>b'. bitmap_init b = Inr b' \<and> length (bits b') = length (bits b) \<and>
     btmp_byte_len b' = btmp_byte_len b \<and> (\<forall>j < bit_cnt b. \<not> taken b' j)"
  using assms by (auto simp: bitmap_init_def wf_bitmap_def taken_def bit_cnt_def nth_append)

section \<open>Scanning\<close>

lemma skip_full_cases:
  assumes "wf_bitmap b" "i \<le> btmp_byte_len b"
  shows "(\<exists>k. skip_full b i = Inr k \<and> i \<le> k \<and> k < btmp_byte_len b \<and> bits b ! k \<noteq> 0xFF \<and>
            (\<forall>m. i \<le> m \<longrightarrow> m < k \<longrightarrow> bits b ! m = 0xFF)) \<or>
         (skip_full b i = Inr (btmp_byte_len b) \<or> skip_full b i = Inl Bad_access) \<and>
            (\<forall>m. i \<le> m \<longrightarrow> m < btmp_byte_len b \<longrightarrow> bits b ! m = 0xFF)"
  using assms
proof (induction b i rule: skip_full.induct)
  case (1 b i)
  have unfold: "skip_full b i = bindE (read_at (bits b) i) (\<lambda>byte.
      if byte = 0xFF \<and> i < btmp_byte_len b then skip_full b (Suc i) else Inr i)"
    by (subst skip_full.simps) simp
  consider (full) "i < btmp_byte_len b" "bits b ! i = 0xFF"
    | (free) "i < btmp_byte_len b" "bits b ! i \<noteq> 0xFF" | (last) "i = btmp_byte_len b"
    using 1(3) by linarith
  then show ?case
  proof cases
    case full
    then have len: "i < length (bits b)" using 1(2) by (simp add: wf_bitmap_def)
    then have eq: "skip_full b i = skip_full b (Suc i)" using full by (subst unfold) simp
    have step: "\<forall>m. i \<le> m \<longrightarrow> m < k \<longrightarrow> bits b ! m = 0xFF"
      if "\<forall>m. Suc i \<le> m \<longrightarrow> m < k \<longrightarrow> bits b ! m = 0xFF" for k
      using full(2) that by (metis Suc_leI le_neq_implies_less)
    consider (found) k where "skip_full b (Suc i) = Inr k" "Suc i \<le> k" "k < btmp_byte_len b"
        "bits b ! k \<noteq> 0xFF" "\<forall>m. Suc i \<le> m \<longrightarrow> m < k \<longrightarrow> bits b ! m = 0xFF"
      | (none) "skip_full b (Suc i) = Inr (btmp_byte_len b) \<or> skip_full b (Suc i) = Inl Bad_access"
        "\<forall>m. Suc i \<le> m \<longrightarrow> m < btmp_byte_len b \<longrightarrow> bits b ! m = 0xFF"
      using 1(1) [of "0xFF"] full len 1(2) by auto
    then show ?thesis
    proof cases
      case found
      then show ?thesis using step [OF found(5)] unfolding eq by (intro disjI1 exI [of _ k]) auto
    next
      case none
      then show ?thesis using step [OF none(2)] unfolding eq by blast
    qed
  next
    case free
    then have "i < length (bits b)" using 1(2) by (simp add: wf_bitmap_def)
    then have "skip_full b i = Inr i" using free by (subst unfold) simp
    then show ?thesis using free by auto
  next
    case last
    then have "skip_full b i = Inr i \<or> skip_full b i = Inl Bad_access"
      by (subst (1 2) unfold) (simp add: read_at_def)
    then show ?thesis using last by auto
  qed
qed

lemma byte_all_bits: "(byte :: u8) = 0xFF \<longleftrightarrow> (\<forall>n < 8. bit byte n)"
proof -
  have "(0xFF :: u8) = - 1" by simp
  then show ?thesis by (auto simp: bit_eq_iff)
qed

lemma free_bit_first:
  assumes "i \<le> k" "k < 8" "\<not> bit byte k"
  shows "i \<le> free_bit byte i \<and> free_bit byte i \<le> k \<and> \<not> bit byte (free_bit byte i) \<and>
    (\<forall>n. i \<le> n \<longrightarrow> n < free_bit byte i \<longrightarrow> bit byte n)"
  using assms
proof (induction byte i rule: free_bit.induct)
  case (1 byte i)
  have unfold: "free_bit byte i = (if bit byte i then free_bit byte (Suc i) else i)"
    by (subst free_bit.simps) (simp add: BITMAP_MASK_def)
  show ?case
  proof (cases "bit byte i")
    case True
    then have "i \<noteq> k" using 1 by auto
    then show ?thesis using 1(1) 1(2-) True unfold
      by (auto simp: BITMAP_MASK_def) (metis Suc_leI le_neq_implies_less)
  next
    case False
    then show ?thesis using unfold 1(2) by auto
  qed
qed

lemma free_bit_least:
  assumes "byte \<noteq> 0xFF"
  shows "free_bit byte 0 < 8" "\<not> bit byte (free_bit byte 0)" "\<And>n. n < free_bit byte 0 \<Longrightarrow> bit byte n"
proof -
  obtain k where "k < 8" "\<not> bit byte k" using assms byte_all_bits by blast
  then show "free_bit byte 0 < 8" "\<not> bit byte (free_bit byte 0)"
    "\<And>n. n < free_bit byte 0 \<Longrightarrow> bit byte n"
    using free_bit_first [of 0 k byte] by auto
qed


lemma count_loop_correct:
  assumes "next_bit + left \<le> 8 * length (bits b)" "count < cnt" "count \<le> next_bit"
    and "free_run b (next_bit - count) count" "count = next_bit \<or> taken b (next_bit - count - 1)"
    and "\<And>s. s + cnt \<le> next_bit \<Longrightarrow> \<not> free_run b s cnt"
  shows "(count_loop b cnt left next_bit count = Inr (- 1) \<and>
            (\<forall>s. s + cnt \<le> next_bit + left \<longrightarrow> \<not> free_run b s cnt)) \<or>
         (\<exists>s. count_loop b cnt left next_bit count = Inr (int s) \<and> free_run b s cnt \<and>
            s + cnt \<le> next_bit + left \<and> (\<forall>s' < s. \<not> free_run b s' cnt))"
  using assms
proof (induction left arbitrary: next_bit count)
  case (Suc left n count)
  have test: "bitmap_scan_test b n = Inr (taken b n)" using Suc.prems(1) by simp
  consider (t) "taken b n" | (found) "\<not> taken b n" "Suc count = cnt"
    | (more) "\<not> taken b n" "Suc count < cnt"
    using Suc.prems(2) by linarith
  then show ?case
  proof cases
    case t
    have no: "\<not> free_run b s cnt" if "s + cnt \<le> Suc n" for s
    proof (cases "s + cnt \<le> n")
      case False
      then have "s \<le> n" "n < s + cnt" using that Suc.prems(2) by auto
      then show ?thesis using t by (auto simp: free_run_def)
    qed (use Suc.prems(6) in blast)
    show ?thesis
      using Suc.IH [of "Suc n" 0] Suc.prems(1,2) no t test by (simp add: free_run_def)
  next
    case found
    have run: "free_run b (n - count) cnt"
      using Suc.prems(3,4) found unfolding free_run_def by (auto simp: less_Suc_eq)
    have "\<not> free_run b s' cnt" if "s' < n - count" for s'
      using Suc.prems(6) [of s'] that found(2) by linarith
    moreover have "int n - int cnt + 1 = int (n - count)" using found(2) Suc.prems(3) by linarith
    ultimately have "count_loop b cnt (Suc left) n count = Inr (int (n - count))"
      "\<forall>s' < n - count. \<not> free_run b s' cnt"
      using found test by (simp_all add: Let_def)
    then show ?thesis
      using run found Suc.prems(3) by (intro disjI2 exI [of _ "n - count"]) auto
  next
    case more
    have "\<not> free_run b s cnt" if "s + cnt \<le> Suc n" for s
    proof
      assume f: "free_run b s cnt"
      then have s: "s + cnt = Suc n" using Suc.prems(6) that le_Suc_eq by metis
      then have "s < n - count" using more(2) by linarith
      then have "s \<le> n - count - 1" "n - count - 1 < s + cnt" "count \<noteq> n" using s by auto
      then show False using f Suc.prems(5) unfolding free_run_def by blast
    qed
    moreover have "free_run b (n - count) (Suc count)"
      using Suc.prems(3,4) more unfolding free_run_def by (auto simp: less_Suc_eq)
    ultimately show ?thesis
      using Suc.IH [of "Suc n" "Suc count"] Suc.prems(1,3,5) more test by auto
  qed
qed auto


definition has_free :: "bitmap \<Rightarrow> bool" where
  "has_free b \<longleftrightarrow> (\<exists>i < bit_cnt b. \<not> taken b i)"

text \<open>The first free bit, and what \<open>bitmap_scan\<close> does from there.\<close>

lemma bitmap_scan_from_first:
  assumes "wf_bitmap b" "has_free b"
  obtains s where "s < bit_cnt b" "\<not> taken b s" "\<And>j. j < s \<Longrightarrow> taken b j"
    and "\<And>cnt. bitmap_scan b cnt =
      (if cnt = 1 then Inr (int s) else count_loop b cnt (bit_cnt b - s) (s + 1) 1)"
proof -
  have taken_full: "taken b j" if "bits b ! (j div 8) = 0xFF" for j
    unfolding taken_def that using byte_all_bits [of "0xFF"] by simp
  obtain i where i: "i < bit_cnt b" "\<not> taken b i" using assms(2) by (auto simp: has_free_def)
  then have "i div 8 < btmp_byte_len b" by (simp add: bit_cnt_def)
  then obtain k where k: "skip_full b 0 = Inr k" "k < btmp_byte_len b" "bits b ! k \<noteq> 0xFF"
      "\<And>m. m < k \<Longrightarrow> bits b ! m = 0xFF"
    using skip_full_cases [OF assms(1), of 0] taken_full [of i] i(2) by auto
  let ?f = "free_bit (bits b ! k) 0"
  let ?s = "k * 8 + ?f"
  note f = free_bit_least [OF k(3)]
  show thesis
  proof (rule that [of ?s])
    show "?s < bit_cnt b" using f(1) k(2) by (simp add: bit_cnt_def)
    show "\<not> taken b ?s" using f(1,2) by (simp add: taken_def)
    show "taken b j" if "j < ?s" for j
    proof (cases "j div 8 < k")
      case False
      then have "j div 8 = k" using that f(1) by linarith
      then have "j mod 8 < ?f" using that by (metis div_mult_mod_eq nat_add_left_cancel_less)
      with f(3) \<open>j div 8 = k\<close> show ?thesis by (simp add: taken_def)
    qed (use k(4) taken_full in blast)
    show "bitmap_scan b cnt =
        (if cnt = 1 then Inr (int ?s) else count_loop b cnt (bit_cnt b - ?s) (?s + 1) 1)" for cnt
      using k assms(1) by (simp add: bitmap_scan_def wf_bitmap_def Let_def bit_cnt_def mult.commute)
  qed
qed

lemma bitmap_scan_full:
  assumes "wf_bitmap b" "\<not> has_free b"
  shows "bitmap_scan b cnt = Inl Assert_failed \<or> bitmap_scan b cnt = Inl Bad_access"
proof -
  have "bits b ! m = 0xFF" if "m < btmp_byte_len b" for m
    unfolding byte_all_bits
  proof (intro allI impI)
    fix n :: nat assume "n < 8"
    then have "taken b (8 * m + n)" using that assms(2) by (auto simp: has_free_def bit_cnt_def)
    then show "bit (bits b ! m) n" using \<open>n < 8\<close> by (simp add: taken_def)
  qed
  then show ?thesis
    using skip_full_cases [OF assms(1), of 0] by (auto simp: bitmap_scan_def)
qed

text \<open>
  C32. A search for one bit returns the first free bit of the bitmap; when there is none the function
  never returns (the assertion fails), whatever the count, so the result \<open>-1\<close> that its comment
  promises for a full bitmap does not happen.
\<close>

theorem bitmap_scan_one:
  assumes "wf_bitmap b"
  shows "if has_free b
    then \<exists>s. bitmap_scan b 1 = Inr (int s) \<and> s < bit_cnt b \<and> \<not> taken b s \<and> (\<forall>j < s. taken b j)
    else \<forall>cnt r. bitmap_scan b cnt \<noteq> Inr r"
proof (cases "has_free b")
  case True
  from bitmap_scan_from_first [OF assms True] obtain s where "s < bit_cnt b" "\<not> taken b s"
      "\<And>j. j < s \<Longrightarrow> taken b j" "bitmap_scan b 1 = Inr (int s)"
    by metis
  then show ?thesis using True by auto
next
  case False
  then show ?thesis using bitmap_scan_full [OF assms False] by (metis Inl_Inr_False)
qed

lemma bitmap_scan_one_witness:
  "wf_bitmap \<lparr>btmp_byte_len = 2, bits = [0xFF, 0x0B]\<rparr> \<and>
   bitmap_scan \<lparr>btmp_byte_len = 2, bits = [0xFF, 0x0B]\<rparr> 1 = Inr 10"
proof -
  let ?b = "\<lparr>btmp_byte_len = 2, bits = [0xFF, 0x0B]\<rparr>"
  have wf: "wf_bitmap ?b" by (simp add: wf_bitmap_def)
  have ten: "\<not> taken ?b 10" "taken ?b 8" "taken ?b 9" by (simp_all add: taken_def)
  then have "has_free ?b" unfolding has_free_def bit_cnt_def by (intro exI [of _ 10]) simp
  with bitmap_scan_one [OF wf] obtain s where s: "bitmap_scan ?b 1 = Inr (int s)" "\<not> taken ?b s"
      "\<forall>j < s. taken ?b j" by auto
  have "taken ?b j" if "j < 8" for j
    using that byte_all_bits [of "0xFF"] by (simp add: taken_def)
  with s(2) have "8 \<le> s" "s \<noteq> 8" "s \<noteq> 9" using ten by (auto simp: not_less [symmetric])
  moreover have "s \<le> 10" using s(3) ten(1) by (meson not_less)
  ultimately have "s = 10" by linarith
  then show ?thesis using s(1) wf by simp
qed

text \<open>
  C25. A search for \<open>cnt \<ge> 2\<close> bits in a bitmap with a free bit returns the first run of \<open>cnt\<close> free
  bits and \<open>-1\<close> exactly when there is none, where the runs considered may use one bit more than the
  bitmap has (the loop runs once too often); the byte behind the bitmap is read for it.
\<close>

theorem bitmap_scan_many:
  assumes "wf_bitmap b" "has_free b" "2 \<le> cnt" "bit_cnt b < 8 * length (bits b)"
  shows "if \<exists>s. s + cnt \<le> bit_cnt b + 1 \<and> free_run b s cnt
    then \<exists>s. bitmap_scan b cnt = Inr (int s) \<and> s + cnt \<le> bit_cnt b + 1 \<and> free_run b s cnt \<and>
           (\<forall>s' < s. \<not> free_run b s' cnt)
    else bitmap_scan b cnt = Inr (- 1)"
proof -
  obtain s where s: "s < bit_cnt b" "\<not> taken b s" "\<And>j. j < s \<Longrightarrow> taken b j"
    and scan: "bitmap_scan b cnt = count_loop b cnt (bit_cnt b - s) (s + 1) 1"
    using bitmap_scan_from_first [OF assms(1,2)] assms(3)
    by (metis One_nat_def Suc_1 not_less_eq_eq order_refl)
  have "\<not> free_run b s' cnt" if "s' + cnt \<le> s + 1" for s'
  proof -
    have "s' < s" using that assms(3) by linarith
    then show ?thesis using s(3) assms(3) by (auto simp: free_run_def intro!: exI [of _ s'])
  qed
  moreover have "free_run b (s + 1 - 1) 1"
    using s(2) by (auto simp: free_run_def less_Suc_eq)
  moreover have "1 = s + 1 \<or> taken b (s + 1 - 1 - 1)"
    using s(3) [of "s - 1"] by (cases s) auto
  moreover have "s + 1 + (bit_cnt b - s) = bit_cnt b + 1" using s(1) by simp
  ultimately show ?thesis
    using count_loop_correct [of "s + 1" "bit_cnt b - s" b 1 cnt] assms(3,4) unfolding scan
    by auto
qed

text \<open>The extra bit: 7 and 8 are returned out of a bitmap of 8 bits.\<close>

lemma bitmap_scan_overrun:
  "bitmap_scan \<lparr>btmp_byte_len = 1, bits = [0x7F, 0]\<rparr> 2 = Inr 7"
  by code_simp

lemma bitmap_scan_many_witness:
  "\<exists>s. bitmap_scan \<lparr>btmp_byte_len = 1, bits = [0x7F, 0]\<rparr> 2 = Inr (int s) \<and> s + 2 \<le> 8 + 1"
proof -
  let ?b = "\<lparr>btmp_byte_len = 1, bits = [0x7F, 0 :: u8]\<rparr>"
  have "\<not> taken ?b 7" "\<not> taken ?b 8" by (simp_all add: taken_def)
  moreover have "i = 7 \<or> i = 8" if "7 \<le> i" "i < 7 + 2" for i :: nat using that by linarith
  ultimately have "free_run ?b 7 2" "has_free ?b"
    unfolding free_run_def has_free_def bit_cnt_def by (blast, intro exI [of _ 7], simp)
  then show ?thesis
    using bitmap_scan_many [of ?b 2] by (auto simp: wf_bitmap_def bit_cnt_def split: if_splits)
qed

end
