(* ===== verification/Paths.thy ===== *)
theory Paths
  imports C_String
begin

text \<open>
  Strings cut at a separator: the path routines of \<open>fs/fs.c\<close> (\<open>path_parse\<close>,
  \<open>path_depth_cnt\<close>), the normalisation of \<open>shell/builtin_cmd.c\<close> (\<open>wash_path\<close>,
  \<open>make_clear_abs_path\<close>) and the command line splitter of \<open>shell/shell.c\<close> (\<open>cmd_split\<close>). The
  specification is \<open>pieces\<close>: the maximal runs of a text without the separator.
\<close>

definition MAX_FILE_NAME_LEN :: nat where "MAX_FILE_NAME_LEN = 16"
definition MAX_PATH_LEN :: nat where "MAX_PATH_LEN = 512"
definition MAX_ARG_NR :: nat where "MAX_ARG_NR = 16"

abbreviation slash :: u8 where "slash \<equiv> 47"

section \<open>Cutting a path\<close>

text \<open>\<open>while (*(++pathname) == '/');\<close> on the bytes after the first slash.\<close>

fun skip_slashes :: "u8 list \<Rightarrow> u8 list res" where
  "skip_slashes [] = Inl Bad_access"
| "skip_slashes (c # p) = (if c = slash then skip_slashes p else Inr (c # p))"

text \<open>\<open>while (*pathname != '/' && *pathname != 0) *name_store++ = *pathname++;\<close>\<close>

fun copy_name :: "u8 list \<Rightarrow> u8 list \<Rightarrow> nat \<Rightarrow> (u8 list \<times> u8 list) res" where
  "copy_name [] name_store pos = Inl Bad_access"
| "copy_name (c # p) name_store pos =
     (if c \<noteq> slash \<and> c \<noteq> 0
      then bindE (write_at name_store pos c) (\<lambda>name_store. copy_name p name_store (Suc pos))
      else Inr (c # p, name_store))"

text \<open>The rest of the path (\<open>None\<close> for \<open>NULL\<close>) and the name buffer.\<close>

definition path_parse :: "u8 list \<Rightarrow> u8 list \<Rightarrow> (u8 list option \<times> u8 list) res" where
  "path_parse pathname name_store =
     bindE (read_at pathname 0) (\<lambda>c.
     bindE (if c = slash then skip_slashes (drop 1 pathname) else Inr pathname) (\<lambda>pathname.
     bindE (copy_name pathname name_store 0) (\<lambda>(pathname, name_store).
     bindE (read_at pathname 0) (\<lambda>c.
       Inr (if c = 0 then None else Some pathname, name_store)))))"

text \<open>What is left to parse, to bound the loops below.\<close>

definition left_over :: "u8 list option \<Rightarrow> nat" where
  "left_over p = (case p of None \<Rightarrow> 0 | Some p \<Rightarrow> Suc (length p))"

lemma skip_slashes_shorter: "skip_slashes p = Inr q \<Longrightarrow> length q \<le> length p"
  by (induction p) (auto split: if_splits)

lemma copy_name_shorter:
  "copy_name p n pos = Inr (q, n') \<Longrightarrow>
    length q < length p \<or> q = p \<and> (hd p = slash \<or> hd p = 0)"
  by (induction p n pos arbitrary: q n' rule: copy_name.induct)
    (fastforce simp: return_iff split: if_splits)+

lemma path_parse_shorter:
  "path_parse p n = Inr (q, n') \<Longrightarrow> left_over q < left_over (Some p)"
proof -
  assume parse: "path_parse p n = Inr (q, n')"
  from parse obtain c where c0: "read_at p 0 = Inr c" unfolding path_parse_def by blast
  from parse c0 obtain p1 where c1: "(if c = slash then skip_slashes (drop 1 p) else Inr p) = Inr p1"
    unfolding path_parse_def by (auto simp only: bindE_Inr elim!: bindE_InrE)
  from parse c0 c1 obtain p2 where c2: "copy_name p1 n 0 = Inr (p2, n')"
      "q = None \<or> q = Some p2" "p2 \<noteq> []" "q = Some p2 \<Longrightarrow> hd p2 \<noteq> 0"
    unfolding path_parse_def
    by (auto simp add: return_iff hd_conv_nth simp del: skip_slashes.simps split: if_splits)
  note c = c0 c1 c2
  show ?thesis
  proof (cases "c = slash")
    case True
    then have "length p1 < length p" using c(1,2) skip_slashes_shorter [of "drop 1 p" p1]
      by (cases p) auto
    then show ?thesis using c(4) copy_name_shorter [OF c(3)] by (auto simp: left_over_def)
  next
    case False
    then have "p1 = p" "hd p \<noteq> slash" using c(1,2) by (auto simp: return_iff hd_conv_nth)
    then have "q = Some p2 \<Longrightarrow> length p2 < length p"
      using copy_name_shorter [OF c(3)] c(6) by auto
    then show ?thesis using c(4) by (auto simp: left_over_def)
  qed
qed

text \<open>
  \<open>path_depth_cnt\<close> declares \<open>name\<close> without initialising it; its first content is the argument
  \<open>garbage\<close>.
\<close>

function depth_loop :: "u8 list option \<Rightarrow> u8 list \<Rightarrow> u32 \<Rightarrow> u32 res" where
  "depth_loop p name depth =
     bindE (read_at name 0) (\<lambda>c.
       if c = 0 then Inr depth
       else bindE (memset (Some name) 0 MAX_FILE_NAME_LEN) (\<lambda>name.
         case p of
           None \<Rightarrow> depth_loop None name (depth + 1)
         | Some q \<Rightarrow> bindE (path_parse q name) (\<lambda>(p, name). depth_loop p name (depth + 1))))"
  by pat_completeness auto

definition depth_measure :: "u8 list option \<Rightarrow> u8 list \<Rightarrow> nat" where
  "depth_measure p name = 2 * left_over p + (if name \<noteq> [] \<and> hd name \<noteq> 0 then 1 else 0)"

lemma depth_measure_None:
  assumes "name \<noteq> []" "hd name \<noteq> 0" "memset (Some name) 0 MAX_FILE_NAME_LEN = Inr name'"
  shows "depth_measure None name' < depth_measure None name"
  using assms by (auto simp: depth_measure_def MAX_FILE_NAME_LEN_def split: if_splits)

lemma depth_measure_Some:
  assumes "path_parse q name = Inr (p, name')"
  shows "depth_measure p name' < depth_measure (Some q) name0"
  using path_parse_shorter [OF assms] by (simp add: depth_measure_def)

termination depth_loop
proof (relation "measure (\<lambda>(p, name, depth). depth_measure p name)", goal_cases)
  case (2 p name depth c name')
  then have "name \<noteq> []" "hd name \<noteq> 0" by (auto simp: return_iff hd_conv_nth)
  then show ?case using 2 depth_measure_None [of name name'] by simp
next
  case (3 p name depth c name' q x p' name'')
  then show ?case using depth_measure_Some [of q name' p' name'' name] by simp
qed simp

definition path_depth_cnt :: "u8 list option \<Rightarrow> u8 list \<Rightarrow> u32 res" where
  "path_depth_cnt pathname garbage =
     asserting (pathname \<noteq> None)
     (bindE (path_parse (the pathname) garbage) (\<lambda>(p, name). depth_loop p name 0))"

section \<open>Normalising a path\<close>

text \<open>One round of the loop of \<open>wash_path\<close> on the path built so far.\<close>

definition wash_step :: "u8 list \<Rightarrow> u8 list \<Rightarrow> u8 list res" where
  "wash_step name new_abs_path =
     bindE (strcmp (Some (lit ''..'')) (Some name)) (\<lambda>r.
     if r = 0 then
       bindE (strrchr (Some new_abs_path) slash) (\<lambda>slash_ptr.
         case slash_ptr of
           None \<Rightarrow> Inl Bad_access
         | Some i \<Rightarrow> if i \<noteq> 0 then write_at new_abs_path i 0 else write_at new_abs_path (i + 1) 0)
     else bindE (strcmp (Some (lit ''.'')) (Some name)) (\<lambda>r.
       if r \<noteq> 0 then
         bindE (strcmp (Some new_abs_path) (Some (lit ''/''))) (\<lambda>r.
         bindE (if r \<noteq> 0 then strcat (Some new_abs_path) (Some (lit ''/'')) else Inr new_abs_path)
           (\<lambda>new_abs_path. strcat (Some new_abs_path) (Some name)))
       else Inr new_abs_path))"

function wash_loop :: "u8 list option \<Rightarrow> u8 list \<Rightarrow> u8 list \<Rightarrow> u8 list res" where
  "wash_loop sub_path name new_abs_path =
     bindE (read_at name 0) (\<lambda>c.
       if c = 0 then Inr new_abs_path
       else bindE (wash_step name new_abs_path) (\<lambda>new_abs_path.
         bindE (memset (Some name) 0 MAX_FILE_NAME_LEN) (\<lambda>name.
         case sub_path of
           None \<Rightarrow> wash_loop None name new_abs_path
         | Some q \<Rightarrow> bindE (path_parse q name) (\<lambda>(sub_path, name).
             wash_loop sub_path name new_abs_path))))"
  by pat_completeness auto
termination
proof (relation "measure (\<lambda>(p, name, depth). depth_measure p name)", goal_cases)
  case (2 p name depth c new name')
  then have "name \<noteq> []" "hd name \<noteq> 0" by (auto simp: return_iff hd_conv_nth)
  then show ?case using 2 depth_measure_None [of name name'] by simp
next
  case (3 p name depth c new name' q x p' name'')
  then show ?case using depth_measure_Some [of q name' p' name'' name] by simp
qed simp

declare wash_loop.simps [simp del] depth_loop.simps [simp del]

definition wash_path :: "u8 list \<Rightarrow> u8 list \<Rightarrow> u8 list res" where
  "wash_path old_abs_path new_abs_path =
     bindE (read_at old_abs_path 0) (\<lambda>c. asserting (c = slash)
     (bindE (path_parse old_abs_path (replicate MAX_FILE_NAME_LEN 0)) (\<lambda>(sub_path, name).
      bindE (read_at name 0) (\<lambda>c.
        if c = 0 then
          bindE (write_at new_abs_path 0 slash) (\<lambda>new_abs_path. write_at new_abs_path 1 0)
        else
          bindE (write_at new_abs_path 0 0) (\<lambda>new_abs_path.
          bindE (strcat (Some new_abs_path) (Some (lit ''/''))) (\<lambda>new_abs_path.
            wash_loop sub_path name new_abs_path))))))"

text \<open>\<open>getcwd\<close> is a system call; \<open>cwd\<close> is the buffer it fills, \<open>None\<close> when it fails.\<close>

definition make_clear_abs_path :: "u8 list option \<Rightarrow> u8 list \<Rightarrow> u8 list \<Rightarrow> u8 list res" where
  "make_clear_abs_path cwd path final_path =
     bindE (read_at path 0) (\<lambda>c.
     bindE (if c \<noteq> slash then
              (case cwd of
                 None \<Rightarrow> Inr (replicate MAX_PATH_LEN 0)
               | Some abs_path \<Rightarrow>
                   bindE (read_at abs_path 0) (\<lambda>a. bindE (read_at abs_path 1) (\<lambda>b.
                     if \<not> (a = slash \<and> b = 0)
                     then strcat (Some abs_path) (Some (lit ''/'')) else Inr abs_path)))
            else Inr (replicate MAX_PATH_LEN 0)) (\<lambda>abs_path.
     bindE (strcat (Some abs_path) (Some path)) (\<lambda>abs_path.
       wash_path abs_path final_path)))"


section \<open>Parsing computes the pieces\<close>

text \<open>The pointer into a path whose text still to parse is \<open>t\<close>; \<open>NULL\<close> at its end.\<close>

definition path_ptr :: "u8 list \<Rightarrow> u8 list \<Rightarrow> u8 list option" where
  "path_ptr t rest = (if t = [] then None else Some (t @ 0 # rest))"

text \<open>A name buffer holding \<open>nm\<close>.\<close>

definition name_buf :: "u8 list \<Rightarrow> u8 list" where
  "name_buf nm = nm @ replicate (MAX_FILE_NAME_LEN - length nm) 0"

lemma skip_slashes_eq:
  "0 \<notin> set t \<Longrightarrow> skip_slashes (t @ 0 # rest) = Inr (dropWhile (\<lambda>c. c = slash) t @ 0 # rest)"
  by (induction t) auto

lemma copy_name_eq:
  assumes "0 \<notin> set t" "pos + length (takeWhile (\<lambda>c. c \<noteq> slash) t) \<le> length buf"
  shows "copy_name (t @ 0 # rest) buf pos =
    Inr (dropWhile (\<lambda>c. c \<noteq> slash) t @ 0 # rest,
         take pos buf @ takeWhile (\<lambda>c. c \<noteq> slash) t @
           drop (pos + length (takeWhile (\<lambda>c. c \<noteq> slash) t)) buf)"
  using assms
proof (induction t arbitrary: pos buf)
  case (Cons c t)
  then show ?case by (auto simp: take_Suc_conv_app_nth upd_conv_take_nth_drop add.commute)
qed simp

lemma path_ptr_first:
  "0 \<notin> set v \<Longrightarrow> (if (v @ 0 # rest) ! 0 = 0 then None else Some (v @ 0 # rest)) = path_ptr v rest"
  by (cases v) (auto simp: path_ptr_def)

lemma path_parse_eq:
  fixes t rest buf :: "u8 list"
  defines "u \<equiv> dropWhile (\<lambda>c. c = slash) t"
  assumes "0 \<notin> set t" "length (takeWhile (\<lambda>c. c \<noteq> slash) u) \<le> length buf"
  shows "path_parse (t @ 0 # rest) buf =
    Inr (path_ptr (dropWhile (\<lambda>c. c \<noteq> slash) u) rest,
         takeWhile (\<lambda>c. c \<noteq> slash) u @ drop (length (takeWhile (\<lambda>c. c \<noteq> slash) u)) buf)"
proof -
  let ?v = "dropWhile (\<lambda>c. c \<noteq> slash) u"
  have nz: "0 \<notin> set u" "0 \<notin> set ?v" using assms(2) unfolding u_def by (meson set_dropWhileD)+
  have start: "(if (t @ 0 # rest) ! 0 = slash then skip_slashes (drop 1 (t @ 0 # rest))
      else Inr (t @ 0 # rest)) = Inr (u @ 0 # rest)"
    using assms(2) skip_slashes_eq [of "tl t" rest] by (cases t) (auto simp: u_def)
  note fin = path_ptr_first [OF nz(2), of rest]
  show ?thesis
    using start copy_name_eq [OF nz(1), of 0 buf rest] assms(3) fin
    by (simp add: path_parse_def)
qed

text \<open>The end of a round: fetch the next name into a cleared buffer.\<close>

definition next_name :: "u8 list option \<Rightarrow> (u8 list option \<times> u8 list) res" where
  "next_name p = (case p of None \<Rightarrow> Inr (None, replicate MAX_FILE_NAME_LEN 0)
     | Some q \<Rightarrow> path_parse q (replicate MAX_FILE_NAME_LEN 0))"

lemma next_name_pieces:
  assumes "0 \<notin> set t" "\<forall>c \<in> set (pieces slash t). length c < MAX_FILE_NAME_LEN"
  shows "pieces slash t = [] \<Longrightarrow> \<exists>p. next_name (path_ptr t rest) = Inr (p, name_buf [])"
    and "pieces slash t = nm # nms \<Longrightarrow> \<exists>t'. next_name (path_ptr t rest) = Inr (path_ptr t' rest, name_buf nm) \<and>
           0 \<notin> set t' \<and> pieces slash t' = nms"
proof -
  let ?u = "dropWhile (\<lambda>c. c = slash) t"
  have parse: "t = [] \<or> next_name (path_ptr t rest) =
      Inr (path_ptr (dropWhile (\<lambda>c. c \<noteq> slash) ?u) rest, name_buf (takeWhile (\<lambda>c. c \<noteq> slash) ?u))"
    if "length (takeWhile (\<lambda>c. c \<noteq> slash) ?u) \<le> MAX_FILE_NAME_LEN"
    using path_parse_eq [OF assms(1), of "replicate MAX_FILE_NAME_LEN 0" rest] that
    by (auto simp: next_name_def path_ptr_def name_buf_def)
  {
    assume "pieces slash t = []"
    then have u: "?u = []" using pieces_unfold(2) [where xs = t and sep = slash] by auto
    then show "\<exists>p. next_name (path_ptr t rest) = Inr (p, name_buf [])"
      using parse unfolding u
      by (cases "t = []") (auto simp: next_name_def path_ptr_def name_buf_def)
  next
    assume p: "pieces slash t = nm # nms"
    then have "?u \<noteq> []" using pieces_unfold(1) [where xs = t and sep = slash] by auto
    from pieces_unfold(2) [OF this] p
    have nm: "nm = takeWhile (\<lambda>c. c \<noteq> slash) ?u"
        "nms = pieces slash (dropWhile (\<lambda>c. c \<noteq> slash) ?u)" by simp_all
    moreover have "length nm < MAX_FILE_NAME_LEN" using assms(2) p by simp
    moreover have "t \<noteq> []" using p by (auto simp: pieces.simps)
    moreover have "0 \<notin> set (dropWhile (\<lambda>c. c \<noteq> slash) ?u)"
      using assms(1) by (meson set_dropWhileD)
    ultimately show "\<exists>t'. next_name (path_ptr t rest) = Inr (path_ptr t' rest, name_buf nm) \<and>
           0 \<notin> set t' \<and> pieces slash t' = nms"
      using parse by auto
  }
qed

section \<open>The path a list of names stands for\<close>

definition joined :: "u8 list list \<Rightarrow> u8 list" where
  "joined names = concat (map (\<lambda>nm. slash # nm) names)"

definition abs_path_text :: "u8 list list \<Rightarrow> u8 list" where
  "abs_path_text names = (if names = [] then [slash] else joined names)"

text \<open>\<open>..\<close> goes to the parent, which is the root itself for the root; \<open>.\<close> stays.\<close>

definition enter :: "u8 list list \<Rightarrow> u8 list \<Rightarrow> u8 list list" where
  "enter names nm =
     (if nm = map of_char ''..'' then butlast names
      else if nm = map of_char ''.'' then names else names @ [nm])"

definition resolve :: "u8 list list \<Rightarrow> u8 list list" where
  "resolve nms = foldl enter [] nms"

text \<open>A legal name: not empty, without separator or NUL, and with room for its terminator.\<close>

definition file_name :: "u8 list \<Rightarrow> bool" where
  "file_name nm \<longleftrightarrow> nm \<noteq> [] \<and> slash \<notin> set nm \<and> 0 \<notin> set nm \<and> length nm < MAX_FILE_NAME_LEN"

definition holds_path :: "u8 list \<Rightarrow> u8 list list \<Rightarrow> bool" where
  "holds_path buf names \<longleftrightarrow>
     terminated buf \<and> text_of buf = abs_path_text names \<and> (\<forall>nm \<in> set names. file_name nm)"

lemma lit_simps [simp]:
  "text_of (lit ''..'') = [46, 46]" "text_of (lit ''.'') = [46]" "text_of (lit ''/'') = [slash]"
  "terminated (lit s)"
  by (auto simp: lit_def)

lemma name_buf_text:
  assumes "file_name nm" shows "terminated (name_buf nm)" "text_of (name_buf nm) = nm"
proof -
  have "replicate (MAX_FILE_NAME_LEN - length nm) (0 :: u8) =
      0 # replicate (MAX_FILE_NAME_LEN - length nm - 1) 0"
    using assms by (cases "MAX_FILE_NAME_LEN - length nm") (auto simp: file_name_def)
  then show "terminated (name_buf nm)" "text_of (name_buf nm) = nm"
    using assms by (simp_all add: name_buf_def file_name_def)
qed

lemma joined_snoc: "joined (names @ [nm]) = joined names @ slash # nm"
  by (simp add: joined_def)

lemma joined_no_zero: "\<forall>nm \<in> set names. file_name nm \<Longrightarrow> 0 \<notin> set (joined names)"
  by (induction names) (auto simp: joined_def file_name_def)

lemma last_index_append:
  "last_index x (xs @ ys) =
     (case last_index x ys of Some i \<Rightarrow> Some (length xs + i) | None \<Rightarrow> last_index x xs)"
  by (induction xs) (auto split: option.splits)

lemma last_slash:
  assumes "file_name nm" shows "last_index slash (joined (names @ [nm])) = Some (length (joined names))"
  using assms by (auto simp: joined_snoc last_index_append last_index_None file_name_def
      split: option.splits)

lemma text_of_cut:
  assumes "terminated buf" "i \<le> length (text_of buf)"
  shows "i < length buf" "text_of (buf[i := 0]) = take i (text_of buf)" "terminated (buf[i := 0])"
proof -
  obtain rest where buf: "buf = text_of buf @ 0 # rest" using terminated_split [OF assms(1)] by blast
  then have "length buf = length (text_of buf) + 1 + length rest"
    by (metis Suc_eq_plus1 ab_semigroup_add_class.add_ac(1) add.commute length_Cons length_append)
  then show i: "i < length buf" using assms(2) by linarith
  then have eq: "buf[i := 0] = take i buf @ 0 # drop (Suc i) buf" by (simp add: upd_conv_take_nth_drop)
  have "take i buf = take i (text_of buf)" using assms(2) by (subst buf) simp
  moreover have "0 \<notin> set (take i (text_of buf))" by (meson in_set_takeD text_of_no_zero)
  ultimately show "text_of (buf[i := 0]) = take i (text_of buf)" "terminated (buf[i := 0])"
    unfolding eq by simp_all
qed

lemma strcat_room:
  assumes "terminated dst" "terminated src" "length (text_of dst) + length (text_of src) < length dst"
  shows "\<exists>dst'. strcat (Some dst) (Some src) = Inr dst' \<and> terminated dst' \<and>
    text_of dst' = text_of dst @ text_of src \<and> length dst' = length dst"
proof -
  have "text_of ((text_of dst @ text_of src) @ 0 # rest) = text_of dst @ text_of src" for rest
    by (rule text_of_id) simp
  then show ?thesis using strcat_eq [OF assms(1,2)] assms(3) by simp
qed

text \<open>One round of the loop enters the name.\<close>

lemma wash_step_enter:
  assumes buf: "holds_path buf names" and nm: "file_name nm"
    and room: "length (joined names) + length nm + 1 < length buf"
  shows "\<exists>buf'. wash_step (name_buf nm) buf = Inr buf' \<and> holds_path buf' (enter names nm) \<and>
    length buf' = length buf \<and> length (joined (enter names nm)) \<le> length (joined names) + length nm + 1"
proof -
  have tb: "terminated buf" "text_of buf = abs_path_text names" "\<forall>nm \<in> set names. file_name nm"
    using buf by (auto simp: holds_path_def)
  note nb = name_buf_text [OF nm]
  have dotdot: "strcmp (Some (lit ''..'')) (Some (name_buf nm)) = Inr 0 \<longleftrightarrow> nm = [46, 46]"
    using strcmp_zero [of "lit ''..''" "name_buf nm"] nb by auto
  have dot: "strcmp (Some (lit ''.'')) (Some (name_buf nm)) = Inr 0 \<longleftrightarrow> nm = [46]"
    using strcmp_zero [of "lit ''.''" "name_buf nm"] nb by auto
  have root: "strcmp (Some buf) (Some (lit ''/'')) = Inr 0 \<longleftrightarrow> names = []"
    using strcmp_zero [of buf "lit ''/''"] tb
    by (cases names) (auto simp: abs_path_text_def joined_def file_name_def)
  consider (up) "nm = [46, 46]" | (here) "nm = [46]" | (down) "nm \<noteq> [46, 46]" "nm \<noteq> [46]" by blast
  then show ?thesis
  proof cases
    case up
    show ?thesis
    proof (cases names rule: rev_cases)
      case Nil
      then have t: "text_of buf = [slash]" using tb by (simp add: abs_path_text_def)
      then have "strrchr (Some buf) slash = Inr (Some 0)" using tb by (simp add: strrchr_ascii)
      then show ?thesis
        using up Nil text_of_cut [OF tb(1), of 1] t dotdot
        by (auto simp: wash_step_def enter_def holds_path_def abs_path_text_def)
    next
      case (snoc ys y)
      then have t: "text_of buf = joined ys @ slash # y" "file_name y" "\<forall>nm \<in> set ys. file_name nm"
        using tb by (auto simp: abs_path_text_def joined_snoc)
      then have idx: "strrchr (Some buf) slash = Inr (Some (length (joined ys)))"
        using tb last_slash [OF t(2), of ys] by (simp add: strrchr_ascii joined_snoc)
      have short: "length (joined ys) \<le> length (joined names)" using snoc by (simp add: joined_snoc)
      show ?thesis
      proof (cases "ys = []")
        case True
        then show ?thesis
          using up snoc idx t text_of_cut [OF tb(1), of 1] dotdot short
          by (auto simp: wash_step_def enter_def holds_path_def abs_path_text_def joined_def)
      next
        case False
        then have "joined ys \<noteq> []" by (cases ys) (auto simp: joined_def)
        then show ?thesis
          using up snoc idx t text_of_cut [OF tb(1), of "length (joined ys)"] dotdot short False
          by (auto simp: wash_step_def enter_def holds_path_def abs_path_text_def)
      qed
    qed
  next
    case here
    then obtain r where "strcmp (Some (lit ''..'')) (Some (name_buf nm)) = Inr r" "r \<noteq> 0"
      using dotdot strcmp_total [of "lit ''..''" "name_buf nm"] nb by fastforce
    then show ?thesis
      using here dot buf by (auto simp: wash_step_def enter_def)
  next
    case down
    obtain r1 where r1: "strcmp (Some (lit ''..'')) (Some (name_buf nm)) = Inr r1" "r1 \<noteq> 0"
      using down dotdot strcmp_total [of "lit ''..''" "name_buf nm"] nb by fastforce
    obtain r2 where r2: "strcmp (Some (lit ''.'')) (Some (name_buf nm)) = Inr r2" "r2 \<noteq> 0"
      using down dot strcmp_total [of "lit ''.''" "name_buf nm"] nb by fastforce
    obtain r3 where r3: "strcmp (Some buf) (Some (lit ''/'')) = Inr r3"
      using strcmp_total [of buf "lit ''/''"] tb by auto
    have "\<exists>mid. (if r3 \<noteq> 0 then strcat (Some buf) (Some (lit ''/'')) else Inr buf) = Inr mid \<and>
        terminated mid \<and> text_of mid = joined names @ [slash] \<and> length mid = length buf"
    proof (cases "names = []")
      case True
      then show ?thesis using root r3 tb by (auto simp: abs_path_text_def joined_def)
    next
      case False
      then have "r3 \<noteq> 0" using root r3 by auto
      then show ?thesis
        using strcat_room [OF tb(1), of "lit ''/''"] tb False room by (auto simp: abs_path_text_def)
    qed
    then obtain mid where mid: "(if r3 \<noteq> 0 then strcat (Some buf) (Some (lit ''/'')) else Inr buf) = Inr mid"
        "terminated mid" "text_of mid = joined names @ [slash]" "length mid = length buf" by blast
    obtain buf' where buf': "strcat (Some mid) (Some (name_buf nm)) = Inr buf'" "terminated buf'"
        "text_of buf' = joined (names @ [nm])" "length buf' = length buf"
      using strcat_room [OF mid(2) nb(1)] mid nb(2) room by (auto simp: joined_snoc)
    have "enter names nm = names @ [nm]" using down by (simp add: enter_def)
    then show ?thesis
      using r1 r2 r3 mid(1) buf' nm tb(3)
      by (auto simp: wash_step_def holds_path_def abs_path_text_def joined_snoc)
  qed
qed


lemma length_name_buf: "file_name nm \<Longrightarrow> length (name_buf nm) = MAX_FILE_NAME_LEN"
  by (simp add: name_buf_def file_name_def)

lemma name_buf_first: "file_name nm \<Longrightarrow> read_at (name_buf nm) 0 = Inr (hd nm) \<and> hd nm \<noteq> 0"
  by (cases nm) (auto simp: name_buf_def file_name_def)

lemma name_buf_Nil: "read_at (name_buf []) 0 = Inr 0"
  by (simp add: name_buf_def MAX_FILE_NAME_LEN_def)

lemma clear_then_parse:
  assumes "length name = MAX_FILE_NAME_LEN"
  shows "bindE (memset (Some name) 0 MAX_FILE_NAME_LEN) (\<lambda>name.
      case p of None \<Rightarrow> f None name | Some q \<Rightarrow> bindE (path_parse q name) (\<lambda>(p, name). f p name)) =
    bindE (next_name p) (\<lambda>(p, name). f p name)"
  using assms by (simp add: next_name_def split: option.split)

lemma wash_loop_round:
  assumes "file_name nm"
  shows "wash_loop p (name_buf nm) buf =
    bindE (wash_step (name_buf nm) buf) (\<lambda>buf. bindE (next_name p) (\<lambda>(p, name). wash_loop p name buf))"
  using clear_then_parse [OF length_name_buf [OF assms], where p = p and f = "\<lambda>p name. wash_loop p name _"]
    name_buf_first [OF assms]
  by (subst wash_loop.simps) simp

lemma wash_loop_stop: "wash_loop p (name_buf []) buf = Inr buf"
  by (subst wash_loop.simps) (simp add: name_buf_Nil)

text \<open>A text whose names all fit in a name buffer.\<close>

definition path_text :: "u8 list \<Rightarrow> bool" where
  "path_text t \<longleftrightarrow> 0 \<notin> set t \<and> (\<forall>c \<in> set (pieces slash t). length c < MAX_FILE_NAME_LEN)"

lemma path_text_names: "path_text t \<Longrightarrow> nm \<in> set (pieces slash t) \<Longrightarrow> file_name nm"
  using pieces_elem [of nm slash t] by (auto simp: path_text_def file_name_def)

lemma next_name_step:
  assumes "path_text t"
  shows "(\<exists>p. pieces slash t = [] \<and> next_name (path_ptr t rest) = Inr (p, name_buf [])) \<or>
    (\<exists>t' nm. pieces slash t = nm # pieces slash t' \<and> file_name nm \<and> path_text t' \<and>
       next_name (path_ptr t rest) = Inr (path_ptr t' rest, name_buf nm))"
proof (cases "pieces slash t")
  case Nil
  then show ?thesis using next_name_pieces(1) [of t rest] assms by (auto simp: path_text_def)
next
  case (Cons nm nms)
  then obtain t' where "next_name (path_ptr t rest) = Inr (path_ptr t' rest, name_buf nm)"
      "0 \<notin> set t'" "pieces slash t' = nms"
    using next_name_pieces(2) [of t nm nms rest] assms by (auto simp: path_text_def)
  then show ?thesis using Cons path_text_names [OF assms, of nm] assms by (auto simp: path_text_def)
qed

lemma wash_loop_resolves:
  assumes "path_text t" "file_name nm" "holds_path buf names"
    and "length (joined names) + length (joined (nm # pieces slash t)) < length buf"
  shows "\<exists>buf'. wash_loop (path_ptr t rest) (name_buf nm) buf = Inr buf' \<and> length buf' = length buf \<and>
    holds_path buf' (foldl enter names (nm # pieces slash t))"
  using assms
proof (induction "pieces slash t" arbitrary: t nm buf names)
  case Nil
  obtain buf' where "wash_step (name_buf nm) buf = Inr buf'" "holds_path buf' (enter names nm)"
      "length buf' = length buf"
    using wash_step_enter [OF Nil(4,3)] Nil(5) by (auto simp: joined_def)
  moreover obtain p where "next_name (path_ptr t rest) = Inr (p, name_buf [])"
    using next_name_step [OF Nil(2), of rest] Nil(1) by auto
  ultimately show ?case
    using Nil(1)[symmetric] wash_loop_round [OF Nil(3)] by (simp add: wash_loop_stop)
next
  case (Cons nm1 nms)
  have room: "length (joined names) + length nm + 1 < length buf"
    using Cons(6) by (simp add: joined_def)
  obtain buf' where buf': "wash_step (name_buf nm) buf = Inr buf'" "holds_path buf' (enter names nm)"
      "length buf' = length buf" "length (joined (enter names nm)) \<le> length (joined names) + length nm + 1"
    using wash_step_enter [OF Cons(5,4) room] by auto
  obtain t' where t': "pieces slash t = nm1 # pieces slash t'" "file_name nm1" "path_text t'"
      "next_name (path_ptr t rest) = Inr (path_ptr t' rest, name_buf nm1)"
    using next_name_step [OF Cons(3), of rest] Cons(2) by auto
  have "length (joined (enter names nm)) + length (joined (nm1 # pieces slash t')) < length buf'"
    using buf'(3,4) Cons(6) t'(1) by (simp add: joined_def)
  from Cons(1) [OF _ t'(3,2) buf'(2) this] Cons(2) t'(1)
  obtain buf'' where "wash_loop (path_ptr t' rest) (name_buf nm1) buf' = Inr buf''"
      "length buf'' = length buf'" "holds_path buf'' (foldl enter (enter names nm) (nm1 # pieces slash t'))"
    by auto
  then show ?case
    using wash_loop_round [OF Cons(4)] buf'(1,3) t'(1,4) by simp
qed

text \<open>
  C18. Washing a path: for an absolute path whose names fit a name buffer, \<open>wash_path\<close> stores the
  path of the names of the argument with \<open>.\<close> and \<open>..\<close> resolved, \<open>..\<close> never leaving the root; the
  result has no empty name and no \<open>.\<close> or \<open>..\<close> left.
\<close>

theorem wash_path_resolves:
  assumes "path_text t" "t \<noteq> []" "hd t = slash"
    and "length (joined (pieces slash t)) + 1 < length new_abs_path"
  shows "\<exists>buf. wash_path (t @ 0 # rest) new_abs_path = Inr buf \<and>
    text_of buf = abs_path_text (resolve (pieces slash t)) \<and>
    (\<forall>nm \<in> set (resolve (pieces slash t)).
       nm \<in> set (pieces slash t) \<and> nm \<noteq> map of_char ''.'' \<and> nm \<noteq> map of_char ''..'')"
proof -
  have names: "set (foldl enter names nms) \<subseteq> set names \<union> (set nms - {[46], [46, 46]})" for names nms
  proof (induction nms arbitrary: names)
    case (Cons nm nms)
    have "set (enter names nm) \<subseteq> set names \<union> ({nm} - {[46], [46, 46]})"
      by (auto simp: enter_def dest: in_set_butlastD)
    then show ?case using Cons.IH [of "enter names nm"] by auto
  qed simp
  obtain t0 where t0: "t = slash # t0" using assms(2,3) by (cases t) auto
  have first: "path_parse (t @ 0 # rest) (replicate MAX_FILE_NAME_LEN 0) = next_name (path_ptr t rest)"
    using assms(2) by (simp add: next_name_def path_ptr_def)
  have two: "1 < length new_abs_path" using assms(4) by linarith
  then obtain a b bs where new: "new_abs_path = a # b # bs"
    by (cases new_abs_path; cases "tl new_abs_path") auto
  consider (root) p where "pieces slash t = []" "next_name (path_ptr t rest) = Inr (p, name_buf [])"
    | (more) t' nm where "pieces slash t = nm # pieces slash t'" "file_name nm" "path_text t'"
        "next_name (path_ptr t rest) = Inr (path_ptr t' rest, name_buf nm)"
    using next_name_step [OF assms(1), of rest] by blast
  then show ?thesis
  proof cases
    case root
    then show ?thesis
      using first t0 new name_buf_Nil by (simp add: wash_path_def resolve_def abs_path_text_def)
  next
    case more
    have s1: "strcat (Some (0 # b # bs)) (Some (lit ''/'')) = Inr (slash # 0 # bs)"
      by (simp add: strcat_def lit_def)
    have h: "holds_path (slash # 0 # bs) []" by (simp add: holds_path_def abs_path_text_def)
    have "length (joined []) + length (joined (nm # pieces slash t')) < length (slash # 0 # bs)"
      using assms(4) more(1) new by (simp add: joined_def)
    from wash_loop_resolves [OF more(3,2) h this]
    obtain buf where "wash_loop (path_ptr t' rest) (name_buf nm) (slash # 0 # bs) = Inr buf"
        "holds_path buf (resolve (pieces slash t))"
      using more(1) by (auto simp: resolve_def)
    then show ?thesis
      using first t0 new more s1 name_buf_first [OF more(2)] names [of "[]" "pieces slash t"]
      by (auto simp: wash_path_def holds_path_def resolve_def)
  qed
qed

lemma wash_path_resolves_witness:
  "\<exists>buf. wash_path (map of_char ''/a/./b//../../../c'' @ 0 # [7]) (replicate 32 1) = Inr buf \<and>
     text_of buf = map of_char ''/c''"
proof -
  let ?t = "map of_char ''/a/./b//../../../c'' :: u8 list"
  have p: "pieces slash ?t = map (map of_char) [''a'', ''.'', ''b'', ''..'', ''..'', ''..'', ''c'']"
    by (simp add: pieces_unfold)
  have r: "resolve (pieces slash ?t) = [map of_char ''c'']"
    unfolding p by (simp add: resolve_def enter_def)
  have "path_text ?t" "length (joined (pieces slash ?t)) + 1 < length (replicate 32 (1 :: u8))"
    unfolding path_text_def p by (simp_all add: MAX_FILE_NAME_LEN_def joined_def)
  from wash_path_resolves [OF this(1) _ _ this(2), of "[7]"] show ?thesis
    unfolding r by (auto simp: abs_path_text_def joined_def)
qed

section \<open>Counting the names of a path\<close>

lemma depth_loop_round:
  assumes "file_name nm"
  shows "depth_loop p (name_buf nm) d =
    bindE (next_name p) (\<lambda>(p, name). depth_loop p name (d + 1))"
  using clear_then_parse [OF length_name_buf [OF assms], where p = p and f = "\<lambda>p name. depth_loop p name (d + 1)"]
    name_buf_first [OF assms]
  by (subst depth_loop.simps) simp

lemma depth_loop_counts:
  assumes "path_text t" "file_name nm"
  shows "depth_loop (path_ptr t rest) (name_buf nm) d = Inr (d + 1 + of_nat (length (pieces slash t)))"
  using assms
proof (induction "pieces slash t" arbitrary: t nm d)
  case Nil
  then obtain p where "next_name (path_ptr t rest) = Inr (p, name_buf [])"
    using next_name_step [OF Nil(2), of rest] by auto
  then show ?case
    using Nil(1)[symmetric] depth_loop_round [OF Nil(3)]
    by (simp add: depth_loop.simps name_buf_Nil)
next
  case (Cons nm1 nms)
  obtain t' where t': "pieces slash t = nm1 # pieces slash t'" "file_name nm1" "path_text t'"
      "next_name (path_ptr t rest) = Inr (path_ptr t' rest, name_buf nm1)"
    using next_name_step [OF Cons(3), of rest] Cons(2) by auto
  then show ?case
    using Cons(1) [OF _ t'(3,2), of "d + 1"] Cons(2) depth_loop_round [OF Cons(4)] by simp
qed

lemma path_depth_cnt_counts:
  assumes "path_text t" "pieces slash t \<noteq> []"
  shows "path_depth_cnt (Some (t @ 0 # rest)) (replicate MAX_FILE_NAME_LEN 0) =
    Inr (of_nat (length (pieces slash t)))"
proof -
  have "t \<noteq> []" using assms(2) by (auto simp: pieces.simps)
  then have first: "path_parse (t @ 0 # rest) (replicate MAX_FILE_NAME_LEN 0) = next_name (path_ptr t rest)"
    by (simp add: next_name_def path_ptr_def)
  obtain t' nm where t': "pieces slash t = nm # pieces slash t'" "file_name nm" "path_text t'"
      "next_name (path_ptr t rest) = Inr (path_ptr t' rest, name_buf nm)"
    using next_name_step [OF assms(1), of rest] assms(2) by auto
  show ?thesis
    using first t'(1,4) depth_loop_counts [OF t'(3,2), of rest 0]
    by (simp add: path_depth_cnt_def)
qed

text \<open>
  With an uninitialised name buffer the depth of the root directory is whatever the stack held: 0
  or 1.
\<close>

lemma path_depth_cnt_root:
  "path_depth_cnt (Some (lit ''/'')) (replicate 16 0) = Inr 0"
  "path_depth_cnt (Some (lit ''/'')) (replicate 16 1) = Inr 1"
  by code_simp+

section \<open>Splitting a command line\<close>

text \<open>\<open>while (*next == token) next++;\<close>\<close>

function skip_token :: "u8 list \<Rightarrow> nat \<Rightarrow> u8 \<Rightarrow> nat res" where
  "skip_token buf i token =
     bindE (read_at buf i) (\<lambda>c. if c = token then skip_token buf (Suc i) token else Inr i)"
  by pat_completeness auto
termination
  by (relation "measure (\<lambda>(buf, i, token). length buf - i)") (auto simp: return_iff)

text \<open>\<open>while (*next && *next != token) next++;\<close>\<close>

function skip_word :: "u8 list \<Rightarrow> nat \<Rightarrow> u8 \<Rightarrow> nat res" where
  "skip_word buf i token =
     bindE (read_at buf i) (\<lambda>c.
       if c \<noteq> 0 \<and> c \<noteq> token then skip_word buf (Suc i) token else Inr i)"
  by pat_completeness auto
termination
  by (relation "measure (\<lambda>(buf, i, token). length buf - i)") (auto simp: return_iff)

declare skip_token.simps [simp del] skip_word.simps [simp del]

lemma skip_token_range:
  "skip_token buf i token = Inr j \<Longrightarrow> i \<le> j \<and> j < length buf \<and> buf ! j \<noteq> token"
proof (induction buf i token rule: skip_token.induct)
  case (1 buf i token)
  then show ?case
    by (subst (asm) (2) skip_token.simps) (fastforce simp: return_iff split: if_splits)
qed

lemma skip_word_range: "skip_word buf i token = Inr j \<Longrightarrow> i \<le> j \<and> j < length buf"
proof (induction buf i token rule: skip_word.induct)
  case (1 buf i token)
  then show ?case
    by (subst (asm) (2) skip_word.simps) (fastforce simp: return_iff split: if_splits)
qed

lemma skip_word_moves:
  "skip_word buf i token = Inr j \<Longrightarrow> buf ! i \<noteq> 0 \<Longrightarrow> buf ! i \<noteq> token \<Longrightarrow> i < j"
  by (subst (asm) skip_word.simps)
    (auto simp: return_iff dest: skip_word_range split: if_splits)

text \<open>
  The arguments are offsets into the command line, \<open>None\<close> for \<open>NULL\<close>. The result is the count (or
  \<open>-1\<close>), the line with the separators cut out, and the argument vector.
\<close>

function split_loop :: "u8 list \<Rightarrow> nat option list \<Rightarrow> nat \<Rightarrow> nat \<Rightarrow> u8 \<Rightarrow>
    (int \<times> u8 list \<times> nat option list) res" where
  "split_loop buf argv i argc token =
     bindE (read_at buf i) (\<lambda>c.
       if c = 0 then Inr (int argc, buf, argv)
       else bindE (skip_token buf i token) (\<lambda>j. bindE (read_at buf j) (\<lambda>c.
         if c = 0 then Inr (int argc, buf, argv)
         else bindE (write_at argv argc (Some j)) (\<lambda>argv.
           bindE (skip_word buf j token) (\<lambda>k. bindE (read_at buf k) (\<lambda>c.
           bindE (if c \<noteq> 0 then bindE (write_at buf k 0) (\<lambda>buf. Inr (buf, Suc k)) else Inr (buf, k))
             (\<lambda>(buf, k).
               if argc > MAX_ARG_NR then Inr (- 1, buf, argv)
               else split_loop buf argv k (Suc argc) token)))))))"
  by pat_completeness auto
termination
proof (relation "measure (\<lambda>(buf, argv, i, argc, token). length buf - i)", goal_cases)
  case (2 buf argv i argc token c j c' argv' k c'' x buf' k')
  have "i < length buf" using 2(1) by (simp add: return_iff)
  moreover have "i \<le> j" "j < length buf" "buf ! j \<noteq> token"
    using skip_token_range [OF 2(3)] by auto
  moreover have "buf ! j \<noteq> 0" using 2(4,5) by (simp add: return_iff)
  moreover have "j < k" "k < length buf"
    using skip_word_moves [OF 2(7)] skip_word_range [OF 2(7)] calculation by auto
  moreover have "length buf' = length buf" "k \<le> k'"
    using 2(9,10) by (auto simp: return_iff split: if_splits)
  ultimately show ?case by simp
qed simp

declare split_loop.simps [simp del]

definition cmd_split :: "u8 list option \<Rightarrow> u8 \<Rightarrow> (int \<times> u8 list \<times> nat option list) res" where
  "cmd_split cmd_str token =
     asserting (cmd_str \<noteq> None) (split_loop (the cmd_str) (replicate MAX_ARG_NR None) 0 0 token)"

lemma skip_token_eq:
  "c \<noteq> token \<Longrightarrow> skip_token (pre @ xs @ c # rest) (length pre) token =
     Inr (length pre + length (takeWhile (\<lambda>x. x = token) xs))"
proof (induction xs arbitrary: pre)
  case (Cons x xs)
  then show ?case using Cons.IH [of "pre @ [x]"]
    by (subst skip_token.simps) (auto simp: nth_append)
qed (subst skip_token.simps, simp add: nth_append)

lemma skip_word_eq:
  "0 \<notin> set xs \<Longrightarrow> skip_word (pre @ xs @ 0 # rest) (length pre) token =
     Inr (length pre + length (takeWhile (\<lambda>x. x \<noteq> token) xs))"
proof (induction xs arbitrary: pre)
  case (Cons x xs)
  then show ?case using Cons.IH [of "pre @ [x]"]
    by (subst skip_word.simps) (auto simp: nth_append)
qed (subst skip_word.simps, simp add: nth_append)

lemma pieces_skip: "pieces sep (sep # xs) = pieces sep xs"
  by (subst (1 2) pieces.simps) simp

text \<open>The words of the line from position \<open>length pre\<close> on become the arguments from \<open>argc\<close> on.\<close>

definition args_of :: "u8 list \<Rightarrow> nat \<Rightarrow> nat option list \<Rightarrow> nat \<Rightarrow> u8 list list \<Rightarrow> bool" where
  "args_of buf start argv argc ws \<longleftrightarrow>
     (\<forall>k < length ws. \<exists>off. argv ! (argc + k) = Some off \<and> start \<le> off \<and> off < length buf \<and>
        text_of (drop off buf) = ws ! k)"

lemma split_loop_end:
  "split_loop (pre @ 0 # rest) argv (length pre) argc token = Inr (int argc, pre @ 0 # rest, argv)"
  by (subst split_loop.simps) (simp add: nth_append)

text \<open>One round that finds a word \<open>w\<close>: it is cut out of the line and becomes the next argument.\<close>

lemma split_loop_word:
  assumes "\<forall>c \<in> set sk. c = token" "w \<noteq> []" "0 \<notin> set w" "token \<notin> set w" "token \<noteq> 0"
    and "length argv = MAX_ARG_NR" "argc \<le> MAX_ARG_NR" "0 \<notin> set z"
  shows "split_loop (pre @ (sk @ w @ token # z) @ 0 # rest) argv (length pre) argc token =
      (if argc < MAX_ARG_NR
       then split_loop ((pre @ sk @ w @ [0]) @ z @ 0 # rest) (argv[argc := Some (length pre + length sk)])
              (length (pre @ sk @ w @ [0])) (Suc argc) token
       else Inl Bad_access)"
    and "split_loop (pre @ (sk @ w) @ 0 # rest) argv (length pre) argc token =
      (if argc < MAX_ARG_NR
       then split_loop ((pre @ sk @ w) @ 0 # rest) (argv[argc := Some (length pre + length sk)])
              (length (pre @ sk @ w)) (Suc argc) token
       else Inl Bad_access)"
proof -
  obtain x w' where w: "w = x # w'" "x \<noteq> token" "x \<noteq> 0" using assms(2-4) by (cases w) auto
  have sk: "takeWhile (\<lambda>x. x = token) sk = sk" using assms(1) by (simp add: takeWhile_eq_all_conv)
  have wtok: "takeWhile (\<lambda>x. x \<noteq> token) w = w" using assms(4) by (auto simp: takeWhile_eq_all_conv)
  have wtok2: "takeWhile (\<lambda>x. x \<noteq> token) (w @ token # z) = w"
    using assms(4) by (auto simp: takeWhile_tail)
  have skip: "skip_token (pre @ sk @ w @ tail) (length pre) token = Inr (length pre + length sk)" for tail
    using skip_token_eq [OF w(2), of pre sk "w' @ tail"] sk w(1) by simp
  have word1: "skip_word ((pre @ sk) @ (w @ token # z) @ 0 # rest) (length (pre @ sk)) token =
      Inr (length (pre @ sk) + length w)"
    using skip_word_eq [of "w @ token # z" "pre @ sk" rest token] assms(3,5,8) wtok2 by simp
  have word2: "skip_word ((pre @ sk) @ w @ 0 # rest) (length (pre @ sk)) token =
      Inr (length (pre @ sk) + length w)"
    using skip_word_eq [of w "pre @ sk" rest token] assms(3) wtok by simp
  have first: "(pre @ sk @ w @ tail) ! length pre \<noteq> 0" "(pre @ sk @ w @ tail) ! (length pre + length sk) \<noteq> 0" for tail
    using w assms(1,5) by (cases sk; simp add: nth_append)+
  have upd: "(pre @ sk @ w @ token # z @ 0 # rest)[length pre + length sk + length w := 0] =
      pre @ sk @ w @ 0 # z @ 0 # rest"
    by (simp add: list_update_append)
  have at: "(pre @ sk @ w @ tail) ! (length pre + length sk + length w) = tail ! 0" for tail
    by (simp add: nth_append add.assoc)
  show "split_loop (pre @ (sk @ w @ token # z) @ 0 # rest) argv (length pre) argc token =
      (if argc < MAX_ARG_NR
       then split_loop ((pre @ sk @ w @ [0]) @ z @ 0 # rest) (argv[argc := Some (length pre + length sk)])
              (length (pre @ sk @ w @ [0])) (Suc argc) token
       else Inl Bad_access)"
    using skip [of "token # z @ 0 # rest"] word1 first [of "token # z @ 0 # rest"] upd
      at [of "token # z @ 0 # rest"] assms(5,6,7)
    by (subst split_loop.simps) (simp add: write_at_def add.assoc)
  show "split_loop (pre @ (sk @ w) @ 0 # rest) argv (length pre) argc token =
      (if argc < MAX_ARG_NR
       then split_loop ((pre @ sk @ w) @ 0 # rest) (argv[argc := Some (length pre + length sk)])
              (length (pre @ sk @ w)) (Suc argc) token
       else Inl Bad_access)"
    using skip [of "0 # rest"] word2 first [of "0 # rest"] at [of "0 # rest"] assms(5,6,7)
    by (subst split_loop.simps) (simp add: write_at_def add.assoc)
qed


lemma args_of_Cons:
  assumes "args_of buf start' argv (Suc argc) ws" "start \<le> off" "off < start'" "start' \<le> length buf"
    and "argv ! argc = Some off" "text_of (drop off buf) = w"
  shows "args_of buf start argv argc (w # ws)"
  using assms unfolding args_of_def
  by (fastforce simp: less_Suc_eq_0_disj)

lemma split_loop_words:
  assumes "0 \<notin> set t" "token \<noteq> 0" "length argv = MAX_ARG_NR" "argc \<le> MAX_ARG_NR"
  shows "if argc + length (pieces token t) \<le> MAX_ARG_NR
    then \<exists>u argv'. split_loop (pre @ t @ 0 # rest) argv (length pre) argc token =
           Inr (int (argc + length (pieces token t)), pre @ u, argv') \<and>
         length u = length (t @ 0 # rest) \<and> length argv' = MAX_ARG_NR \<and>
         args_of (pre @ u) (length pre) argv' argc (pieces token t) \<and>
         (\<forall>k < MAX_ARG_NR. k < argc \<or> argc + length (pieces token t) \<le> k \<longrightarrow> argv' ! k = argv ! k)
    else split_loop (pre @ t @ 0 # rest) argv (length pre) argc token = Inl Bad_access"
  using assms
proof (induction "length t" arbitrary: t pre argv argc rule: less_induct)
  case less
  define sk where "sk = takeWhile (\<lambda>x. x = token) t"
  define y where "y = dropWhile (\<lambda>x. x = token) t"
  have t: "t = sk @ y" by (simp add: sk_def y_def)
  have nz: "0 \<notin> set y" using less(2) t by auto
  have sk: "\<forall>c \<in> set sk. c = token" by (auto simp: sk_def dest: set_takeWhileD)
  show ?case
  proof (cases "y = []")
    case True
    then have p: "pieces token t = []" using pieces_unfold(1) y_def by metis
    have "split_loop (pre @ t @ 0 # rest) argv (length pre) argc token =
        Inr (int argc, pre @ t @ 0 # rest, argv)"
    proof (cases t)
      case (Cons c t')
      have "skip_token (pre @ t @ 0 # rest) (length pre) token = Inr (length pre + length t)"
        using skip_token_eq [of 0 token pre t rest] less(3) sk t True
        by (auto simp: takeWhile_eq_all_conv [THEN iffD2])
      then show ?thesis
        using Cons less(2) by (subst split_loop.simps) (simp add: nth_append)
    qed (use split_loop_end in simp)
    then show ?thesis using p less(5) less(4) by (simp add: args_of_def)
  next
    case False
    define w where "w = takeWhile (\<lambda>x. x \<noteq> token) y"
    define z where "z = dropWhile (\<lambda>x. x \<noteq> token) y"
    have y: "y = w @ z" by (simp add: w_def z_def)
    have p: "pieces token t = w # pieces token z"
      using pieces_unfold(2) [of token t] False unfolding y_def w_def z_def by simp
    have w: "w \<noteq> []" "0 \<notin> set w" "token \<notin> set w"
      using pieces_elem [of w token t] p nz y by auto
    let ?off = "length pre + length sk"
    let ?argv = "argv[argc := Some ?off]"
    show ?thesis
    proof (cases z)
      case Nil
      then have "split_loop (pre @ t @ 0 # rest) argv (length pre) argc token =
          (if argc < MAX_ARG_NR then Inr (int (Suc argc), pre @ t @ 0 # rest, ?argv) else Inl Bad_access)"
        using split_loop_word(2) [OF sk w less(3,4,5), of "[]" pre rest] t y
          split_loop_end [of "pre @ sk @ w" rest ?argv "Suc argc" token] by simp
      moreover have "pieces token z = []" using Nil by (simp add: pieces.simps)
      ultimately show ?thesis
        using p w(2) less(4) t y Nil by (auto simp: args_of_def)
    next
      case (Cons c z')
      then have c: "c = token" using hd_dropWhile [of "\<lambda>x. x \<noteq> token" y] z_def by (metis list.distinct(1) list.sel(1))
      have z': "0 \<notin> set z'" "length z' < length t" using Cons nz y t by auto
      have pz: "pieces token z = pieces token z'" using Cons c pieces_skip by metis
      let ?pre = "pre @ sk @ w @ [0]"
      have step: "split_loop (pre @ t @ 0 # rest) argv (length pre) argc token =
          (if argc < MAX_ARG_NR then split_loop (?pre @ z' @ 0 # rest) ?argv (length ?pre) (Suc argc) token
           else Inl Bad_access)"
        using split_loop_word(1) [OF sk w less(3,4,5) z'(1), of pre rest] t y Cons c by simp
      show ?thesis
      proof (cases "argc + length (pieces token t) \<le> MAX_ARG_NR")
        case True
        then have "Suc argc + length (pieces token z') \<le> MAX_ARG_NR" "argc < MAX_ARG_NR"
          using p pz by auto
        with less(1) [OF z'(2,1) less(3), of ?argv "Suc argc" ?pre] less(4)
        obtain u argv' where u: "split_loop (?pre @ z' @ 0 # rest) ?argv (length ?pre) (Suc argc) token =
            Inr (int (Suc argc + length (pieces token z')), ?pre @ u, argv')"
            "length u = length (z' @ 0 # rest)" "length argv' = MAX_ARG_NR"
            "args_of (?pre @ u) (length ?pre) argv' (Suc argc) (pieces token z')"
            "\<forall>k < MAX_ARG_NR. k < Suc argc \<or> Suc argc + length (pieces token z') \<le> k \<longrightarrow> argv' ! k = ?argv ! k"
          by auto
        have "argv' ! argc = Some ?off" using u(5) \<open>argc < MAX_ARG_NR\<close> less(4) by simp
        then have "args_of (?pre @ u) (length pre) argv' argc (w # pieces token z')"
          using args_of_Cons [OF u(4), of "length pre" ?off w] u(2) w by simp
        then show ?thesis
          using True step u \<open>argc < MAX_ARG_NR\<close> p pz t y Cons
          by (auto intro!: exI [of _ "sk @ w @ 0 # u"] exI [of _ argv'])
      next
        case False
        then have "argc < MAX_ARG_NR \<Longrightarrow> \<not> Suc argc + length (pieces token z') \<le> MAX_ARG_NR"
          using p pz by auto
        then show ?thesis
          using False step less(1) [OF z'(2,1) less(3), of ?argv "Suc argc" ?pre] less(4) by auto
      qed
    qed
  qed
qed

text \<open>
  C33. Splitting a command line of at most 16 words returns their number and cuts the line in place:
  argument \<open>k\<close> points to the text of the \<open>k\<close>-th word and the rest of the vector is \<open>NULL\<close>. With more
  than 16 words the function writes past the end of the argument vector: its check against
  \<open>MAX_ARG_NR\<close>, which should return \<open>-1\<close>, comes after the store and is never reached.
\<close>

theorem cmd_split_words:
  assumes "terminated line" "token \<noteq> 0"
  shows "case cmd_split (Some line) token of
      Inr (argc, line', argv) \<Rightarrow>
        argc = int (length (pieces token (text_of line))) \<and> argc \<le> 16 \<and> length line' = length line \<and>
        length argv = 16 \<and> args_of line' 0 argv 0 (pieces token (text_of line)) \<and>
        (\<forall>k < 16. length (pieces token (text_of line)) \<le> k \<longrightarrow> argv ! k = None)
    | Inl e \<Rightarrow> e = Bad_access \<and> 16 < length (pieces token (text_of line))"
proof -
  obtain rest where line: "line = text_of line @ 0 # rest" using terminated_split [OF assms(1)] .
  then have "length line = length (text_of line @ 0 # rest)" by metis
  then show ?thesis
    using split_loop_words [OF text_of_no_zero [of line] assms(2), of "replicate MAX_ARG_NR None" 0 "[]" rest]
    unfolding append_Nil line [symmetric]
    by (auto simp: cmd_split_def MAX_ARG_NR_def split: if_splits)
qed

lemma cmd_split_words_witness:
  "terminated (lit ''ls  -l /'') \<and> (\<exists>line' argv. cmd_split (Some (lit ''ls  -l /'')) 32 = Inr (3, line', argv) \<and>
     args_of line' 0 argv 0 [map of_char ''ls'', map of_char ''-l'', map of_char ''/''])"
proof -
  have p: "pieces 32 (text_of (lit ''ls  -l /'')) = [map of_char ''ls'', map of_char ''-l'', map of_char ''/'']"
    by (simp add: lit_def pieces_unfold)
  show ?thesis
    using cmd_split_words [of "lit ''ls  -l /''" 32] unfolding p by (auto split: sum.splits)
qed

end
