(* ===== verification/Scheduler.thy ===== *)
theory Scheduler
  imports Interrupts Bitmap
begin

text \<open>
  The scheduler: \<open>schedule\<close>, \<open>thread_block\<close>, \<open>thread_unblock\<close> and \<open>thread_yield\<close> of
  \<open>thread/thread.c\<close>, \<open>process_activate\<close> of \<open>userprog/process.c\<close> and the timer interrupt of
  \<open>device/timer.c\<close>. A thread is named by the address of its TCB page. The two thread queues are the
  sequences of the threads whose tag they link; theory \<open>Intrusive_List\<close> proves that the pointer
  lists behave as these sequences. \<open>switch_to\<close> is the change of \<open>cur\<close>: from then on the code of
  the new thread runs, and the caller goes on when it is switched to again.
\<close>

section \<open>Thread control blocks\<close>

datatype task_status =
  TASK_RUNNING | TASK_READY | TASK_BLOCKED | TASK_WAITING | TASK_HANGING | TASK_DIED

record virtual_addr =
  vaddr_bitmap :: bitmap
  vaddr_start :: u32

record mem_block_desc =
  block_size :: u32
  blocks_per_arena :: u32
  free_list :: "addr list"

definition TASK_NAME_LEN :: nat where "TASK_NAME_LEN = 16"
definition MAX_FILE_OPEN_PER_PROC :: nat where "MAX_FILE_OPEN_PER_PROC = 8"
definition MEM_UNIT_CNT :: nat where "MEM_UNIT_CNT = 7"

text \<open>
  The two list tags of the C structure are the membership of the thread in the queues below;
  \<open>pid_t\<close> is a signed 16-bit integer, the descriptors are signed 32-bit integers.
\<close>

record task_struct =
  self_kstack :: addr
  pid :: u16
  parent_pid :: u16
  status :: task_status
  task_name :: "u8 list"
  time_slice :: u8
  this_tick :: u8
  total_ticks :: u32
  fd_table :: "int list"
  pgdir :: addr
  userprog_vaddr :: virtual_addr
  u_block_desc :: "mem_block_desc list"
  cwd_inode_no :: u32
  exit_status :: u8
  stack_magic :: u32

text \<open>
  \<open>v2p\<close> is what \<open>addr_v2p\<close> answers for the page directories (theory \<open>Paging\<close> computes it from the
  page tables); \<open>cr3\<close> and \<open>tss_esp0\<close> are what a switch loads.
\<close>

record kernel = cpu +
  tcbs :: "addr \<Rightarrow> task_struct"
  thread_ready_list :: "addr list"
  thread_all_list :: "addr list"
  cur :: addr
  main_thread :: addr
  idle_thread :: addr
  ticks :: u32
  v2p :: "addr \<Rightarrow> u32"
  cr3 :: u32
  tss_esp0 :: addr

definition running_thread :: "'a kernel_scheme \<Rightarrow> addr" where "running_thread s = cur s"

definition upd_tcb :: "addr \<Rightarrow> (task_struct \<Rightarrow> task_struct) \<Rightarrow> 'a kernel_scheme \<Rightarrow> 'a kernel_scheme" where
  "upd_tcb t f s = s\<lparr>tcbs := (tcbs s)(t := f (tcbs s t))\<rparr>"

section \<open>Switching\<close>

definition update_tss_esp :: "addr \<Rightarrow> 'a kernel_scheme \<Rightarrow> 'a kernel_scheme" where
  "update_tss_esp tcb s = s\<lparr>tss_esp0 := tcb + 4096\<rparr>"

definition page_dir_activate :: "addr \<Rightarrow> 'a kernel_scheme \<Rightarrow> 'a kernel_scheme" where
  "page_dir_activate tcb s =
     s\<lparr>cr3 := (if pgdir (tcbs s tcb) \<noteq> NULL then v2p s (pgdir (tcbs s tcb)) else 0x100000)\<rparr>"

definition process_activate :: "addr \<Rightarrow> 'a kernel_scheme \<Rightarrow> 'a kernel_scheme res" where
  "process_activate tcb s =
     asserting (tcb \<noteq> NULL)
     (let s = page_dir_activate tcb s in
      Inr (if pgdir (tcbs s tcb) \<noteq> NULL then update_tss_esp tcb s else s))"

definition blocked_status :: "task_status \<Rightarrow> bool" where
  "blocked_status st \<longleftrightarrow> st = TASK_BLOCKED \<or> st = TASK_HANGING \<or> st = TASK_WAITING"

lemma blocked_status_iff:
  "blocked_status st \<longleftrightarrow> st \<noteq> TASK_RUNNING \<and> st \<noteq> TASK_READY \<and> st \<noteq> TASK_DIED"
  by (cases st) (simp_all add: blocked_status_def)

definition thread_unblock :: "addr \<Rightarrow> 'a kernel_scheme \<Rightarrow> 'a kernel_scheme res" where
  "thread_unblock tcb s =
     (case intr_disable s of (old_status, s) \<Rightarrow>
      asserting (blocked_status (status (tcbs s tcb)))
      (bindE
        (if status (tcbs s tcb) \<noteq> TASK_READY then
           asserting (tcb \<notin> set (thread_ready_list s))
           (if tcb \<in> set (thread_ready_list s) then Inl Panicked
            else Inr (upd_tcb tcb (\<lambda>p. p\<lparr>status := TASK_READY\<rparr>)
                   (s\<lparr>thread_ready_list := tcb # thread_ready_list s\<rparr>)))
         else Inr s)
        (\<lambda>s. Inr (intr_set_status old_status s))))"

definition schedule :: "'a kernel_scheme \<Rightarrow> 'a kernel_scheme res" where
  "schedule s =
     asserting (intr_get_status s = INTR_OFF)
     (let c = running_thread s in
      bindE
        (if status (tcbs s c) = TASK_RUNNING then
           asserting (c \<notin> set (thread_ready_list s))
           (Inr (upd_tcb c (\<lambda>p. p\<lparr>this_tick := time_slice p, status := TASK_READY\<rparr>)
              (s\<lparr>thread_ready_list := thread_ready_list s @ [c]\<rparr>)))
         else Inr s)
        (\<lambda>s. bindE (if thread_ready_list s = [] then thread_unblock (idle_thread s) s else Inr s)
        (\<lambda>s. asserting (thread_ready_list s \<noteq> [])
          (let next_thread = hd (thread_ready_list s);
               s = upd_tcb next_thread (\<lambda>p. p\<lparr>status := TASK_RUNNING\<rparr>)
                     (s\<lparr>thread_ready_list := tl (thread_ready_list s)\<rparr>) in
           bindE (process_activate next_thread s) (\<lambda>s. Inr (s\<lparr>cur := next_thread\<rparr>))))))"

text \<open>
  \<open>thread_block\<close> and \<open>thread_yield\<close> up to the switch; the restoring of the interrupt flag after
  \<open>schedule\<close> is done by the thread when it runs again, with the flag it had (\<open>resumed\<close>).
\<close>

definition thread_block :: "task_status \<Rightarrow> 'a kernel_scheme \<Rightarrow> 'a kernel_scheme res" where
  "thread_block st s =
     asserting (blocked_status st)
     (case intr_disable s of (old_status, s) \<Rightarrow>
        schedule (upd_tcb (running_thread s) (\<lambda>p. p\<lparr>status := st\<rparr>) s))"

definition thread_yield :: "'a kernel_scheme \<Rightarrow> 'a kernel_scheme res" where
  "thread_yield s =
     (let c = running_thread s in
      case intr_disable s of (old_status, s) \<Rightarrow>
        asserting (c \<notin> set (thread_ready_list s))
        (schedule (upd_tcb c (\<lambda>p. p\<lparr>status := TASK_READY\<rparr>)
           (s\<lparr>thread_ready_list := thread_ready_list s @ [c]\<rparr>))))"

definition resumed :: "intr_status \<Rightarrow> 'a kernel_scheme \<Rightarrow> 'a kernel_scheme" where
  "resumed old_status s = intr_set_status old_status s"

section \<open>The timer\<close>

text \<open>An interrupt gate clears the flag on entry.\<close>

definition intr_timer_handler :: "'a kernel_scheme \<Rightarrow> 'a kernel_scheme res" where
  "intr_timer_handler s =
     (let c = running_thread s in
      asserting (stack_magic (tcbs s c) = 0x20010107)
      (let s = upd_tcb c (\<lambda>p. p\<lparr>total_ticks := total_ticks p + 1\<rparr>) s;
           s = s\<lparr>ticks := ticks s + 1\<rparr> in
       if this_tick (tcbs s c) = 0 then schedule s
       else Inr (upd_tcb c (\<lambda>p. p\<lparr>this_tick := this_tick p - 1\<rparr>) s)))"

section \<open>Well-formed thread state\<close>

text \<open>
  Everything but the status of the current thread: the queues are duplicate-free and their threads
  are known, a ready thread is \<open>TASK_READY\<close> and conversely, only the current thread may be running,
  and the idle thread is blocked whenever it is neither ready nor current.
\<close>

definition ready_ok :: "'a kernel_scheme \<Rightarrow> bool" where
  "ready_ok s \<longleftrightarrow>
     distinct (thread_ready_list s) \<and> distinct (thread_all_list s) \<and>
     set (thread_ready_list s) \<subseteq> set (thread_all_list s) \<and>
     idle_thread s \<in> set (thread_all_list s) \<and> NULL \<notin> set (thread_all_list s) \<and>
     (\<forall>t \<in> set (thread_all_list s). t \<noteq> cur s \<longrightarrow>
        (status (tcbs s t) = TASK_READY \<longleftrightarrow> t \<in> set (thread_ready_list s)) \<and>
        status (tcbs s t) \<noteq> TASK_RUNNING) \<and>
     (idle_thread s \<noteq> cur s \<longrightarrow> idle_thread s \<notin> set (thread_ready_list s) \<longrightarrow>
        blocked_status (status (tcbs s (idle_thread s))))"

definition sched_wf :: "'a kernel_scheme \<Rightarrow> bool" where
  "sched_wf s \<longleftrightarrow> ready_ok s \<and> cur s \<in> set (thread_all_list s) \<and>
     status (tcbs s (cur s)) = TASK_RUNNING \<and> cur s \<notin> set (thread_ready_list s)"

text \<open>The ways the current thread comes to \<open>schedule\<close>: preempted, yielding, blocked, or dead.\<close>

definition can_switch :: "'a kernel_scheme \<Rightarrow> bool" where
  "can_switch s \<longleftrightarrow> ready_ok s \<and>
     (status (tcbs s (cur s)) = TASK_RUNNING \<longrightarrow> cur s \<in> set (thread_all_list s)) \<and>
     (status (tcbs s (cur s)) = TASK_READY \<longleftrightarrow> cur s \<in> set (thread_ready_list s)) \<and>
     (status (tcbs s (cur s)) = TASK_DIED \<longrightarrow> cur s \<noteq> idle_thread s)"

text \<open>The queue the next thread is taken from.\<close>

definition run_queue :: "'a kernel_scheme \<Rightarrow> addr list" where
  "run_queue s = thread_ready_list s @ (if status (tcbs s (cur s)) = TASK_RUNNING then [cur s] else [])"

definition next_thread :: "'a kernel_scheme \<Rightarrow> addr" where
  "next_thread s = (if run_queue s = [] then idle_thread s else hd (run_queue s))"

lemma upd_tcb_simps [simp]:
  "tcbs (upd_tcb t f s) = (tcbs s)(t := f (tcbs s t))"
  "thread_ready_list (upd_tcb t f s) = thread_ready_list s"
  "thread_all_list (upd_tcb t f s) = thread_all_list s"
  "cur (upd_tcb t f s) = cur s" "main_thread (upd_tcb t f s) = main_thread s"
  "idle_thread (upd_tcb t f s) = idle_thread s" "ticks (upd_tcb t f s) = ticks s"
  "if_flag (upd_tcb t f s) = if_flag s" "v2p (upd_tcb t f s) = v2p s"
  "kernel.more (upd_tcb t f s) = kernel.more s"
  by (simp_all add: upd_tcb_def)

lemma process_activate_eq:
  assumes "t \<noteq> NULL"
  shows "\<exists>c e. process_activate t s = Inr (s\<lparr>cr3 := c, tss_esp0 := e\<rparr>)"
proof (cases "pgdir (tcbs s t) = NULL")
  case True
  then have "process_activate t s = Inr (s\<lparr>cr3 := 0x100000, tss_esp0 := tss_esp0 s\<rparr>)"
    using assms by (simp add: process_activate_def page_dir_activate_def)
  then show ?thesis by blast
next
  case False
  then have "process_activate t s = Inr (s\<lparr>cr3 := v2p s (pgdir (tcbs s t)), tss_esp0 := t + 4096\<rparr>)"
    using assms by (simp add: process_activate_def page_dir_activate_def update_tss_esp_def)
  then show ?thesis by blast
qed

lemma thread_unblock_eq:
  assumes "blocked_status (status (tcbs s t))" "t \<notin> set (thread_ready_list s)"
  shows "thread_unblock t s = Inr (upd_tcb t (\<lambda>p. p\<lparr>status := TASK_READY\<rparr>)
     (s\<lparr>thread_ready_list := t # thread_ready_list s\<rparr>))"
  using assms
  by (auto simp: thread_unblock_def intr_disable_eq intr_set_status_eq upd_tcb_def blocked_status_def)

lemmas thread_state_defs = ready_ok_def sched_wf_def can_switch_def run_queue_def next_thread_def

lemma next_thread_known:
  assumes "can_switch s" shows "next_thread s \<in> set (thread_all_list s)"
proof -
  have ok: "ready_ok s" using assms by (simp add: can_switch_def)
  have "set (run_queue s) \<subseteq> set (thread_all_list s)"
    using assms ok by (auto simp: run_queue_def can_switch_def ready_ok_def)
  moreover have "idle_thread s \<in> set (thread_all_list s)" using ok by (simp add: ready_ok_def)
  ultimately show ?thesis by (cases "run_queue s") (auto simp: next_thread_def)
qed

text \<open>What \<open>schedule\<close> does to the part of the state it changes.\<close>

lemma schedule_eq:
  assumes "can_switch s" "\<not> if_flag s"
  shows "\<exists>s'. schedule s = Inr s' \<and> cur s' = next_thread s \<and>
    thread_ready_list s' = (if run_queue s = [] then [] else tl (run_queue s)) \<and>
    thread_all_list s' = thread_all_list s \<and> \<not> if_flag s' \<and> idle_thread s' = idle_thread s \<and>
    main_thread s' = main_thread s \<and> kernel.more s' = kernel.more s \<and> ticks s' = ticks s \<and>
    (\<forall>t. status (tcbs s' t) =
       (if t = next_thread s then TASK_RUNNING
        else if t = cur s \<and> status (tcbs s t) = TASK_RUNNING then TASK_READY else status (tcbs s t))) \<and>
    (\<forall>t. tcbs s' t = (tcbs s t)\<lparr>status := status (tcbs s' t),
       this_tick := (if t = cur s \<and> status (tcbs s t) = TASK_RUNNING then time_slice (tcbs s t)
                     else this_tick (tcbs s t))\<rparr>)"
proof -
  define c where "c = cur s"
  define running where "running = (status (tcbs s c) = TASK_RUNNING)"
  define s1 where "s1 = (if running
      then upd_tcb c (\<lambda>p. p\<lparr>this_tick := time_slice p, status := TASK_READY\<rparr>)
             (s\<lparr>thread_ready_list := thread_ready_list s @ [c]\<rparr>)
      else s)"
  define s2 where "s2 = (if run_queue s = []
      then upd_tcb (idle_thread s) (\<lambda>p. p\<lparr>status := TASK_READY\<rparr>) (s1\<lparr>thread_ready_list := [idle_thread s]\<rparr>)
      else s1)"
  define nxt where "nxt = next_thread s"
  have ok: "ready_ok s" using assms(1) by (simp add: can_switch_def)
  have notin: "running \<Longrightarrow> c \<notin> set (thread_ready_list s)"
    using assms(1) by (simp add: can_switch_def c_def running_def)
  have q1: "thread_ready_list s1 = run_queue s" by (simp add: s1_def run_queue_def c_def running_def)
  have idle: "blocked_status (status (tcbs s1 (idle_thread s)))" if "run_queue s = []"
  proof -
    have "thread_ready_list s = []" "\<not> running" using that by (auto simp: run_queue_def c_def running_def split: if_splits)
    then show ?thesis
      using assms(1) ok
      by (cases "idle_thread s = cur s")
        (auto simp: s1_def c_def running_def can_switch_def ready_ok_def blocked_status_iff)
  qed
  have s2: "(if thread_ready_list s1 = [] then thread_unblock (idle_thread s1) s1 else Inr s1) = Inr s2"
    using idle thread_unblock_eq [of s1 "idle_thread s"] q1 by (auto simp: s2_def s1_def)
  have q2: "thread_ready_list s2 = (if run_queue s = [] then [idle_thread s] else run_queue s)"
    using q1 by (simp add: s2_def)
  have "nxt \<in> set (thread_all_list s)"
    unfolding nxt_def by (rule next_thread_known [OF assms(1)])
  then have nxt: "hd (thread_ready_list s2) = nxt" "nxt \<noteq> NULL"
    using q2 ok by (auto simp: nxt_def next_thread_def ready_ok_def)
  define s3 where "s3 = upd_tcb nxt (\<lambda>p. p\<lparr>status := TASK_RUNNING\<rparr>)
      (s2\<lparr>thread_ready_list := tl (thread_ready_list s2)\<rparr>)"
  obtain x e where pa: "process_activate nxt s3 = Inr (s3\<lparr>cr3 := x, tss_esp0 := e\<rparr>)"
    using process_activate_eq [OF nxt(2)] by blast
  have sch: "schedule s = Inr (s3\<lparr>cr3 := x, tss_esp0 := e, cur := nxt\<rparr>)"
  proof -
    have e1: "(if status (tcbs s c) = TASK_RUNNING then
           asserting (c \<notin> set (thread_ready_list s))
           (Inr (upd_tcb c (\<lambda>p. p\<lparr>this_tick := time_slice p, status := TASK_READY\<rparr>)
              (s\<lparr>thread_ready_list := thread_ready_list s @ [c]\<rparr>)))
         else Inr s) = Inr s1"
      using notin by (simp add: s1_def running_def)
    have off: "intr_get_status s = INTR_OFF" using assms(2) by simp
    have ne: "thread_ready_list s2 \<noteq> []" using q2 by simp
    show ?thesis
      by (simp only: schedule_def running_thread_def Let_def c_def [symmetric] e1 bindE_Inr s2
          asserting_True [OF off] asserting_True [OF ne] nxt(1) s3_def [symmetric] pa)
  qed
  have rq: "nxt = idle_thread s" "\<not> running" if "run_queue s = []"
    using that by (auto simp: nxt_def next_thread_def run_queue_def running_def c_def split: if_splits)
  have q3: "thread_ready_list s3 = (if run_queue s = [] then [] else tl (run_queue s))"
    using q2 by (simp add: s3_def)
  have t1: "tcbs s1 t = (tcbs s t)\<lparr>status := (if t = c \<and> running then TASK_READY else status (tcbs s t)),
      this_tick := (if t = c \<and> running then time_slice (tcbs s t) else this_tick (tcbs s t))\<rparr>" for t
    by (simp add: s1_def)
  have t3: "tcbs s3 t = (tcbs s1 t)\<lparr>status := (if t = nxt then TASK_RUNNING else status (tcbs s1 t))\<rparr>" for t
    using rq by (auto simp: s3_def s2_def)
  have rest: "thread_all_list s3 = thread_all_list s" "if_flag s3 = if_flag s" "idle_thread s3 = idle_thread s"
      "main_thread s3 = main_thread s" "kernel.more s3 = kernel.more s" "ticks s3 = ticks s"
    by (simp_all add: s3_def s2_def s1_def)
  show ?thesis
    unfolding sch nxt_def [symmetric] c_def [symmetric]
    using assms(2) rest q3
    by (intro exI [of _ "s3\<lparr>cr3 := x, tss_esp0 := e, cur := nxt\<rparr>"]) (auto simp: t1 t3 running_def)
qed

lemma schedule_runs_next_aux:
  assumes "can_switch s" "\<not> if_flag s"
  shows "\<exists>s'. schedule s = Inr s' \<and> sched_wf s' \<and> cur s' = next_thread s \<and>
    thread_ready_list s' = tl (run_queue s) \<and> \<not> if_flag s'"
proof -
  obtain s' where s': "schedule s = Inr s'" "cur s' = next_thread s"
      "thread_ready_list s' = tl (run_queue s)" "thread_all_list s' = thread_all_list s"
      "\<not> if_flag s'" "idle_thread s' = idle_thread s"
    and st: "\<And>t. status (tcbs s' t) =
       (if t = next_thread s then TASK_RUNNING
        else if t = cur s \<and> status (tcbs s t) = TASK_RUNNING then TASK_READY else status (tcbs s t))"
    using schedule_eq [OF assms] by auto
  have ok: "ready_ok s" using assms(1) by (simp add: can_switch_def)
  have dist: "distinct (run_queue s)"
    using assms(1) ok by (auto simp: run_queue_def can_switch_def ready_ok_def)
  have known: "set (run_queue s) \<subseteq> set (thread_all_list s)"
    using assms(1) ok by (auto simp: run_queue_def can_switch_def ready_ok_def)
  have tail: "t \<in> set (tl (run_queue s)) \<longleftrightarrow> t \<in> set (run_queue s) \<and> t \<noteq> next_thread s" for t
    using dist by (cases "run_queue s") (auto simp: next_thread_def)
  have ready: "status (tcbs s' t) = TASK_READY \<longleftrightarrow> t \<in> set (tl (run_queue s))"
    if "t \<in> set (thread_all_list s)" "t \<noteq> next_thread s" for t
    using that ok assms(1) unfolding tail st
    by (auto simp: run_queue_def ready_ok_def can_switch_def)
  have nrun: "status (tcbs s' t) \<noteq> TASK_RUNNING"
    if "t \<in> set (thread_all_list s)" "t \<noteq> next_thread s" for t
    using that ok unfolding st by (auto simp: ready_ok_def)
  have idle: "blocked_status (status (tcbs s' (idle_thread s)))"
    if "idle_thread s \<noteq> next_thread s" "idle_thread s \<notin> set (tl (run_queue s))"
    using that ok assms(1) unfolding tail st
    by (cases "idle_thread s = cur s")
      (auto simp: run_queue_def ready_ok_def can_switch_def blocked_status_iff)
  have "next_thread s \<notin> set (tl (run_queue s))" using tail by blast
  moreover have "next_thread s \<in> set (thread_all_list s)" by (rule next_thread_known [OF assms(1)])
  ultimately have "sched_wf s'"
    unfolding sched_wf_def ready_ok_def s' st
    using ok dist known ready nrun idle tail st by (auto simp: ready_ok_def distinct_tl s')
  with s' show ?thesis by blast
qed


text \<open>
  C8. From every state in which a thread may give up the CPU (preempted, yielding, blocked or dead)
  \<open>schedule\<close> returns without failing an assertion, in a well-formed state in which the thread at
  the head of the queue runs, or the idle thread if nothing else can, with interrupts still off.
\<close>

theorem schedule_runs_next:
  assumes "can_switch s" "\<not> if_flag s"
  shows "\<exists>s'. schedule s = Inr s' \<and> sched_wf s' \<and> cur s' = next_thread s \<and>
    thread_ready_list s' = tl (run_queue s) \<and> \<not> if_flag s'"
  by (rule schedule_runs_next_aux [OF assms])

section \<open>Every operation keeps the thread state well-formed\<close>

lemma sched_wf_can_switch: "sched_wf s \<Longrightarrow> can_switch s"
  by (simp add: sched_wf_def can_switch_def)

lemma sched_wf_if_flag [simp]:
  "sched_wf (s\<lparr>if_flag := b\<rparr>) \<longleftrightarrow> sched_wf s" "can_switch (s\<lparr>if_flag := b\<rparr>) \<longleftrightarrow> can_switch s"
  "next_thread (s\<lparr>if_flag := b\<rparr>) = next_thread s" "run_queue (s\<lparr>if_flag := b\<rparr>) = run_queue s"
  by (simp_all add: thread_state_defs)

lemma schedule_wf [wf_intros]:
  assumes "can_switch s" "schedule s = Inr s'" shows "sched_wf s'"
proof -
  have "\<not> if_flag s" using assms(2) by (auto simp: schedule_def asserting_def split: if_splits)
  then show ?thesis using schedule_runs_next_aux [OF assms(1)] assms(2) by auto
qed

lemma thread_block_wf [wf_intros]:
  assumes "sched_wf s" "blocked_status st"
  shows "\<exists>s'. thread_block st s = Inr s' \<and> sched_wf s' \<and> \<not> if_flag s' \<and>
    cur s' = (if thread_ready_list s = [] then idle_thread s else hd (thread_ready_list s)) \<and>
    thread_ready_list s' = tl (thread_ready_list s)"
proof -
  let ?s = "upd_tcb (cur s) (\<lambda>p. p\<lparr>status := st\<rparr>) (s\<lparr>if_flag := False\<rparr>)"
  have "st \<noteq> TASK_RUNNING" "st \<noteq> TASK_READY" "st \<noteq> TASK_DIED" using assms(2) by (auto simp: blocked_status_def)
  then have "can_switch ?s" "run_queue ?s = thread_ready_list s" "idle_thread ?s = idle_thread s"
    using assms(1) by (auto simp: thread_state_defs)
  then show ?thesis
    using schedule_runs_next_aux [of ?s] assms(2)
    by (auto simp: thread_block_def intr_disable_eq running_thread_def next_thread_def)
qed

lemma thread_yield_wf [wf_intros]:
  assumes "sched_wf s"
  shows "\<exists>s'. thread_yield s = Inr s' \<and> sched_wf s' \<and> cur s' = next_thread s \<and>
    thread_ready_list s' = tl (run_queue s)"
proof -
  let ?s = "upd_tcb (cur s) (\<lambda>p. p\<lparr>status := TASK_READY\<rparr>)
      (s\<lparr>if_flag := False, thread_ready_list := thread_ready_list s @ [cur s]\<rparr>)"
  have "can_switch ?s" "run_queue ?s = run_queue s" "next_thread ?s = next_thread s"
    using assms by (auto simp: thread_state_defs)
  then show ?thesis
    using schedule_runs_next_aux [of ?s] assms
    by (auto simp: thread_yield_def intr_disable_eq running_thread_def sched_wf_def)
qed

lemma thread_unblock_wf [wf_intros]:
  assumes "sched_wf s" "t \<in> set (thread_all_list s)" "blocked_status (status (tcbs s t))"
  shows "\<exists>s'. thread_unblock t s = Inr s' \<and> sched_wf s' \<and> cur s' = cur s \<and>
    thread_ready_list s' = t # thread_ready_list s \<and> if_flag s' = if_flag s"
proof -
  have t: "t \<noteq> cur s" "t \<notin> set (thread_ready_list s)"
    using assms by (auto simp: thread_state_defs blocked_status_def)
  then show ?thesis
    using thread_unblock_eq [OF assms(3)] assms by (auto simp: thread_state_defs)
qed

lemma timer_tick_eq:
  assumes "sched_wf s" "stack_magic (tcbs s (cur s)) = 0x20010107" "this_tick (tcbs s (cur s)) \<noteq> 0"
  shows "\<exists>s'. intr_timer_handler s = Inr s' \<and> sched_wf s' \<and> cur s' = cur s \<and>
    thread_ready_list s' = thread_ready_list s \<and> if_flag s' = if_flag s \<and> ticks s' = ticks s + 1 \<and>
    idle_thread s' = idle_thread s \<and> tcbs s' = (tcbs s)(cur s := (tcbs s (cur s))
       \<lparr>total_ticks := total_ticks (tcbs s (cur s)) + 1, this_tick := this_tick (tcbs s (cur s)) - 1\<rparr>)"
  using assms
  by (auto simp: intr_timer_handler_def running_thread_def Let_def thread_state_defs)

lemma timer_expired_eq:
  assumes "sched_wf s" "\<not> if_flag s" "stack_magic (tcbs s (cur s)) = 0x20010107"
    and "this_tick (tcbs s (cur s)) = 0"
  shows "\<exists>s'. intr_timer_handler s = Inr s' \<and> sched_wf s' \<and> cur s' = next_thread s \<and>
    thread_ready_list s' = tl (run_queue s) \<and> \<not> if_flag s' \<and> ticks s' = ticks s + 1 \<and>
    total_ticks (tcbs s' (cur s)) = total_ticks (tcbs s (cur s)) + 1 \<and>
    this_tick (tcbs s' (cur s)) = time_slice (tcbs s (cur s))"
proof -
  let ?s = "upd_tcb (cur s) (\<lambda>p. p\<lparr>total_ticks := total_ticks p + 1\<rparr>) s\<lparr>ticks := ticks s + 1\<rparr>"
  have cs: "can_switch ?s" "run_queue ?s = run_queue s" "next_thread ?s = next_thread s"
      "status (tcbs ?s (cur s)) = TASK_RUNNING"
    using assms(1) by (auto simp: thread_state_defs)
  have off: "\<not> if_flag ?s" using assms(2) by simp
  from schedule_runs_next_aux [OF cs(1) off] schedule_eq [OF cs(1) off]
  obtain s' where "schedule ?s = Inr s'" "sched_wf s'" "cur s' = next_thread s" "\<not> if_flag s'"
      "thread_ready_list s' = tl (run_queue s)" "ticks s' = ticks s + 1"
      "tcbs s' (cur s) = (tcbs ?s (cur s))\<lparr>status := status (tcbs s' (cur s)),
        this_tick := time_slice (tcbs s (cur s))\<rparr>"
    using cs by (auto simp: fun_upd_def)
  note s' = this
  have "total_ticks (tcbs s' (cur s)) = total_ticks (tcbs s (cur s)) + 1"
      "this_tick (tcbs s' (cur s)) = time_slice (tcbs s (cur s))"
    using arg_cong [OF s'(7), of total_ticks] arg_cong [OF s'(7), of this_tick] by simp_all
  with s' show ?thesis
    using assms(3,4) by (auto simp: intr_timer_handler_def running_thread_def Let_def)
qed

text \<open>The same operations with all they change, for the components that extend the state.\<close>

definition rest_kept :: "'a kernel_scheme \<Rightarrow> 'a kernel_scheme \<Rightarrow> bool" where
  "rest_kept s s' \<longleftrightarrow> thread_all_list s' = thread_all_list s \<and> idle_thread s' = idle_thread s \<and>
     main_thread s' = main_thread s \<and> ticks s' = ticks s \<and> kernel.more s' = kernel.more s \<and>
     (\<forall>t. pgdir (tcbs s' t) = pgdir (tcbs s t))"

lemma schedule_full:
  assumes "sched_wf s" "\<not> if_flag s"
  shows "\<exists>s'. schedule s = Inr s' \<and> sched_wf s' \<and> rest_kept s s' \<and> cur s' = next_thread s \<and>
    thread_ready_list s' = tl (run_queue s) \<and>
    (\<forall>t. t \<noteq> cur s \<longrightarrow> t \<noteq> cur s' \<longrightarrow> status (tcbs s' t) = status (tcbs s t))"
proof -
  note c = sched_wf_can_switch [OF assms(1)]
  obtain s' where s': "schedule s = Inr s'" "sched_wf s'" "cur s' = next_thread s"
      "thread_ready_list s' = tl (run_queue s)"
    using schedule_runs_next_aux [OF c assms(2)] by auto
  from schedule_eq [OF c assms(2)] s'(1)
  have eq: "thread_all_list s' = thread_all_list s" "idle_thread s' = idle_thread s"
      "main_thread s' = main_thread s" "kernel.more s' = kernel.more s" "ticks s' = ticks s"
    and st: "\<And>t. status (tcbs s' t) = (if t = next_thread s then TASK_RUNNING
        else if t = cur s \<and> status (tcbs s t) = TASK_RUNNING then TASK_READY else status (tcbs s t))"
    and tcb: "\<And>t. tcbs s' t = (tcbs s t)\<lparr>status := status (tcbs s' t),
       this_tick := (if t = cur s \<and> status (tcbs s t) = TASK_RUNNING then time_slice (tcbs s t)
                     else this_tick (tcbs s t))\<rparr>"
    by auto
  have "pgdir (tcbs s' t) = pgdir (tcbs s t)" for t
    using arg_cong [OF tcb [of t], of pgdir] by simp
  then show ?thesis using s' eq st by (auto simp: rest_kept_def)
qed

lemma thread_block_full:
  assumes "sched_wf s" "blocked_status st"
  shows "\<exists>s'. thread_block st s = Inr s' \<and> sched_wf s' \<and> rest_kept s s' \<and>
    cur s' = (if thread_ready_list s = [] then idle_thread s else hd (thread_ready_list s)) \<and>
    thread_ready_list s' = tl (thread_ready_list s) \<and>
    (cur s' \<noteq> cur s \<longrightarrow> status (tcbs s' (cur s)) = st) \<and>
    (\<forall>t. t \<noteq> cur s \<longrightarrow> t \<noteq> cur s' \<longrightarrow> status (tcbs s' t) = status (tcbs s t))"
proof -
  let ?s = "upd_tcb (cur s) (\<lambda>p. p\<lparr>status := st\<rparr>) (s\<lparr>if_flag := False\<rparr>)"
  have st: "st \<noteq> TASK_RUNNING" "st \<noteq> TASK_READY" "st \<noteq> TASK_DIED" using assms(2) by (auto simp: blocked_status_def)
  then have c: "can_switch ?s" "run_queue ?s = thread_ready_list s" "idle_thread ?s = idle_thread s"
      "cur ?s = cur s" "\<not> if_flag ?s"
    using assms(1) by (auto simp: thread_state_defs)
  obtain s' where s': "schedule ?s = Inr s'" "sched_wf s'" "cur s' = next_thread ?s"
      "thread_ready_list s' = tl (thread_ready_list s)"
    using schedule_runs_next_aux [OF c(1,5)] c(2) by auto
  from schedule_eq [OF c(1,5)] s'(1)
  have eq: "thread_all_list s' = thread_all_list s" "idle_thread s' = idle_thread s"
      "main_thread s' = main_thread s" "kernel.more s' = kernel.more s" "ticks s' = ticks s"
    and sts: "\<And>t. status (tcbs s' t) = (if t = next_thread ?s then TASK_RUNNING
        else if t = cur s \<and> status (tcbs ?s t) = TASK_RUNNING then TASK_READY else status (tcbs ?s t))"
    and tcb: "\<And>t. tcbs s' t = (tcbs ?s t)\<lparr>status := status (tcbs s' t),
       this_tick := (if t = cur s \<and> status (tcbs ?s t) = TASK_RUNNING then time_slice (tcbs ?s t)
                     else this_tick (tcbs ?s t))\<rparr>"
    by auto
  have "pgdir (tcbs s' t) = pgdir (tcbs s t)" for t
    using arg_cong [OF tcb [of t], of pgdir] by simp
  moreover have "thread_block st s = Inr s'"
    using assms(2) s'(1) by (simp add: thread_block_def intr_disable_eq running_thread_def)
  moreover have "next_thread ?s = (if thread_ready_list s = [] then idle_thread s else hd (thread_ready_list s))"
    using c by (simp add: next_thread_def)
  ultimately show ?thesis using s' eq sts st by (auto simp: rest_kept_def)
qed

lemma thread_unblock_full:
  assumes "sched_wf s" "t \<in> set (thread_all_list s)" "blocked_status (status (tcbs s t))"
  shows "\<exists>s'. thread_unblock t s = Inr s' \<and> sched_wf s' \<and> rest_kept s s' \<and> cur s' = cur s \<and>
    thread_ready_list s' = t # thread_ready_list s \<and> if_flag s' = if_flag s \<and>
    (\<forall>u. u \<noteq> t \<longrightarrow> status (tcbs s' u) = status (tcbs s u))"
proof -
  have t: "t \<noteq> cur s" "t \<notin> set (thread_ready_list s)"
    using assms by (auto simp: thread_state_defs blocked_status_def)
  then show ?thesis
    using thread_unblock_eq [OF assms(3)] assms by (auto simp: thread_state_defs rest_kept_def)
qed

section \<open>Round robin\<close>

text \<open>The threads in the order in which they get the CPU.\<close>

definition turn_order :: "'a kernel_scheme \<Rightarrow> addr list" where
  "turn_order s = cur s # thread_ready_list s"

lemma schedule_rotates:
  assumes "sched_wf s" "\<not> if_flag s"
  shows "\<exists>s'. schedule s = Inr s' \<and> sched_wf s' \<and> \<not> if_flag s' \<and> turn_order s' = rotate1 (turn_order s)"
proof -
  have "run_queue s = thread_ready_list s @ [cur s]" using assms(1) by (simp add: run_queue_def sched_wf_def)
  then show ?thesis
    using schedule_runs_next_aux [OF sched_wf_can_switch [OF assms(1)] assms(2)]
    by (cases "thread_ready_list s") (auto simp: turn_order_def next_thread_def)
qed


lemma ucast_minus_one:
  assumes "(k :: u8) \<noteq> 0" shows "ucast (k - 1) = (ucast k :: u32) - 1"
proof -
  have "unat (ucast k :: u32) \<noteq> 0" unfolding unat_ucast_widen using assms unat_eq_zero_iff by blast
  then have "(ucast k :: u32) \<noteq> 0" by (metis unsigned_0)
  then have "unat (ucast (k - 1) :: u32) = unat ((ucast k :: u32) - 1)"
    using assms by (simp add: unat_minus_one)
  then show ?thesis by (rule unsigned_word_eqI)
qed

lemma preemptions_rotate:
  assumes "sched_wf s" "\<not> if_flag s"
  shows "\<exists>s'. foldE (\<lambda>_. schedule) (replicate n ()) s = Inr s' \<and> sched_wf s' \<and> \<not> if_flag s' \<and>
    turn_order s' = rotate n (turn_order s)"
  using assms
proof (induction n arbitrary: s)
  case (Suc n)
  obtain s1 where "schedule s = Inr s1" "sched_wf s1" "\<not> if_flag s1" "turn_order s1 = rotate1 (turn_order s)"
    using schedule_rotates [OF Suc(2,3)] by auto
  with Suc.IH [of s1] show ?case by (auto simp: rotate1_rotate_swap)
qed auto

text \<open>
  C20. Round robin: while no thread blocks, the CPU goes round. After \<open>n\<close> preemptions the thread
  \<open>n\<close> places behind the current one runs, so among as many preemptions as there are threads able
  to run each of them gets the CPU once, and then the order is what it was.
\<close>

theorem round_robin:
  assumes "sched_wf s" "\<not> if_flag s"
  shows "\<exists>s'. foldE (\<lambda>_. schedule) (replicate n ()) s = Inr s' \<and> sched_wf s' \<and>
    cur s' = turn_order s ! (n mod length (turn_order s)) \<and>
    (n = length (turn_order s) \<longrightarrow> turn_order s' = turn_order s)"
proof -
  obtain s' where s': "foldE (\<lambda>_. schedule) (replicate n ()) s = Inr s'" "sched_wf s'"
      "turn_order s' = rotate n (turn_order s)"
    using preemptions_rotate [OF assms] by blast
  have ne: "turn_order s \<noteq> []" by (simp add: turn_order_def)
  have "cur s' = hd (turn_order s')" by (simp add: turn_order_def)
  also have "\<dots> = turn_order s ! (n mod length (turn_order s))"
    using ne by (simp add: s'(3) hd_rotate_conv_nth)
  finally show ?thesis using s' by auto
qed

text \<open>
  C31. A thread keeps the CPU for as many timer interrupts as its remaining ticks and loses it at
  the next one to the head of the queue; each interrupt is counted for it and for the system, and
  its slice is filled again.
\<close>

theorem time_slice_expires:
  assumes "sched_wf s" "\<not> if_flag s" "stack_magic (tcbs s (cur s)) = 0x20010107"
  shows "\<exists>s1 s2. foldE (\<lambda>_. intr_timer_handler) (replicate (unat (this_tick (tcbs s (cur s)))) ()) s = Inr s1 \<and>
    cur s1 = cur s \<and> intr_timer_handler s1 = Inr s2 \<and> sched_wf s2 \<and> cur s2 = next_thread s \<and>
    this_tick (tcbs s2 (cur s)) = time_slice (tcbs s (cur s)) \<and>
    total_ticks (tcbs s2 (cur s)) = total_ticks (tcbs s (cur s)) + ucast (this_tick (tcbs s (cur s))) + 1 \<and>
    ticks s2 = ticks s + ucast (this_tick (tcbs s (cur s))) + 1"
  using assms
proof (induction "unat (this_tick (tcbs s (cur s)))" arbitrary: s)
  case 0
  then have "this_tick (tcbs s (cur s)) = 0" by (metis unat_eq_zero_iff)
  with timer_expired_eq [OF 0(2-4)] show ?case by auto
next
  case (Suc n)
  let ?k = "this_tick (tcbs s (cur s))"
  have k: "?k \<noteq> 0" using Suc(2) by auto
  obtain s' where s': "intr_timer_handler s = Inr s'" "sched_wf s'" "cur s' = cur s"
      "thread_ready_list s' = thread_ready_list s" "if_flag s' = if_flag s" "ticks s' = ticks s + 1"
      "idle_thread s' = idle_thread s" "tcbs s' = (tcbs s)(cur s := (tcbs s (cur s))
       \<lparr>total_ticks := total_ticks (tcbs s (cur s)) + 1, this_tick := ?k - 1\<rparr>)"
    using timer_tick_eq [OF Suc(3,5) k] by auto
  have n: "n = unat (this_tick (tcbs s' (cur s')))"
    using Suc(2) k by (simp add: s' unat_minus_one)
  have nxt: "next_thread s' = next_thread s"
    using Suc(3) s'(2,3,4,7) by (simp add: next_thread_def run_queue_def sched_wf_def)
  have u: "ucast (?k - 1) = (ucast ?k :: u32) - 1"
    by (rule ucast_minus_one [OF k])
  have "\<not> if_flag s'" "stack_magic (tcbs s' (cur s')) = 0x20010107" using Suc(4,5) s' by simp_all
  from Suc(1) [OF n s'(2) this] show ?case
    unfolding n [symmetric] Suc(2) [symmetric]
    by (auto simp: s' nxt u algebra_simps)
qed

section \<open>A concrete state\<close>

definition zero_tcb :: task_struct where
  "zero_tcb = \<lparr>self_kstack = 0, pid = 0, parent_pid = 0, status = TASK_RUNNING,
     task_name = replicate TASK_NAME_LEN 0, time_slice = 0, this_tick = 0, total_ticks = 0,
     fd_table = replicate MAX_FILE_OPEN_PER_PROC 0, pgdir = 0,
     userprog_vaddr = \<lparr>vaddr_bitmap = \<lparr>btmp_byte_len = 0, bits = []\<rparr>, vaddr_start = 0\<rparr>,
     u_block_desc = replicate MEM_UNIT_CNT \<lparr>block_size = 0, blocks_per_arena = 0, free_list = []\<rparr>,
     cwd_inode_no = 0, exit_status = 0, stack_magic = 0\<rparr>"

text \<open>Three kernel threads: 1 runs, 2 is ready, 3 is the idle thread, blocked.\<close>

definition three_threads :: kernel where
  "three_threads = \<lparr>if_flag = False,
     tcbs = (\<lambda>t. zero_tcb\<lparr>status := (if t = 1 then TASK_RUNNING else if t = 2 then TASK_READY else TASK_BLOCKED),
                time_slice := 3, this_tick := 2, stack_magic := 0x20010107\<rparr>),
     thread_ready_list = [2], thread_all_list = [1, 2, 3], cur = 1, main_thread = 1, idle_thread = 3,
     ticks = 0, v2p = id, cr3 = 0, tss_esp0 = 0\<rparr>"

lemma three_threads_wf: "sched_wf three_threads" "\<not> if_flag three_threads" "can_switch three_threads"
  by (simp_all add: three_threads_def thread_state_defs blocked_status_def)

lemma schedule_runs_next_witness:
  "\<exists>s'. schedule three_threads = Inr s' \<and> cur s' = 2 \<and> thread_ready_list s' = [1]"
  using schedule_runs_next [OF three_threads_wf(3,2)]
  by (auto simp: three_threads_def next_thread_def run_queue_def)

lemma round_robin_witness:
  "\<exists>s'. foldE (\<lambda>_. schedule) (replicate 1 ()) three_threads = Inr s' \<and> cur s' = 2"
  using round_robin [OF three_threads_wf(1,2), of 1] by (auto simp: three_threads_def turn_order_def)

lemma time_slice_expires_witness:
  "\<exists>s1 s2. foldE (\<lambda>_. intr_timer_handler) (replicate 2 ()) three_threads = Inr s1 \<and> cur s1 = 1 \<and>
     intr_timer_handler s1 = Inr s2 \<and> cur s2 = 2 \<and> ticks s2 = 3"
  using time_slice_expires [OF three_threads_wf(1,2)]
  by (auto simp: three_threads_def next_thread_def run_queue_def zero_tcb_def)

end
