(* ===== verification/Sync.thy ===== *)
theory Sync
  imports Scheduler
begin

text \<open>
  Semaphores and mutexes (\<open>thread/sync.c\<close>). First the operations as one thread executes them:
  \<open>sema_down_pass\<close> is one round of the waiting loop, which either takes the semaphore or queues the
  thread and gives up the CPU. Then the mutex as a system: a step relation interleaves threads that
  acquire and release it, are preempted, block and wake up, at the grain at which interrupts are
  masked, and the invariant of its reachable states gives mutual exclusion, no failing assertion
  and no lost wake-up.
\<close>

section \<open>Operations\<close>

record semaphore =
  sema_value :: u8
  waiters :: "addr list"

record mutex =
  holder :: addr
  mutex_sema :: semaphore
  holder_repeat_nr :: u32

definition sema_init :: "u8 \<Rightarrow> semaphore" where
  "sema_init v = \<lparr>sema_value = v, waiters = []\<rparr>"

text \<open>
  One round of the loop, with interrupts already off: \<open>True\<close> if the semaphore was taken, \<open>False\<close>
  if the thread went to sleep (the CPU is then another thread's, and this one repeats the round
  when it runs again).
\<close>

definition sema_down_pass ::
  "intr_status \<Rightarrow> semaphore \<Rightarrow> 'a kernel_scheme \<Rightarrow> (bool \<times> semaphore \<times> 'a kernel_scheme) res" where
  "sema_down_pass old_status sema s =
     (let me = running_thread s in
      if sema_value sema = 0 then
        asserting (me \<notin> set (waiters sema))
        (if me \<in> set (waiters sema) then Inl Panicked
         else bindE (thread_block TASK_BLOCKED s) (\<lambda>s.
           Inr (False, sema\<lparr>waiters := waiters sema @ [me]\<rparr>, s)))
      else
        let sema = sema\<lparr>sema_value := sema_value sema - 1\<rparr> in
        asserting (sema_value sema = 0) (Inr (True, sema, intr_set_status old_status s)))"

text \<open>The call as a single thread sees it when it need not wait; otherwise it would block.\<close>

definition sema_down :: "semaphore \<Rightarrow> 'a kernel_scheme \<Rightarrow> (semaphore \<times> 'a kernel_scheme) res" where
  "sema_down sema s =
     (case intr_disable s of (old_status, s) \<Rightarrow>
      bindE (sema_down_pass old_status sema s) (\<lambda>(got, sema, s).
        if got then Inr (sema, s) else Inl Would_block))"

definition sema_up :: "semaphore \<Rightarrow> 'a kernel_scheme \<Rightarrow> (semaphore \<times> 'a kernel_scheme) res" where
  "sema_up sema s =
     (case intr_disable s of (old_status, s) \<Rightarrow>
      asserting (sema_value sema = 0)
      (bindE
        (if waiters sema \<noteq> [] then
           bindE (thread_unblock (hd (waiters sema)) s) (\<lambda>s.
             Inr (sema\<lparr>waiters := tl (waiters sema)\<rparr>, s))
         else Inr (sema, s))
        (\<lambda>(sema, s).
          let sema = sema\<lparr>sema_value := sema_value sema + 1\<rparr> in
          asserting (sema_value sema = 1) (Inr (sema, intr_set_status old_status s)))))"

definition mutex_init :: mutex where
  "mutex_init = \<lparr>holder = NULL, mutex_sema = sema_init 1, holder_repeat_nr = 0\<rparr>"

definition mutex_acquire :: "mutex \<Rightarrow> 'a kernel_scheme \<Rightarrow> (mutex \<times> 'a kernel_scheme) res" where
  "mutex_acquire m s =
     (if holder m \<noteq> running_thread s then
        bindE (sema_down (mutex_sema m) s) (\<lambda>(sema, s).
          let m = m\<lparr>mutex_sema := sema, holder := running_thread s\<rparr> in
          asserting (holder_repeat_nr m = 0) (Inr (m\<lparr>holder_repeat_nr := 1\<rparr>, s)))
      else Inr (m\<lparr>holder_repeat_nr := holder_repeat_nr m + 1\<rparr>, s))"

definition mutex_release :: "mutex \<Rightarrow> 'a kernel_scheme \<Rightarrow> (mutex \<times> 'a kernel_scheme) res" where
  "mutex_release m s =
     asserting (holder m = running_thread s)
     (if holder_repeat_nr m > 1 then Inr (m\<lparr>holder_repeat_nr := holder_repeat_nr m - 1\<rparr>, s)
      else asserting (holder_repeat_nr m = 1)
        (let m = m\<lparr>holder := NULL, holder_repeat_nr := 0\<rparr> in
         bindE (sema_up (mutex_sema m) s) (\<lambda>(sema, s). Inr (m\<lparr>mutex_sema := sema\<rparr>, s))))"

text \<open>Used by one thread at a time, a mutex is taken and given back.\<close>

definition mutex_free :: "mutex \<Rightarrow> bool" where
  "mutex_free m \<longleftrightarrow> m = mutex_init"

lemma mutex_acquire_free:
  assumes "mutex_free m" "cur s \<noteq> NULL"
  shows "mutex_acquire m s = Inr (\<lparr>holder = cur s, mutex_sema = \<lparr>sema_value = 0, waiters = []\<rparr>,
     holder_repeat_nr = 1\<rparr>, s)"
  using assms
  by (auto simp: mutex_free_def mutex_acquire_def mutex_init_def sema_init_def sema_down_def
      sema_down_pass_def intr_disable_eq intr_set_status_eq running_thread_def Let_def)

lemma mutex_release_held:
  assumes "holder m = cur s" "holder_repeat_nr m = 1" "mutex_sema m = \<lparr>sema_value = 0, waiters = []\<rparr>"
  shows "mutex_release m s = Inr (mutex_init, s)"
  using assms
  by (cases m) (auto simp: mutex_release_def mutex_init_def sema_init_def sema_up_def
      intr_disable_eq intr_set_status_eq running_thread_def Let_def)

section \<open>A mutex shared by threads\<close>

text \<open>
  Where a thread is in its use of the mutex: outside the two functions, in the waiting loop of
  \<open>sema_down\<close> (with the interrupt status it will restore), back from \<open>sema_down\<close> but not yet the
  holder, or no longer the holder but still to call \<open>sema_up\<close>.
\<close>

datatype phase = Outside | Waiting intr_status | Got | Releasing

record locked = kernel +
  lock :: mutex
  phase_of :: "addr \<Rightarrow> phase"

text \<open>
  After a switch the new thread runs with interrupts off if it is in the waiting loop, and
  otherwise returns from the interrupt or the blocking call that took the CPU from it.
\<close>

definition switch_in :: "locked \<Rightarrow> locked" where
  "switch_in s = s\<lparr>if_flag := (case phase_of s (cur s) of Waiting _ \<Rightarrow> False | _ \<Rightarrow> True)\<rparr>"

definition set_phase :: "phase \<Rightarrow> addr \<Rightarrow> locked \<Rightarrow> locked" where
  "set_phase ph t s = s\<lparr>phase_of := (phase_of s)(t := ph)\<rparr>"

definition set_sema :: "semaphore \<Rightarrow> locked \<Rightarrow> locked" where
  "set_sema sema s = s\<lparr>lock := (lock s)\<lparr>mutex_sema := sema\<rparr>\<rparr>"

text \<open>A round of the loop by the current thread.\<close>

definition down_round :: "intr_status \<Rightarrow> locked \<Rightarrow> locked res" where
  "down_round old_status s =
     (let me = running_thread s in
      bindE (sema_down_pass old_status (mutex_sema (lock s)) s) (\<lambda>(got, sema, s).
        Inr (if got then set_phase Got me (set_sema sema s)
             else switch_in (set_phase (Waiting old_status) me (set_sema sema s)))))"

inductive lock_step :: "locked \<Rightarrow> locked res \<Rightarrow> bool" where
  acquire_again: "lock_step s (Inr (s\<lparr>lock := (lock s)\<lparr>holder_repeat_nr := holder_repeat_nr (lock s) + 1\<rparr>\<rparr>))"
    if "phase_of s (cur s) = Outside" "holder (lock s) = cur s" "holder_repeat_nr (lock s) + 1 \<noteq> 0"
| acquire_begin: "lock_step s (down_round (fst (intr_disable s)) (snd (intr_disable s)))"
    if "phase_of s (cur s) = Outside" "holder (lock s) \<noteq> cur s" "cur s \<noteq> idle_thread s"
| resume: "lock_step s (down_round old_status s)"
    if "phase_of s (cur s) = Waiting old_status"
| acquire_end: "lock_step s
      (let m = (lock s)\<lparr>holder := cur s\<rparr> in
       asserting (holder_repeat_nr m = 0)
         (Inr (set_phase Outside (cur s) (s\<lparr>lock := m\<lparr>holder_repeat_nr := 1\<rparr>\<rparr>))))"
    if "phase_of s (cur s) = Got"
| release_inner: "lock_step s (Inr (s\<lparr>lock := (lock s)\<lparr>holder_repeat_nr := holder_repeat_nr (lock s) - 1\<rparr>\<rparr>))"
    if "phase_of s (cur s) = Outside" "holder (lock s) = cur s" "holder_repeat_nr (lock s) > 1"
| release_begin: "lock_step s
      (asserting (holder_repeat_nr (lock s) = 1)
        (Inr (set_phase Releasing (cur s) (s\<lparr>lock := (lock s)\<lparr>holder := NULL, holder_repeat_nr := 0\<rparr>\<rparr>))))"
    if "phase_of s (cur s) = Outside" "holder (lock s) = cur s" "\<not> holder_repeat_nr (lock s) > 1"
| release_end: "lock_step s
      (bindE (sema_up (mutex_sema (lock s)) s) (\<lambda>(sema, s'). Inr (set_phase Outside (cur s) (set_sema sema s'))))"
    if "phase_of s (cur s) = Releasing"
| preempt: "lock_step s (bindE (schedule (s\<lparr>if_flag := False\<rparr>)) (\<lambda>s'. Inr (switch_in s')))"
    if "if_flag s"
| block_elsewhere: "lock_step s (bindE (thread_block st s) (\<lambda>s'. Inr (switch_in s')))"
    if "phase_of s (cur s) = Outside" "blocked_status st"
| wake_elsewhere: "lock_step s (thread_unblock t s)"
    if "t \<in> set (thread_all_list s)" "blocked_status (status (tcbs s t))" "phase_of s t = Outside"

text \<open>The states reached from a free mutex that nobody is using.\<close>

definition unused :: "locked \<Rightarrow> bool" where
  "unused s \<longleftrightarrow> sched_wf s \<and> lock s = mutex_init \<and> (\<forall>t. phase_of s t = Outside)"

inductive reachable :: "locked \<Rightarrow> bool" where
  start: "reachable s" if "unused s"
| step: "reachable s'" if "reachable s" "lock_step s (Inr s')"

text \<open>A thread owns the mutex from its return from \<open>sema_down\<close> to its call of \<open>sema_up\<close>.\<close>

definition owns :: "locked \<Rightarrow> addr \<Rightarrow> bool" where
  "owns s t \<longleftrightarrow> phase_of s t = Got \<or> phase_of s t = Releasing \<or>
     phase_of s t = Outside \<and> t \<noteq> NULL \<and> holder (lock s) = t"

definition is_waiting :: "locked \<Rightarrow> addr \<Rightarrow> bool" where
  "is_waiting s t \<longleftrightarrow> (\<exists>old. phase_of s t = Waiting old)"

definition lock_inv :: "locked \<Rightarrow> bool" where
  "lock_inv s \<longleftrightarrow> sched_wf s \<and>
     (let q = waiters (mutex_sema (lock s)); v = sema_value (mutex_sema (lock s)) in
      (v = 0 \<or> v = 1) \<and>
      (\<forall>t t'. owns s t \<longrightarrow> owns s t' \<longrightarrow> t = t') \<and>
      (v = 0 \<longleftrightarrow> (\<exists>t. owns s t)) \<and>
      (holder (lock s) \<noteq> NULL \<longrightarrow> phase_of s (holder (lock s)) = Outside) \<and>
      (holder (lock s) = NULL \<longleftrightarrow> holder_repeat_nr (lock s) = 0) \<and>
      distinct q \<and> set q \<subseteq> set (thread_all_list s) \<and> idle_thread s \<notin> set q \<and>
      phase_of s (idle_thread s) = Outside \<and> holder (lock s) \<noteq> idle_thread s \<and>
      (\<forall>t \<in> set q. is_waiting s t \<and> t \<noteq> cur s \<and> t \<notin> set (thread_ready_list s) \<and>
         status (tcbs s t) = TASK_BLOCKED) \<and>
      (\<forall>t. is_waiting s t \<longrightarrow> t \<in> set q \<or> t \<in> set (thread_ready_list s) \<or> t = cur s) \<and>
      (q \<noteq> [] \<longrightarrow> v = 1 \<longrightarrow> (\<exists>t. is_waiting s t \<and> t \<notin> set q)))"


abbreviation queue :: "locked \<Rightarrow> addr list" where "queue s \<equiv> waiters (mutex_sema (lock s))"
abbreviation count :: "locked \<Rightarrow> u8" where "count s \<equiv> sema_value (mutex_sema (lock s))"

lemma more_eq:
  assumes "kernel.more s' = kernel.more s" shows "lock s' = lock s" "phase_of s' = phase_of s"
  using assms by (cases s; cases s'; simp)+

lemma lock_invD:
  assumes "lock_inv s"
  shows "sched_wf s" "count s = 0 \<or> count s = 1"
    "\<And>t t'. owns s t \<Longrightarrow> owns s t' \<Longrightarrow> t = t'" "count s = 0 \<longleftrightarrow> (\<exists>t. owns s t)"
    "holder (lock s) \<noteq> NULL \<Longrightarrow> phase_of s (holder (lock s)) = Outside"
    "holder (lock s) = NULL \<longleftrightarrow> holder_repeat_nr (lock s) = 0"
    "distinct (queue s)" "set (queue s) \<subseteq> set (thread_all_list s)" "idle_thread s \<notin> set (queue s)"
    "phase_of s (idle_thread s) = Outside \<and> holder (lock s) \<noteq> idle_thread s"
    "\<And>t. t \<in> set (queue s) \<Longrightarrow> is_waiting s t \<and> t \<noteq> cur s \<and> t \<notin> set (thread_ready_list s) \<and>
         status (tcbs s t) = TASK_BLOCKED"
    "\<And>t. is_waiting s t \<Longrightarrow> t \<in> set (queue s) \<or> t \<in> set (thread_ready_list s) \<or> t = cur s"
    "queue s \<noteq> [] \<Longrightarrow> count s = 1 \<Longrightarrow> \<exists>t. is_waiting s t \<and> t \<notin> set (queue s)"
  using assms unfolding lock_inv_def Let_def by blast+

lemma lock_invI:
  assumes "sched_wf s" "count s = 0 \<or> count s = 1"
    "\<And>t t'. owns s t \<Longrightarrow> owns s t' \<Longrightarrow> t = t'" "count s = 0 \<longleftrightarrow> (\<exists>t. owns s t)"
    "holder (lock s) \<noteq> NULL \<Longrightarrow> phase_of s (holder (lock s)) = Outside"
    "holder (lock s) = NULL \<longleftrightarrow> holder_repeat_nr (lock s) = 0"
    "distinct (queue s)" "set (queue s) \<subseteq> set (thread_all_list s)" "idle_thread s \<notin> set (queue s)"
    "phase_of s (idle_thread s) = Outside \<and> holder (lock s) \<noteq> idle_thread s"
    "\<And>t. t \<in> set (queue s) \<Longrightarrow> is_waiting s t \<and> t \<noteq> cur s \<and> t \<notin> set (thread_ready_list s) \<and>
         status (tcbs s t) = TASK_BLOCKED"
    "\<And>t. is_waiting s t \<Longrightarrow> t \<in> set (queue s) \<or> t \<in> set (thread_ready_list s) \<or> t = cur s"
    "queue s \<noteq> [] \<Longrightarrow> count s = 1 \<Longrightarrow> \<exists>t. is_waiting s t \<and> t \<notin> set (queue s)"
  shows "lock_inv s"
  using assms unfolding lock_inv_def Let_def by (intro conjI) blast+

lemma if_flag_irrelevant [simp]: "lock_inv (s\<lparr>if_flag := b\<rparr>) \<longleftrightarrow> lock_inv s"
  by (simp add: lock_inv_def owns_def is_waiting_def)

lemma switch_in_inv [simp]: "lock_inv (switch_in s) \<longleftrightarrow> lock_inv s"
  by (simp add: switch_in_def)

text \<open>A switch or a wake-up that leaves the mutex alone keeps the invariant.\<close>

lemma lock_inv_switch:
  assumes inv: "lock_inv s" and wf: "sched_wf s'"
    and same: "lock s' = lock s" "phase_of s' = phase_of s" "thread_all_list s' = thread_all_list s"
      "idle_thread s' = idle_thread s"
    and runs: "\<And>t. t \<in> set (thread_ready_list s') \<or> t = cur s' \<Longrightarrow>
      t \<in> set (thread_ready_list s) \<or> t = cur s \<or> phase_of s t = Outside"
    and keeps: "\<And>t. is_waiting s t \<Longrightarrow> t \<in> set (thread_ready_list s) \<or> t = cur s \<Longrightarrow>
      t \<in> set (thread_ready_list s') \<or> t = cur s'"
    and stat: "\<And>t. t \<in> set (queue s) \<Longrightarrow> status (tcbs s' t) = status (tcbs s t)"
  shows "lock_inv s'"
proof -
  note d = lock_invD [OF inv]
  have o: "owns s' t = owns s t" "is_waiting s' t = is_waiting s t" for t
    by (simp_all add: owns_def is_waiting_def same)
  have w: "t \<in> set (queue s) \<Longrightarrow> phase_of s t \<noteq> Outside" for t
    using d(11) [of t] by (auto simp: is_waiting_def)
  show ?thesis
  proof (rule lock_invI)
    show "is_waiting s' t \<and> t \<noteq> cur s' \<and> t \<notin> set (thread_ready_list s') \<and> status (tcbs s' t) = TASK_BLOCKED"
      if "t \<in> set (queue s')" for t
      using that d(11) [of t] runs [of t] w [of t] stat [of t] by (auto simp: same o)
    show "t \<in> set (queue s') \<or> t \<in> set (thread_ready_list s') \<or> t = cur s'" if "is_waiting s' t" for t
      using that d(12) [of t] keeps [of t] by (auto simp: same o)
  qed (use wf d in \<open>simp_all add: same o\<close>)
qed

lemma preempt_ok:
  assumes "lock_inv s"
  shows "\<exists>s'. schedule (s\<lparr>if_flag := False\<rparr>) = Inr s' \<and> lock_inv s'"
proof -
  let ?s = "s\<lparr>if_flag := False\<rparr>"
  have wf: "sched_wf ?s" using lock_invD(1) [OF assms] by simp
  have inv: "lock_inv ?s" using assms by simp
  obtain s' where s': "schedule ?s = Inr s'" "sched_wf s'" "rest_kept ?s s'" "cur s' = next_thread ?s"
      "thread_ready_list s' = tl (run_queue ?s)"
      "\<And>t. t \<noteq> cur ?s \<Longrightarrow> t \<noteq> cur s' \<Longrightarrow> status (tcbs s' t) = status (tcbs ?s t)"
    using schedule_full [OF wf] by auto
  have q: "run_queue ?s = thread_ready_list s @ [cur s]" using wf by (simp add: run_queue_def sched_wf_def)
  have runs: "t \<in> set (thread_ready_list s') \<or> t = cur s' \<longleftrightarrow> t \<in> set (thread_ready_list s) \<or> t = cur s" for t
    using s'(4,5) q by (cases "thread_ready_list s") (auto simp: next_thread_def)
  have k: "kernel.more s' = kernel.more ?s" using s'(3) by (simp add: rest_kept_def)
  have "lock_inv s'"
  proof (rule lock_inv_switch [OF inv s'(2)])
    show "status (tcbs s' t) = status (tcbs ?s t)" if "t \<in> set (queue ?s)" for t
      using lock_invD(11) [OF inv that] runs [of t] s'(6) [of t] by auto
  qed (use more_eq [OF k] s'(3) runs in \<open>auto simp: rest_kept_def\<close>)
  with s'(1) show ?thesis by blast
qed

lemma block_elsewhere_ok:
  assumes "lock_inv s" "phase_of s (cur s) = Outside" "blocked_status st"
  shows "\<exists>s'. thread_block st s = Inr s' \<and> lock_inv s'"
proof -
  note d = lock_invD [OF assms(1)]
  obtain s' where s': "thread_block st s = Inr s'" "sched_wf s'" "rest_kept s s'"
      "cur s' = (if thread_ready_list s = [] then idle_thread s else hd (thread_ready_list s))"
      "thread_ready_list s' = tl (thread_ready_list s)"
      "\<And>t. t \<noteq> cur s \<Longrightarrow> t \<noteq> cur s' \<Longrightarrow> status (tcbs s' t) = status (tcbs s t)"
    using thread_block_full [OF d(1) assms(3)] by auto
  have runs: "t \<in> set (thread_ready_list s') \<or> t = cur s' \<longleftrightarrow>
      t \<in> set (thread_ready_list s) \<or> thread_ready_list s = [] \<and> t = idle_thread s" for t
    using s'(4,5) by (cases "thread_ready_list s") auto
  have k: "kernel.more s' = kernel.more s" using s'(3) by (simp add: rest_kept_def)
  have "lock_inv s'"
  proof (rule lock_inv_switch [OF assms(1) s'(2)])
    show "status (tcbs s' t) = status (tcbs s t)" if "t \<in> set (queue s)" for t
      using d(11) [OF that] d(9) that runs [of t] s'(6) [of t] by auto
    show "t \<in> set (thread_ready_list s') \<or> t = cur s'"
      if "is_waiting s t" "t \<in> set (thread_ready_list s) \<or> t = cur s" for t
      using that assms(2) runs [of t] by (auto simp: is_waiting_def)
  qed (use more_eq [OF k] s'(3) runs d(10) in \<open>auto simp: rest_kept_def\<close>)
  with s'(1) show ?thesis by blast
qed

lemma wake_elsewhere_ok:
  assumes "lock_inv s" "t \<in> set (thread_all_list s)" "blocked_status (status (tcbs s t))" "phase_of s t = Outside"
  shows "\<exists>s'. thread_unblock t s = Inr s' \<and> lock_inv s'"
proof -
  note d = lock_invD [OF assms(1)]
  obtain s' where s': "thread_unblock t s = Inr s'" "sched_wf s'" "rest_kept s s'" "cur s' = cur s"
      "thread_ready_list s' = t # thread_ready_list s"
      "\<And>u. u \<noteq> t \<Longrightarrow> status (tcbs s' u) = status (tcbs s u)"
    using thread_unblock_full [OF d(1) assms(2,3)] by auto
  have k: "kernel.more s' = kernel.more s" using s'(3) by (simp add: rest_kept_def)
  have "lock_inv s'"
  proof (rule lock_inv_switch [OF assms(1) s'(2)])
    show "status (tcbs s' u) = status (tcbs s u)" if "u \<in> set (queue s)" for u
      using d(11) [OF that] assms(4) s'(6) [of u] by (cases "u = t") (auto simp: is_waiting_def)
  qed (use more_eq [OF k] s'(3,4,5) assms(4) in \<open>auto simp: rest_kept_def\<close>)
  with s'(1) show ?thesis by blast
qed


lemma is_waiting_set_phase:
  "is_waiting (set_phase ph t s) u \<longleftrightarrow> (if u = t then (\<exists>old. ph = Waiting old) else is_waiting s u)"
  by (simp add: is_waiting_def set_phase_def)

lemma set_simps [simp]:
  "lock (set_phase ph t s) = lock s" "cur (set_phase ph t s) = cur s"
  "thread_ready_list (set_phase ph t s) = thread_ready_list s" "tcbs (set_phase ph t s) = tcbs s"
  "thread_all_list (set_phase ph t s) = thread_all_list s" "idle_thread (set_phase ph t s) = idle_thread s"
  "phase_of (set_phase ph t s) = (phase_of s)(t := ph)"
  "lock (set_sema sema s) = (lock s)\<lparr>mutex_sema := sema\<rparr>" "cur (set_sema sema s) = cur s"
  "thread_ready_list (set_sema sema s) = thread_ready_list s" "tcbs (set_sema sema s) = tcbs s"
  "thread_all_list (set_sema sema s) = thread_all_list s" "idle_thread (set_sema sema s) = idle_thread s"
  "phase_of (set_sema sema s) = phase_of s"
  by (simp_all add: set_phase_def set_sema_def)

lemma sched_wf_irrelevant:
  "tcbs s' = tcbs s \<Longrightarrow> thread_ready_list s' = thread_ready_list s \<Longrightarrow>
   thread_all_list s' = thread_all_list s \<Longrightarrow> cur s' = cur s \<Longrightarrow> idle_thread s' = idle_thread s \<Longrightarrow>
   sched_wf s' = sched_wf s"
  by (simp add: thread_state_defs)

text \<open>A step of the current thread that stays on the CPU and does not touch the queue.\<close>

lemma lock_inv_own_step:
  assumes inv: "lock_inv s" and ph: "\<forall>old. ph \<noteq> Waiting old" "cur s = idle_thread s \<Longrightarrow> ph = Outside"
    and same: "tcbs s' = tcbs s" "thread_ready_list s' = thread_ready_list s"
      "thread_all_list s' = thread_all_list s" "cur s' = cur s" "idle_thread s' = idle_thread s"
      "phase_of s' = (phase_of s)(cur s := ph)" "queue s' = queue s"
    and own: "count s' = 0 \<or> count s' = 1" "\<And>t t'. owns s' t \<Longrightarrow> owns s' t' \<Longrightarrow> t = t'"
      "count s' = 0 \<longleftrightarrow> (\<exists>t. owns s' t)" "holder (lock s') \<noteq> NULL \<Longrightarrow> phase_of s' (holder (lock s')) = Outside"
      "holder (lock s') = NULL \<longleftrightarrow> holder_repeat_nr (lock s') = 0" "holder (lock s') \<noteq> idle_thread s"
      "count s' = 0 \<or> count s' = count s \<and> \<not> is_waiting s (cur s)"
  shows "lock_inv s'"
proof -
  note d = lock_invD [OF inv]
  have w: "is_waiting s' t \<longleftrightarrow> t \<noteq> cur s \<and> is_waiting s t" for t
    using ph(1) by (simp add: is_waiting_def same)
  show ?thesis
  proof (rule lock_invI)
    show "sched_wf s'" using d(1) sched_wf_irrelevant [of s' s] by (simp add: same)
    show "is_waiting s' t \<and> t \<noteq> cur s' \<and> t \<notin> set (thread_ready_list s') \<and> status (tcbs s' t) = TASK_BLOCKED"
      if "t \<in> set (queue s')" for t
      using that d(11) [of t] by (auto simp: w same)
    show "t \<in> set (queue s') \<or> t \<in> set (thread_ready_list s') \<or> t = cur s'" if "is_waiting s' t" for t
      using that d(12) [of t] by (auto simp: w same)
    show "\<exists>t. is_waiting s' t \<and> t \<notin> set (queue s')" if "queue s' \<noteq> []" "count s' = 1"
    proof -
      have "count s = 1" "\<not> is_waiting s (cur s)" using own(7) that by auto
      moreover have "queue s \<noteq> []" using that(1) same(7) by simp
      ultimately obtain t where "is_waiting s t" "t \<notin> set (queue s)" using d(13) by blast
      then show ?thesis using \<open>\<not> is_waiting s (cur s)\<close> unfolding w same(7) by metis
    qed
    show "phase_of s' (idle_thread s') = Outside \<and> holder (lock s') \<noteq> idle_thread s'"
      using d(10) ph(2) own(6) by (auto simp: same)
    show "distinct (queue s')" "set (queue s') \<subseteq> set (thread_all_list s')"
      "idle_thread s' \<notin> set (queue s')"
      using d(7,8,9) by (simp_all add: same)
  qed (fact own)+
qed

text \<open>The three conclusions about one round of the waiting loop.\<close>

lemma down_round_ok:
  assumes inv: "lock_inv s" and no: "\<not> owns s (cur s)" and idle: "cur s \<noteq> idle_thread s"
  shows "\<exists>s'. down_round old s = Inr s' \<and> lock_inv s'"
proof (cases "count s = 0")
  case True
  note d = lock_invD [OF inv]
  obtain s1 where s1: "thread_block TASK_BLOCKED s = Inr s1" "sched_wf s1" "rest_kept s s1"
      "cur s1 = (if thread_ready_list s = [] then idle_thread s else hd (thread_ready_list s))"
      "thread_ready_list s1 = tl (thread_ready_list s)"
      "cur s1 \<noteq> cur s \<Longrightarrow> status (tcbs s1 (cur s)) = TASK_BLOCKED"
      "\<And>t. t \<noteq> cur s \<Longrightarrow> t \<noteq> cur s1 \<Longrightarrow> status (tcbs s1 t) = status (tcbs s t)"
    using thread_block_full [OF d(1), of TASK_BLOCKED] by (auto simp: blocked_status_def)
  have k: "kernel.more s1 = kernel.more s" using s1(3) by (simp add: rest_kept_def)
  note m = more_eq [OF k]
  have cq: "cur s \<notin> set (queue s)" using d(11) by blast
  have cr: "cur s \<notin> set (thread_ready_list s)" using d(1) by (simp add: sched_wf_def)
  have runs: "t \<in> set (thread_ready_list s1) \<or> t = cur s1 \<longleftrightarrow>
      t \<in> set (thread_ready_list s) \<or> thread_ready_list s = [] \<and> t = idle_thread s" for t
    using s1(4,5) by (cases "thread_ready_list s") auto
  have moved: "cur s1 \<noteq> cur s" "cur s \<notin> set (thread_ready_list s1)" using runs [of "cur s"] cr idle by auto
  let ?sema = "(mutex_sema (lock s))\<lparr>waiters := queue s @ [cur s]\<rparr>"
  let ?s2 = "set_phase (Waiting old) (cur s) (set_sema ?sema s1)"
  have eq: "down_round old s = Inr (switch_in ?s2)"
    using True cq s1(1) by (simp add: down_round_def sema_down_pass_def running_thread_def)
  have o: "owns ?s2 t \<longleftrightarrow> owns s t" for t
    using no m by (auto simp: owns_def)
  have "lock_inv ?s2"
  proof (rule lock_invI)
    show "sched_wf ?s2" using s1(2) sched_wf_irrelevant [of ?s2 s1] by simp
    show "is_waiting ?s2 t \<and> t \<noteq> cur ?s2 \<and> t \<notin> set (thread_ready_list ?s2) \<and> status (tcbs ?s2 t) = TASK_BLOCKED"
      if "t \<in> set (queue ?s2)" for t
    proof (cases "t = cur s")
      case True
      then show ?thesis using moved s1(6) by (simp add: is_waiting_set_phase)
    next
      case False
      then have t: "t \<in> set (queue s)" using that by simp
      from d(11) [OF t] d(9) t runs [of t] s1(7) [of t] False show ?thesis
        by (auto simp: is_waiting_def m)
    qed
    show "t \<in> set (queue ?s2) \<or> t \<in> set (thread_ready_list ?s2) \<or> t = cur ?s2" if "is_waiting ?s2 t" for t
      using that d(12) [of t] runs [of t] by (auto simp: is_waiting_def m split: if_splits)
    show "set (queue ?s2) \<subseteq> set (thread_all_list ?s2)"
      using d(1,8) s1(3) by (auto simp: rest_kept_def sched_wf_def)
    show "count ?s2 = 0 \<or> count ?s2 = 1" using True m by simp
    show "t = t'" if "owns ?s2 t" "owns ?s2 t'" for t t' using that d(3) unfolding o by blast
    show "count ?s2 = 0 \<longleftrightarrow> (\<exists>t. owns ?s2 t)" using d(4) True m unfolding o by simp
    have h: "holder (lock s) \<noteq> cur s \<or> holder (lock s) = NULL"
      using no d(5) unfolding owns_def by metis
    show "holder (lock ?s2) \<noteq> NULL \<Longrightarrow> phase_of ?s2 (holder (lock ?s2)) = Outside"
      using d(5) h m by auto
    show "holder (lock ?s2) = NULL \<longleftrightarrow> holder_repeat_nr (lock ?s2) = 0" using d(6) m by simp
    show "distinct (queue ?s2)" using d(7) cq by simp
    show "idle_thread ?s2 \<notin> set (queue ?s2)" using d(9) idle s1(3) by (simp add: rest_kept_def)
    show "phase_of ?s2 (idle_thread ?s2) = Outside \<and> holder (lock ?s2) \<noteq> idle_thread ?s2"
      using d(10) idle s1(3) m by (simp add: rest_kept_def)
    show "\<exists>t. is_waiting ?s2 t \<and> t \<notin> set (queue ?s2)" if "queue ?s2 \<noteq> []" "count ?s2 = 1"
      using that True m by simp
  qed
  with eq show ?thesis by simp
next
  case False
  note d = lock_invD [OF inv]
  have one: "count s = 1" using d(2) False by blast
  have none: "\<not> owns s t" for t using d(4) False by blast
  have hn: "holder (lock s) = NULL" using d(5) none [of "holder (lock s)"] by (auto simp: owns_def)
  let ?sema = "(mutex_sema (lock s))\<lparr>sema_value := 0\<rparr>"
  let ?s2 = "set_phase Got (cur s) (set_sema ?sema (s\<lparr>if_flag := (old = INTR_ON)\<rparr>))"
  have eq: "down_round old s = Inr ?s2"
    using one by (simp add: down_round_def sema_down_pass_def running_thread_def intr_set_status_eq)
  have o: "owns ?s2 t \<longleftrightarrow> t = cur s" for t
    using none [of t] hn by (auto simp: owns_def)
  have "lock_inv ?s2"
    using idle hn d(6,10)
    by (intro lock_inv_own_step [OF inv, of Got]) (auto simp: o)
  with eq show ?thesis by simp
qed

lemma holder_owns: "lock_inv s \<Longrightarrow> holder (lock s) \<noteq> NULL \<Longrightarrow> owns s (holder (lock s))"
  using lock_invD(5) by (simp add: owns_def)

lemma cur_not_NULL: "lock_inv s \<Longrightarrow> cur s \<noteq> NULL"
  using lock_invD(1) [of s] by (auto simp: sched_wf_def ready_ok_def)

lemma owner_unique: "lock_inv s \<Longrightarrow> owns s t \<Longrightarrow> owns s u \<longleftrightarrow> u = t"
  using lock_invD(3) [of s t u] by auto

text \<open>A thread that is between the two functions' two halves leaves no holder behind.\<close>

lemma half_way_no_holder:
  assumes "lock_inv s" "phase_of s (cur s) = Got \<or> phase_of s (cur s) = Releasing"
  shows "holder (lock s) = NULL" "holder_repeat_nr (lock s) = 0" "cur s \<noteq> idle_thread s" "owns s (cur s)"
    "count s = 0"
proof -
  note d = lock_invD [OF assms(1)]
  show me: "owns s (cur s)" using assms(2) by (auto simp: owns_def)
  show "holder (lock s) = NULL"
    using holder_owns [OF assms(1)] d(3) [OF me] d(5) assms(2) by (metis phase.distinct(3,5))
  then show "holder_repeat_nr (lock s) = 0" using d(6) by blast
  show "cur s \<noteq> idle_thread s" using d(10) assms(2) by auto
  show "count s = 0" using d(4) me by blast
qed

lemma acquire_end_ok:
  assumes inv: "lock_inv s" and ph: "phase_of s (cur s) = Got"
  shows "lock_inv (set_phase Outside (cur s) (s\<lparr>lock := (lock s)\<lparr>holder := cur s, holder_repeat_nr := 1\<rparr>\<rparr>))"
proof -
  note d = lock_invD [OF inv] and h = half_way_no_holder [OF inv disjI1 [OF ph]]
  have o: "owns (set_phase Outside (cur s) (s\<lparr>lock := (lock s)\<lparr>holder := cur s, holder_repeat_nr := 1\<rparr>\<rparr>)) t
      \<longleftrightarrow> t = cur s" for t
    using owner_unique [OF inv h(4), of t] h(1) cur_not_NULL [OF inv] by (auto simp: owns_def)
  show ?thesis
    using h cur_not_NULL [OF inv] ph
    by (intro lock_inv_own_step [OF inv, of Outside]) (auto simp: o is_waiting_def)
qed

lemma release_begin_ok:
  assumes inv: "lock_inv s" and ph: "phase_of s (cur s) = Outside" "holder (lock s) = cur s"
    and nr: "\<not> holder_repeat_nr (lock s) > 1"
  shows "holder_repeat_nr (lock s) = 1"
    and "lock_inv (set_phase Releasing (cur s) (s\<lparr>lock := (lock s)\<lparr>holder := NULL, holder_repeat_nr := 0\<rparr>\<rparr>))"
proof -
  note d = lock_invD [OF inv] and cn = cur_not_NULL [OF inv]
  have "holder_repeat_nr (lock s) \<noteq> 0" using d(6) ph(2) cn by simp
  then show "holder_repeat_nr (lock s) = 1"
    using nr by unat_arith
  have me: "owns s (cur s)" using ph cn by (simp add: owns_def)
  have o: "owns (set_phase Releasing (cur s) (s\<lparr>lock := (lock s)\<lparr>holder := NULL, holder_repeat_nr := 0\<rparr>\<rparr>)) t
      \<longleftrightarrow> t = cur s" for t
    using owner_unique [OF inv me, of t] ph cn by (auto simp: owns_def)
  have c0: "count s = 0" using d(4) me by blast
  have idle: "idle_thread s \<noteq> NULL" using d(1) by (auto simp: sched_wf_def ready_ok_def)
  show "lock_inv (set_phase Releasing (cur s) (s\<lparr>lock := (lock s)\<lparr>holder := NULL, holder_repeat_nr := 0\<rparr>\<rparr>))"
    using d(10) c0 ph idle
    by (intro lock_inv_own_step [OF inv, of Releasing]) (auto simp: o is_waiting_def)
qed

lemma count_nested_ok:
  assumes inv: "lock_inv s" and ph: "phase_of s (cur s) = Outside" "holder (lock s) = cur s" and nr: "n \<noteq> 0"
  shows "lock_inv (s\<lparr>lock := (lock s)\<lparr>holder_repeat_nr := n\<rparr>\<rparr>)"
proof -
  note d = lock_invD [OF inv]
  have me: "owns s (cur s)" using ph cur_not_NULL [OF inv] by (simp add: owns_def)
  have o: "owns (s\<lparr>lock := (lock s)\<lparr>holder_repeat_nr := n\<rparr>\<rparr>) t \<longleftrightarrow> t = cur s" for t
    using owner_unique [OF inv me, of t] by (simp add: owns_def)
  have c0: "count s = 0" using d(4) me by blast
  have p: "(phase_of s)(cur s := Outside) = phase_of s" using ph(1) by auto
  show ?thesis
    using d(10) c0 ph nr cur_not_NULL [OF inv]
    by (intro lock_inv_own_step [OF inv, of Outside]) (auto simp: o p is_waiting_def)
qed

lemma release_end_ok:
  assumes inv: "lock_inv s" and ph: "phase_of s (cur s) = Releasing"
  shows "\<exists>sema s'. sema_up (mutex_sema (lock s)) s = Inr (sema, s') \<and>
    lock_inv (set_phase Outside (cur s) (set_sema sema s'))"
proof -
  note d = lock_invD [OF inv] and h = half_way_no_holder [OF inv disjI2 [OF ph]]
  let ?q = "queue s"
  obtain s1 where s1: "(if ?q \<noteq> [] then thread_unblock (hd ?q) (s\<lparr>if_flag := False\<rparr>)
        else Inr (s\<lparr>if_flag := False\<rparr>)) = Inr s1"
      "sched_wf s1" "rest_kept s s1" "cur s1 = cur s"
      "thread_ready_list s1 = (if ?q \<noteq> [] then hd ?q # thread_ready_list s else thread_ready_list s)"
      "\<And>u. u \<notin> set (take 1 ?q) \<Longrightarrow> status (tcbs s1 u) = status (tcbs s u)"
  proof (cases ?q)
    case (Cons t q)
    let ?s = "s\<lparr>if_flag := False\<rparr>"
    have "sched_wf ?s" "t \<in> set (thread_all_list ?s)" "blocked_status (status (tcbs ?s t))"
      using d(1,8) d(11) [of t] Cons by (auto simp: blocked_status_def)
    from thread_unblock_full [OF this] show ?thesis
      using that Cons by (auto simp: rest_kept_def)
  qed (use that [of "s\<lparr>if_flag := False\<rparr>"] d(1) in \<open>auto simp: rest_kept_def\<close>)
  have k: "kernel.more s1 = kernel.more s" using s1(3) by (simp add: rest_kept_def)
  note m = more_eq [OF k]
  let ?sema = "\<lparr>sema_value = 1, waiters = tl ?q\<rparr>"
  let ?s1 = "intr_set_status (intr_get_status s) s1"
  let ?s2 = "set_phase Outside (cur s) (set_sema ?sema ?s1)"
  have up: "sema_up (mutex_sema (lock s)) s = Inr (?sema, ?s1)"
    using s1(1) h(5)
    by (cases "mutex_sema (lock s)") (auto simp: sema_up_def intr_disable_eq Let_def split: if_splits)
  have sel [simp]: "lock ?s1 = lock s" "cur ?s1 = cur s" "thread_ready_list ?s1 = thread_ready_list s1"
      "tcbs ?s1 = tcbs s1" "thread_all_list ?s1 = thread_all_list s" "idle_thread ?s1 = idle_thread s"
      "phase_of ?s1 = phase_of s"
    using m s1(3,4) by (simp_all add: intr_set_status_eq rest_kept_def)
  have none: "\<not> owns ?s2 t" for t
    using owner_unique [OF inv h(4), of t] h(1) by (auto simp: owns_def)
  have w: "is_waiting ?s2 t \<longleftrightarrow> t \<noteq> cur s \<and> is_waiting s t" for t by (simp add: is_waiting_def)
  have tlq: "t \<in> set (tl ?q) \<Longrightarrow> t \<in> set ?q \<and> t \<notin> set (take 1 ?q)" for t
    using d(7) by (cases ?q) auto
  have "lock_inv ?s2"
  proof (rule lock_invI)
    show "sched_wf ?s2" using s1(2,3,4) sched_wf_irrelevant [of ?s2 s1] by (simp add: rest_kept_def)
    show "is_waiting ?s2 t \<and> t \<noteq> cur ?s2 \<and> t \<notin> set (thread_ready_list ?s2) \<and> status (tcbs ?s2 t) = TASK_BLOCKED"
      if "t \<in> set (queue ?s2)" for t
    proof -
      have t: "t \<in> set ?q" "t \<notin> set (take 1 ?q)" using that tlq by auto
      then have "t \<notin> set (thread_ready_list s1)" using d(11) [OF t(1)] s1(5) by (cases ?q) auto
      then show ?thesis using d(11) [OF t(1)] s1(6) [OF t(2)] by (simp add: w)
    qed
    show "t \<in> set (queue ?s2) \<or> t \<in> set (thread_ready_list ?s2) \<or> t = cur ?s2" if "is_waiting ?s2 t" for t
    proof -
      have "is_waiting s t" "t \<noteq> cur s" using that by (simp_all add: w)
      then show ?thesis using d(12) [of t] s1(5) by (cases ?q) auto
    qed
    show "\<exists>t. is_waiting ?s2 t \<and> t \<notin> set (queue ?s2)" if "queue ?s2 \<noteq> []"
    proof -
      have "?q \<noteq> []" using that by auto
      then obtain t q where q: "?q = t # q" by (cases ?q) auto
      then have "is_waiting ?s2 t" unfolding w using d(11) [of t] by auto
      moreover have "t \<notin> set (queue ?s2)" using q d(7) by simp
      ultimately show ?thesis by blast
    qed
    show "set (queue ?s2) \<subseteq> set (thread_all_list ?s2)" "idle_thread ?s2 \<notin> set (queue ?s2)"
      using d(8,9) tlq by auto
  qed (use d(7,10) h none in \<open>auto simp: distinct_tl\<close>)
  with up show ?thesis by blast
qed

lemma lock_step_inv:
  assumes "lock_step s r" "lock_inv s"
  shows "\<exists>s'. r = Inr s' \<and> lock_inv s'"
  using assms
proof (induction rule: lock_step.induct)
  case (acquire_again s)
  then show ?case using count_nested_ok by blast
next
  case (acquire_begin s)
  let ?s = "snd (intr_disable s)"
  have "\<not> owns ?s (cur ?s)" using acquire_begin by (auto simp: owns_def snd_intr_disable)
  then show ?case
    using down_round_ok [of ?s] acquire_begin by (simp add: snd_intr_disable)
next
  case (resume s old)
  have "\<not> owns s (cur s)" "cur s \<noteq> idle_thread s"
    using resume lock_invD(10) by (auto simp: owns_def)
  then show ?case using down_round_ok resume by blast
next
  case (acquire_end s)
  then show ?case using acquire_end_ok half_way_no_holder(2) by (simp add: Let_def)
next
  case (release_inner s)
  have "holder_repeat_nr (lock s) - 1 \<noteq> 0" using release_inner(3) by auto
  then show ?case using count_nested_ok release_inner by blast
next
  case (release_begin s)
  then show ?case using release_begin_ok by simp
next
  case (release_end s)
  then show ?case using release_end_ok by fastforce
next
  case (preempt s)
  then show ?case using preempt_ok by fastforce
next
  case (block_elsewhere s st)
  then show ?case using block_elsewhere_ok by fastforce
next
  case (wake_elsewhere t s)
  then show ?case using wake_elsewhere_ok by blast
qed

lemma unused_inv: "unused s \<Longrightarrow> lock_inv s"
proof -
  assume u: "unused s"
  then have "idle_thread s \<noteq> NULL" by (auto simp: unused_def sched_wf_def ready_ok_def)
  with u show ?thesis
    by (auto simp: unused_def lock_inv_def owns_def is_waiting_def mutex_init_def sema_init_def)
qed

lemma reachable_inv: "reachable s \<Longrightarrow> lock_inv s"
proof (induction rule: reachable.induct)
  case (start s)
  then show ?case by (rule unused_inv)
next
  case (step s s')
  then show ?case using lock_step_inv by fastforce
qed

text \<open>
  C3. Mutual exclusion. However threads that use a mutex are interleaved, preempted, blocked
  elsewhere and woken: at most one thread is between the end of its \<open>mutex_acquire\<close> and its
  \<open>mutex_release\<close>; no assertion of the two functions or of the scheduler fails; and if threads wait
  while the mutex is free, one of them has already been woken to take it.
\<close>

theorem mutex_safe:
  assumes "reachable s"
  shows "(\<forall>t t'. owns s t \<longrightarrow> owns s t' \<longrightarrow> t = t') \<and>
    (\<forall>r. lock_step s r \<longrightarrow> (\<exists>s'. r = Inr s')) \<and>
    (waiters (mutex_sema (lock s)) \<noteq> [] \<longrightarrow> sema_value (mutex_sema (lock s)) = 1 \<longrightarrow>
       (\<exists>t. is_waiting s t \<and> (t \<in> set (thread_ready_list s) \<or> t = cur s)))"
proof -
  have inv: "lock_inv s" using assms by (rule reachable_inv)
  note d = lock_invD [OF inv]
  have "\<exists>s'. r = Inr s'" if "lock_step s r" for r using lock_step_inv [OF that inv] by blast
  moreover have "\<exists>t. is_waiting s t \<and> (t \<in> set (thread_ready_list s) \<or> t = cur s)"
    if "queue s \<noteq> []" "count s = 1"
    using d(13) [OF that] d(12) by blast
  ultimately show ?thesis using d(3) by blast
qed


definition three_lockers :: locked where
  "three_lockers = \<lparr>if_flag = if_flag three_threads, tcbs = tcbs three_threads,
     thread_ready_list = thread_ready_list three_threads, thread_all_list = thread_all_list three_threads,
     cur = cur three_threads, main_thread = main_thread three_threads,
     idle_thread = idle_thread three_threads, ticks = 0, v2p = id, cr3 = 0, tss_esp0 = 0,
     lock = mutex_init, phase_of = (\<lambda>_. Outside)\<rparr>"

lemma mutex_safe_witness:
  "\<exists>s. reachable s \<and> phase_of s 1 = Got \<and> owns s 1 \<and> (\<forall>t. owns s t \<longrightarrow> t = 1)"
proof -
  have u: "unused three_lockers"
    by (simp add: unused_def three_lockers_def three_threads_def thread_state_defs blocked_status_def)
  let ?s1 = "down_round INTR_OFF three_lockers"
  have "lock_step three_lockers
      (down_round (fst (intr_disable three_lockers)) (snd (intr_disable three_lockers)))"
    by (rule lock_step.acquire_begin)
      (simp_all add: three_lockers_def three_threads_def mutex_init_def)
  then have st: "lock_step three_lockers ?s1"
    by (simp add: snd_intr_disable intr_get_status_def three_lockers_def three_threads_def)
  obtain s1 where s1: "?s1 = Inr s1" "phase_of s1 1 = Got"
    by (simp add: down_round_def sema_down_pass_def three_lockers_def three_threads_def mutex_init_def
        sema_init_def running_thread_def intr_set_status_eq set_phase_def set_sema_def)
  have r: "reachable s1" using reachable.intros(2) [OF reachable.intros(1) [OF u]] st s1(1) by simp
  have "owns s1 1" using s1(2) by (simp add: owns_def)
  with mutex_safe [OF r] r s1(2) show ?thesis by blast
qed

end
