(* ===== verification/Paging.thy ===== *)
theory Paging
  imports Sync
begin

text \<open>
  Physical and virtual pages (\<open>kernel/memory.c\<close>). Physical memory is a map from (word-aligned)
  physical addresses to 32-bit words; every access of the kernel goes through the page tables in
  it, as the processor's does. The kernel edits these tables through the last directory entry,
  which points to the directory itself; the lemmas show that \<open>pde_addr\<close> and \<open>pte_addr\<close> address
  the entries they mean, which is what every later result on the page tables rests on. The
  translation look-aside buffer is not modelled.
\<close>

section \<open>State\<close>

record pool =
  pool_bitmap :: bitmap
  phy_addr_start :: u32
  pool_size :: u32
  pool_mutex :: mutex

record vm = kernel +
  pmem :: "u32 \<Rightarrow> u32"
  kernel_pool :: pool
  user_pool :: pool
  kernel_vaddr :: virtual_addr

definition PG_P_1 :: u32 where "PG_P_1 = 1"
definition PG_RW_W :: u32 where "PG_RW_W = 2"
definition PG_US_U :: u32 where "PG_US_U = 4"

definition PDE_IDX :: "u32 \<Rightarrow> u32" where "PDE_IDX addr = drop_bit 22 (addr AND 0xFFC00000)"
definition PTE_IDX :: "u32 \<Rightarrow> u32" where "PTE_IDX addr = drop_bit 12 (addr AND 0x003FF000)"

section \<open>The processor's translation\<close>

definition present :: "u32 \<Rightarrow> bool" where "present entry \<longleftrightarrow> entry AND 1 \<noteq> 0"

definition frame :: "u32 \<Rightarrow> u32" where "frame entry = entry AND 0xFFFFF000"

text \<open>The physical address of the directory entry, and of the table entry if there is a table.\<close>

definition pde_at :: "u32 \<Rightarrow> u32 \<Rightarrow> u32" where "pde_at dir va = dir + 4 * PDE_IDX va"

definition pte_at :: "(u32 \<Rightarrow> u32) \<Rightarrow> u32 \<Rightarrow> u32 \<Rightarrow> u32" where
  "pte_at mem dir va = frame (mem (pde_at dir va)) + 4 * PTE_IDX va"

definition mapped :: "(u32 \<Rightarrow> u32) \<Rightarrow> u32 \<Rightarrow> u32 \<Rightarrow> bool" where
  "mapped mem dir va \<longleftrightarrow> present (mem (pde_at dir va)) \<and> present (mem (pte_at mem dir va))"

definition translate :: "(u32 \<Rightarrow> u32) \<Rightarrow> u32 \<Rightarrow> u32 \<Rightarrow> u32" where
  "translate mem dir va = frame (mem (pte_at mem dir va)) + (va AND 0xFFF)"

text \<open>A load or a store of a word at a virtual address; a page fault is a fault of the model.\<close>

definition load32 :: "u32 \<Rightarrow> 'a vm_scheme \<Rightarrow> u32 res" where
  "load32 va s =
     (if mapped (pmem s) (cr3 s) va then Inr (pmem s (translate (pmem s) (cr3 s) va))
      else Inl Bad_access)"

definition store32 :: "u32 \<Rightarrow> u32 \<Rightarrow> 'a vm_scheme \<Rightarrow> 'a vm_scheme res" where
  "store32 va v s =
     (if mapped (pmem s) (cr3 s) va
      then Inr (s\<lparr>pmem := (pmem s)(translate (pmem s) (cr3 s) va := v)\<rparr>)
      else Inl Bad_access)"

text \<open>\<open>memset(va, 0, 4 * n)\<close> on a word boundary.\<close>

definition zero_words :: "u32 \<Rightarrow> nat \<Rightarrow> 'a vm_scheme \<Rightarrow> 'a vm_scheme res" where
  "zero_words va n = foldE (\<lambda>i. store32 (va + 4 * of_nat i) 0) [0..<n]"

section \<open>Page table operations\<close>

definition pte_addr :: "u32 \<Rightarrow> u32" where
  "pte_addr vaddr = 0xFFC00000 + drop_bit 10 (vaddr AND 0xFFC00000) + PTE_IDX vaddr * 4"

definition pde_addr :: "u32 \<Rightarrow> u32" where
  "pde_addr vaddr = 0xFFFFF000 + PDE_IDX vaddr * 4"

definition palloc :: "pool \<Rightarrow> (u32 \<times> pool) res" where
  "palloc m_pool =
     bindE (bitmap_scan (pool_bitmap m_pool) 1) (\<lambda>bit_idx.
       if bit_idx = - 1 then Inr (NULL, m_pool)
       else bindE (bitmap_set (pool_bitmap m_pool) (nat bit_idx) 1) (\<lambda>b.
         let page_phyaddr = of_int bit_idx * 4096 + phy_addr_start m_pool in
         Inr (page_phyaddr, m_pool\<lparr>pool_bitmap := b\<rparr>)))"

definition page_table_add :: "u32 \<Rightarrow> u32 \<Rightarrow> 'a vm_scheme \<Rightarrow> 'a vm_scheme res" where
  "page_table_add vaddr page_phyaddr s =
     (let pt_addr = pde_addr vaddr; p_addr = pte_addr vaddr;
          entry = page_phyaddr OR PG_US_U OR PG_RW_W OR PG_P_1 in
      bindE (load32 pt_addr s) (\<lambda>pde.
      if pde AND 1 \<noteq> 0 then
        bindE (load32 p_addr s) (\<lambda>pte.
          asserting (\<not> (pte AND 1 \<noteq> 0))
          (if \<not> (pte AND 1 \<noteq> 0) then store32 p_addr entry s else Inl Panicked))
      else
        bindE (palloc (kernel_pool s)) (\<lambda>(pt_phyaddr, kp).
        let s = s\<lparr>kernel_pool := kp\<rparr> in
        bindE (store32 pt_addr (pt_phyaddr OR PG_US_U OR PG_RW_W OR PG_P_1) s) (\<lambda>s.
        bindE (zero_words (p_addr AND 0xFFFFF000) 1024 s) (\<lambda>s.
        bindE (load32 p_addr s) (\<lambda>pte.
          asserting (\<not> (pte AND 1 \<noteq> 0)) (store32 p_addr entry s)))))))"

definition addr_v2p :: "u32 \<Rightarrow> 'a vm_scheme \<Rightarrow> u32 res" where
  "addr_v2p vaddr s =
     bindE (load32 (pte_addr vaddr) s) (\<lambda>pte. Inr ((pte AND 0xFFFFF000) + (vaddr AND 0xFFF)))"

definition page_table_pte_remove :: "u32 \<Rightarrow> 'a vm_scheme \<Rightarrow> 'a vm_scheme res" where
  "page_table_pte_remove vaddr s =
     bindE (load32 (pte_addr vaddr) s) (\<lambda>pte. store32 (pte_addr vaddr) (pte AND NOT PG_P_1) s)"

section \<open>Indices and addresses\<close>

lemma take_bit_32_unat [simp]: "take_bit 32 (unat (va :: u32)) = unat va"
  using unsigned_less [of va, where ?'a = nat] by (simp add: take_bit_nat_eq_self)

lemma small_take_bit: "unat (x :: u32) < 2 ^ m \<Longrightarrow> take_bit m x = x"
  by (rule unsigned_word_eqI [where ?'a = nat])
    (simp add: unsigned_take_bit_eq take_bit_nat_eq_self)

lemma small_bits: "bit (x :: u32) n \<Longrightarrow> unat x < 2 ^ m \<Longrightarrow> n < m"
  by (metis bit_take_bit_iff small_take_bit)

lemma mask_words:
  "(0xFFC00000 :: u32) = NOT (mask 22)" "(0x003FF000 :: u32) = push_bit 12 (mask 10)"
  "(0xFFFFF000 :: u32) = NOT (mask 12)" "(0xFFF :: u32) = mask 12"
  by (simp_all add: mask_eq_exp_minus_1 push_bit_eq_mult)

lemma PDE_IDX_eq: "PDE_IDX va = drop_bit 22 va"
  unfolding PDE_IDX_def mask_words
  by (rule bit_word_eqI) (auto simp: bit_simps dest: bit_imp_le_length)

lemma PTE_IDX_eq: "PTE_IDX va = take_bit 10 (drop_bit 12 va)"
  unfolding PTE_IDX_def mask_words by (rule bit_word_eqI) (auto simp: bit_simps)

lemma frame_eq: "frame e = e AND NOT (mask 12)" by (simp add: frame_def mask_words)

text \<open>An index is below 1024, so its entry lies in the page of the table.\<close>

lemma idx_less: "unat (PDE_IDX va) < 1024" "unat (PTE_IDX va) < 1024"
proof -
  have "unat va < 2 ^ 32" using unsigned_less [of va, where ?'a = nat] by simp
  then show "unat (PDE_IDX va) < 1024"
    by (simp add: PDE_IDX_eq unsigned_drop_bit_eq drop_bit_eq_div [of 22 "unat va"] div_less_iff_less_mult del: drop_bit_eq_div)
  show "unat (PTE_IDX va) < 1024"
    by (simp add: PTE_IDX_eq unsigned_take_bit_eq take_bit_eq_mod [of 10 "unat _"] del: take_bit_eq_mod)
qed

text \<open>A page-aligned address and an offset within the page do not mix.\<close>

definition aligned :: "u32 \<Rightarrow> bool" where "aligned a \<longleftrightarrow> a AND 0xFFF = 0"

lemma aligned_bits: "aligned a \<Longrightarrow> bit a n \<Longrightarrow> 12 \<le> n"
  unfolding aligned_def mask_words using bit_imp_le_length [of a n]
  by (auto simp: bit_eq_iff bit_simps not_less)

lemma aligned_add_or:
  assumes "aligned a" "unat x < 4096" shows "a + x = a OR x"
proof (rule disjunctive_add_eq_or, rule bit_word_eqI)
  fix n show "bit (a AND x) n = bit 0 n"
    using aligned_bits [OF assms(1), of n] small_bits [of x n 12] assms(2) by (auto simp: bit_simps)
qed

lemma aligned_add:
  assumes "aligned a" "unat x < 4096"
  shows "frame (a + x) = a" "(a + x) AND 0xFFF = x"
proof -
  have x: "\<not> (bit x n \<and> 12 \<le> n)" for n using small_bits [of x n 12] assms(2) by auto
  have a: "\<not> (bit a n \<and> n < 12)" for n using aligned_bits [OF assms(1), of n] by auto
  have "bit ((a OR x) AND NOT (mask 12)) n = bit a n" "bit ((a OR x) AND mask 12) n = bit x n"
    if "n < LENGTH(32)" for n
    using x [of n] a [of n] that by (auto simp: bit_simps)
  then show "frame (a + x) = a" "(a + x) AND 0xFFF = x"
    unfolding aligned_add_or [OF assms] frame_eq mask_words by (auto intro: bit_word_eqI)
qed

lemma aligned_frame [simp]: "aligned (frame e)"
  unfolding aligned_def frame_eq mask_words by (rule bit_word_eqI) (auto simp: bit_simps)


lemma idx_offset: "unat (4 * PDE_IDX va) < 4096" "unat (4 * PTE_IDX va) < 4096"
  "unat (PDE_IDX va * 4) < 4096" "unat (PTE_IDX va * 4) < 4096"
  using idx_less [of va] by (simp_all add: unat_word_ariths)

lemma idx_frame: "PDE_IDX (frame a) = PDE_IDX a" "PTE_IDX (frame a) = PTE_IDX a"
proof -
  have "bit (drop_bit 22 (a AND NOT (mask 12))) n = bit (drop_bit 22 a) n"
    "bit (take_bit 10 (drop_bit 12 (a AND NOT (mask 12)))) n = bit (take_bit 10 (drop_bit 12 a)) n" for n
    using bit_imp_le_length [of a "22 + n"] bit_imp_le_length [of a "12 + n"] by (auto simp: bit_simps)
  then show "PDE_IDX (frame a) = PDE_IDX a" "PTE_IDX (frame a) = PTE_IDX a"
    unfolding PDE_IDX_eq PTE_IDX_eq frame_eq by (auto intro: bit_word_eqI)
qed

lemma pde_addr_parts:
  "PDE_IDX (pde_addr va) = 1023" "PTE_IDX (pde_addr va) = 1023" "pde_addr va AND 0xFFF = 4 * PDE_IDX va"
proof -
  have al: "aligned 0xFFFFF000" by (simp add: aligned_def)
  note f = aligned_add [OF al idx_offset(3) [of va]]
  have fr: "frame (pde_addr va) = 0xFFFFF000" using f(1) by (simp add: pde_addr_def)
  have "PDE_IDX 0xFFFFF000 = 1023" "PTE_IDX 0xFFFFF000 = 1023"
    by (simp_all add: PDE_IDX_def PTE_IDX_def)
  then show "PDE_IDX (pde_addr va) = 1023" "PTE_IDX (pde_addr va) = 1023"
    using idx_frame [of "pde_addr va"] fr by simp_all
  show "pde_addr va AND 0xFFF = 4 * PDE_IDX va" using f(2) by (simp add: pde_addr_def mult.commute)
qed

lemma pte_addr_parts:
  "PDE_IDX (pte_addr va) = 1023" "PTE_IDX (pte_addr va) = PDE_IDX va" "pte_addr va AND 0xFFF = 4 * PTE_IDX va"
proof -
  let ?i = "PDE_IDX va"
  let ?b = "0xFFC00000 OR push_bit 12 ?i"
  have i: "bit ?i n \<Longrightarrow> n < 10" for n using small_bits [of ?i n 10] idx_less(1) [of va] by simp
  have hi: "bit (0xFFC00000 :: u32) n \<longleftrightarrow> n < 32 \<and> 22 \<le> n" for n
    unfolding mask_words by (auto simp: bit_simps)
  have base: "drop_bit 10 (va AND 0xFFC00000) = push_bit 12 ?i"
    unfolding PDE_IDX_eq mask_words
    by (rule bit_word_eqI) (auto simp: bit_simps dest: bit_imp_le_length)
  have "(0xFFC00000 :: u32) AND push_bit 12 ?i = 0"
  proof (rule bit_word_eqI)
    fix n show "bit ((0xFFC00000 :: u32) AND push_bit 12 ?i) n = bit 0 n"
      using i [of "n - 12"] by (auto simp only: bit_and_iff bit_push_bit_iff hi bit_0_eq bot_apply) auto
  qed
  then have b: "0xFFC00000 + push_bit 12 ?i = ?b" by (rule disjunctive_add_eq_or)
  have al: "aligned ?b"
    unfolding aligned_def mask_words by (rule bit_word_eqI) (auto simp: bit_simps)
  have addr: "pte_addr va = ?b + PTE_IDX va * 4" by (simp only: pte_addr_def base b)
  note f = aligned_add [OF al idx_offset(4) [of va]]
  have "drop_bit 22 ?b = mask 10"
  proof (rule bit_word_eqI)
    fix n :: nat assume "n < LENGTH(32)"
    then show "bit (drop_bit 22 ?b) n = bit (mask 10 :: u32) n"
      unfolding bit_drop_bit_eq comp_apply bit_or_iff hi bit_push_bit_iff bit_mask_iff
      using i [of "10 + n"] by auto
  qed
  moreover have "take_bit 10 (drop_bit 12 ?b) = ?i"
  proof (rule bit_word_eqI)
    fix n :: nat assume "n < LENGTH(32)"
    then show "bit (take_bit 10 (drop_bit 12 ?b)) n = bit ?i n"
      unfolding bit_take_bit_iff bit_drop_bit_eq comp_apply bit_or_iff hi bit_push_bit_iff
      using i [of n] by auto
  qed
  ultimately have "PDE_IDX ?b = 1023" "PTE_IDX ?b = ?i"
    by (simp_all only: PDE_IDX_eq [of ?b] PTE_IDX_eq [of ?b]) (simp add: mask_eq_exp_minus_1)
  then show "PDE_IDX (pte_addr va) = 1023" "PTE_IDX (pte_addr va) = PDE_IDX va"
    using idx_frame [of "pte_addr va"] f(1) addr by simp_all
  show "pte_addr va AND 0xFFF = 4 * PTE_IDX va" using f(2) addr by (simp add: mult.commute)
qed


section \<open>The self-map\<close>

text \<open>
  The last entry of the directory in use points to the directory, and no other entry does: the
  tables are in frames of their own.
\<close>

definition self_mapped :: "(u32 \<Rightarrow> u32) \<Rightarrow> u32 \<Rightarrow> bool" where
  "self_mapped mem dir \<longleftrightarrow> aligned dir \<and> present (mem (dir + 4 * 1023)) \<and> frame (mem (dir + 4 * 1023)) = dir"

lemma pde_at_self: "PDE_IDX va = 1023 \<Longrightarrow> pde_at dir va = dir + 4 * 1023"
  by (simp add: pde_at_def)

lemma access_pde:
  assumes "self_mapped mem dir"
  shows "mapped mem dir (pde_addr va)" "translate mem dir (pde_addr va) = pde_at dir va"
  using assms pde_addr_parts [of va]
  by (simp_all add: mapped_def translate_def pte_at_def pde_at_def self_mapped_def)

lemma access_pte:
  assumes "self_mapped mem dir"
  shows "mapped mem dir (pte_addr va) \<longleftrightarrow> present (mem (pde_at dir va))"
    "translate mem dir (pte_addr va) = pte_at mem dir va"
  using assms pte_addr_parts [of va]
  by (simp_all add: mapped_def translate_def pte_at_def pde_at_def self_mapped_def)

lemma load_pde: "self_mapped (pmem s) (cr3 s) \<Longrightarrow> load32 (pde_addr va) s = Inr (pmem s (pde_at (cr3 s) va))"
  by (simp add: load32_def access_pde)

lemma load_pte:
  "self_mapped (pmem s) (cr3 s) \<Longrightarrow> load32 (pte_addr va) s =
     (if present (pmem s (pde_at (cr3 s) va)) then Inr (pmem s (pte_at (pmem s) (cr3 s) va)) else Inl Bad_access)"
  by (simp add: load32_def access_pte)

lemma store_pde: "self_mapped (pmem s) (cr3 s) \<Longrightarrow>
   store32 (pde_addr va) v s = Inr (s\<lparr>pmem := (pmem s)(pde_at (cr3 s) va := v)\<rparr>)"
  by (simp add: store32_def access_pde)

lemma store_pte: "self_mapped (pmem s) (cr3 s) \<Longrightarrow> store32 (pte_addr va) v s =
     (if present (pmem s (pde_at (cr3 s) va)) then Inr (s\<lparr>pmem := (pmem s)(pte_at (pmem s) (cr3 s) va := v)\<rparr>)
      else Inl Bad_access)"
  by (simp add: store32_def access_pte)

text \<open>Entries of different tables, and different entries of a table, are different words.\<close>

lemma entry_distinct:
  assumes "aligned t" "aligned u" "unat x < 4096" "unat y < 4096" "t + x = u + y"
  shows "t = u \<and> x = y"
  using aligned_add [OF assms(1,3)] aligned_add [OF assms(2,4)] assms(5) by metis

lemma pde_at_neq_pte_at:
  assumes "aligned dir" "frame (mem (pde_at dir va)) \<noteq> dir"
  shows "pte_at mem dir va \<noteq> pde_at dir va'"
  using entry_distinct [OF aligned_frame assms(1) idx_offset(2) idx_offset(1)] assms(2)
  unfolding pte_at_def pde_at_def by blast

lemma entry_bits:
  assumes "aligned pa"
  shows "frame (pa OR PG_US_U OR PG_RW_W OR PG_P_1) = pa" "present (pa OR PG_US_U OR PG_RW_W OR PG_P_1)"
proof -
  have e: "PG_US_U OR PG_RW_W OR PG_P_1 = 7" by (simp add: PG_US_U_def PG_RW_W_def PG_P_1_def)
  have p: "pa OR PG_US_U OR PG_RW_W OR PG_P_1 = pa + 7"
    using aligned_add_or [OF assms, of 7] e by (simp add: or.assoc)
  have "(pa + 7) AND 1 = ((pa + 7) AND 0xFFF) AND 1" by (simp add: and.assoc)
  then show "frame (pa OR PG_US_U OR PG_RW_W OR PG_P_1) = pa" "present (pa OR PG_US_U OR PG_RW_W OR PG_P_1)"
    using aligned_add [OF assms, of 7] unfolding p present_def by simp_all
qed

text \<open>Two addresses in the same page have the same entries.\<close>

definition same_page :: "u32 \<Rightarrow> u32 \<Rightarrow> bool" where
  "same_page a b \<longleftrightarrow> frame a = frame b"

text \<open>A user-visible page: not one of the page tables, which the last directory entry shows.\<close>

definition ordinary :: "u32 \<Rightarrow> bool" where "ordinary va \<longleftrightarrow> PDE_IDX va \<noteq> 1023"

lemma pde_at_ordinary: "aligned dir \<Longrightarrow> ordinary va \<Longrightarrow> pde_at dir va \<noteq> dir + 4 * 1023"
proof
  assume "aligned dir" "ordinary va" "pde_at dir va = dir + 4 * 1023"
  then have "4 * PDE_IDX va = 4 * 1023" by (simp add: pde_at_def)
  then have "unat (4 * PDE_IDX va) = 4092" by simp
  then have "unat (PDE_IDX va) = unat (1023 :: u32)" using idx_less(1) [of va] by (simp add: unat_word_ariths)
  then show False using \<open>ordinary va\<close> unsigned_word_eqI unfolding ordinary_def by blast
qed

text \<open>
  Setting a table entry changes the translation of the addresses that use it, and of no other.
\<close>

lemma set_pte_translate:
  fixes mem :: "u32 \<Rightarrow> u32" and dir :: u32
  defines "mem' \<equiv> \<lambda>va e. mem(pte_at mem dir va := e)"
  assumes self: "self_mapped mem dir" and pde: "present (mem (pde_at dir va))" "frame (mem (pde_at dir va)) \<noteq> dir"
  shows "self_mapped (mem' va e) dir"
    and "present e \<Longrightarrow> mapped (mem' va e) dir va"
    and "translate (mem' va e) dir va = frame e + (va AND 0xFFF)"
    and "\<not> present e \<Longrightarrow> \<not> mapped (mem' va e) dir va"
    and "pte_at mem dir va' \<noteq> pte_at mem dir va \<Longrightarrow> mapped (mem' va e) dir va' = mapped mem dir va' \<and>
       translate (mem' va e) dir va' = translate mem dir va'"
proof -
  have al: "aligned dir" using self by (simp add: self_mapped_def)
  have ne: "\<And>v. pte_at mem dir va \<noteq> pde_at dir v" by (rule pde_at_neq_pte_at [of dir mem va, OF al pde(2)])
  have "pde_at dir 0xFFFFFFFF = dir + 4 * 1023" by (simp add: pde_at_def PDE_IDX_def)
  then have "pte_at mem dir va \<noteq> dir + 4 * 1023" using ne by metis
  then show "self_mapped (mem' va e) dir" using self by (simp add: self_mapped_def mem'_def)
  have keep: "mem' va e (pde_at dir v) = mem (pde_at dir v)" for v using ne [of v] by (simp add: mem'_def)
  then have pte: "pte_at (mem' va e) dir v = pte_at mem dir v" for v by (simp add: pte_at_def)
  show "present e \<Longrightarrow> mapped (mem' va e) dir va" "translate (mem' va e) dir va = frame e + (va AND 0xFFF)"
    "\<not> present e \<Longrightarrow> \<not> mapped (mem' va e) dir va"
    using pde(1) by (simp_all add: mapped_def translate_def keep pte) (simp_all add: mem'_def)
  show "mapped (mem' va e) dir va' = mapped mem dir va' \<and> translate (mem' va e) dir va' = translate mem dir va'"
    if "pte_at mem dir va' \<noteq> pte_at mem dir va"
    using that by (simp add: mapped_def translate_def keep pte) (simp add: mem'_def)
qed


section \<open>Address translation\<close>

text \<open>
  C17. \<open>addr_v2p\<close>, which reads the page tables through the self-map, gives the physical address the
  processor would translate the address to.
\<close>

theorem addr_v2p_translates:
  assumes "self_mapped (pmem s) (cr3 s)" "mapped (pmem s) (cr3 s) vaddr"
  shows "addr_v2p vaddr s = Inr (translate (pmem s) (cr3 s) vaddr)"
  using assms by (simp add: addr_v2p_def load_pte mapped_def translate_def frame_def)

section \<open>Mapping a page\<close>

lemma page_table_add_present:
  assumes "self_mapped (pmem s) (cr3 s)" "present (pmem s (pde_at (cr3 s) va))"
  shows "page_table_add va pa s =
    (if present (pmem s (pte_at (pmem s) (cr3 s) va)) then Inl Assert_failed
     else Inr (s\<lparr>pmem := (pmem s)(pte_at (pmem s) (cr3 s) va := pa OR PG_US_U OR PG_RW_W OR PG_P_1)\<rparr>))"
  using assms by (simp add: page_table_add_def load_pde load_pte store_pte present_def Let_def)

text \<open>All of a table can be reached through the page of \<open>pte_addr\<close>.\<close>

lemma access_table:
  assumes "self_mapped mem dir" "frame a = frame (pte_addr va)"
  shows "mapped mem dir a \<longleftrightarrow> present (mem (pde_at dir va))"
    and "translate mem dir a = frame (mem (pde_at dir va)) + (a AND 0xFFF)"
proof -
  have i: "PDE_IDX a = 1023" "PTE_IDX a = PDE_IDX va"
    using pte_addr_parts(1,2) [of va] assms(2) idx_frame by metis+
  then show "mapped mem dir a \<longleftrightarrow> present (mem (pde_at dir va))"
    "translate mem dir a = frame (mem (pde_at dir va)) + (a AND 0xFFF)"
    using assms(1) by (simp_all add: mapped_def translate_def pte_at_def pde_at_def self_mapped_def)
qed

definition zeroed :: "(u32 \<Rightarrow> u32) \<Rightarrow> u32 \<Rightarrow> nat \<Rightarrow> u32 \<Rightarrow> u32" where
  "zeroed mem f n = (\<lambda>a. if \<exists>i < n. a = f + 4 * of_nat i then 0 else mem a)"

lemma table_word:
  assumes "i < 1024" shows "unat (4 * of_nat i :: u32) < 4096"
  using assms by (simp add: unat_word_ariths unat_of_nat)

lemma zero_table:
  assumes self: "self_mapped (pmem s) (cr3 s)" and pde: "present (pmem s (pde_at (cr3 s) va))"
    and f: "frame (pmem s (pde_at (cr3 s) va)) = f" "f \<noteq> cr3 s" and n: "n \<le> 1024"
  shows "zero_words (pte_addr va AND 0xFFFFF000) n s = Inr (s\<lparr>pmem := zeroed (pmem s) f n\<rparr>) \<and>
    self_mapped (zeroed (pmem s) f n) (cr3 s) \<and>
    (\<forall>v. zeroed (pmem s) f n (pde_at (cr3 s) v) = pmem s (pde_at (cr3 s) v))"
  using n
proof (induction n)
  case 0
  then show ?case using self by (simp add: zero_words_def zeroed_def)
next
  case (Suc n)
  let ?mem = "zeroed (pmem s) f n" and ?mem' = "zeroed (pmem s) f (Suc n)"
  let ?base = "pte_addr va AND 0xFFFFF000" and ?o = "4 * of_nat n :: u32"
  have al: "aligned f" "aligned (cr3 s)" using f(1) self by (auto simp: self_mapped_def)
  have o: "unat ?o < 4096" using table_word [of n] Suc.prems by simp
  have b: "?base = frame (pte_addr va)" by (simp add: frame_def)
  have a: "frame (?base + ?o) = frame (pte_addr va)" "(?base + ?o) AND 0xFFF = ?o"
    using aligned_add [OF aligned_frame o] unfolding b by auto
  have ih: "zero_words ?base n s = Inr (s\<lparr>pmem := ?mem\<rparr>)" "self_mapped ?mem (cr3 s)"
      "\<And>v. ?mem (pde_at (cr3 s) v) = pmem s (pde_at (cr3 s) v)"
    using Suc by auto
  have step: "?mem' = ?mem(f + ?o := 0)"
    by (rule ext) (auto simp: zeroed_def less_Suc_eq)
  have "store32 (?base + ?o) 0 (s\<lparr>pmem := ?mem\<rparr>) = Inr (s\<lparr>pmem := ?mem'\<rparr>)"
    using access_table [OF ih(2) a(1)] pde f(1) a(2) ih(3) step by (simp add: store32_def)
  then have z: "zero_words ?base (Suc n) s = Inr (s\<lparr>pmem := ?mem'\<rparr>)"
    using ih(1) by (simp add: zero_words_def foldE_append)
  have ne: "f + ?o \<noteq> cr3 s + x" if "unat x < 4096" for x
    using entry_distinct [OF al o that] f(2) by blast
  have k: "?mem' (pde_at (cr3 s) v) = pmem s (pde_at (cr3 s) v)" for v
    using ne [OF idx_offset(1) [of v]] ih(3) by (simp add: step pde_at_def)
  have "?mem' (cr3 s + 4 * 1023) = ?mem (cr3 s + 4 * 1023)" using ne [of "4 * 1023"] by (simp add: step)
  then show ?case using z k ih(2) by (simp add: self_mapped_def)
qed


text \<open>The invariant of the page tables: the self-map, and no table is the directory.\<close>

definition paging_ok :: "(u32 \<Rightarrow> u32) \<Rightarrow> u32 \<Rightarrow> bool" where
  "paging_ok mem dir \<longleftrightarrow> self_mapped mem dir \<and>
     (\<forall>v. ordinary v \<longrightarrow> present (mem (pde_at dir v)) \<longrightarrow> frame (mem (pde_at dir v)) \<noteq> dir)"

lemma page_table_add_new:
  assumes self: "self_mapped (pmem s) (cr3 s)" and absent: "\<not> present (pmem s (pde_at (cr3 s) va))"
    and va: "ordinary va" and f: "palloc (kernel_pool s) = Inr (f, kp)" "aligned f" "f \<noteq> cr3 s"
  defines "mem1 \<equiv> (pmem s)(pde_at (cr3 s) va := f OR PG_US_U OR PG_RW_W OR PG_P_1)"
  shows "page_table_add va pa s = Inr (s\<lparr>kernel_pool := kp,
      pmem := (zeroed mem1 f 1024)(f + 4 * PTE_IDX va := pa OR PG_US_U OR PG_RW_W OR PG_P_1)\<rparr>)"
    and "self_mapped (zeroed mem1 f 1024) (cr3 s)"
    and "\<And>v. zeroed mem1 f 1024 (pde_at (cr3 s) v) = mem1 (pde_at (cr3 s) v)"
    and "self_mapped mem1 (cr3 s)"
proof -
  let ?s1 = "s\<lparr>kernel_pool := kp, pmem := mem1\<rparr>"
  have al: "aligned (cr3 s)" using self by (simp add: self_mapped_def)
  note e = entry_bits [OF f(2)]
  show self1: "self_mapped mem1 (cr3 s)"
    using self pde_at_ordinary [OF al va] by (simp add: mem1_def self_mapped_def)
  have pde1: "mem1 (pde_at (cr3 s) va) = f OR PG_US_U OR PG_RW_W OR PG_P_1" by (simp add: mem1_def)
  have "self_mapped (pmem ?s1) (cr3 ?s1)" "present (pmem ?s1 (pde_at (cr3 ?s1) va))"
      "frame (pmem ?s1 (pde_at (cr3 ?s1) va)) = f" "f \<noteq> cr3 ?s1"
    using self1 pde1 e f(3) by simp_all
  note z = zero_table [OF this, of 1024]
  then show z2: "self_mapped (zeroed mem1 f 1024) (cr3 s)"
    and z3: "\<And>v. zeroed mem1 f 1024 (pde_at (cr3 s) v) = mem1 (pde_at (cr3 s) v)" by simp_all
  let ?s2 = "s\<lparr>kernel_pool := kp, pmem := zeroed mem1 f 1024\<rparr>"
  have pte: "pte_at (zeroed mem1 f 1024) (cr3 s) va = f + 4 * PTE_IDX va"
    using z3 [of va] pde1 e(1) by (simp add: pte_at_def)
  have "PTE_IDX va = of_nat (unat (PTE_IDX va))" by simp
  then have "zeroed mem1 f 1024 (f + 4 * PTE_IDX va) = 0"
    using idx_less(2) [of va] unfolding zeroed_def by metis
  then have "load32 (pte_addr va) ?s2 = Inr 0"
    using load_pte [of ?s2 va] z2 z3 [of va] pde1 e(2) pte by simp
  moreover have "store32 (pte_addr va) (pa OR PG_US_U OR PG_RW_W OR PG_P_1) ?s2 = Inr (s\<lparr>kernel_pool := kp,
      pmem := (zeroed mem1 f 1024)(f + 4 * PTE_IDX va := pa OR PG_US_U OR PG_RW_W OR PG_P_1)\<rparr>)"
    using store_pte [of ?s2 va] z2 z3 [of va] pde1 e(2) pte by simp
  moreover have "store32 (pde_addr va) (f OR PG_US_U OR PG_RW_W OR PG_P_1) (s\<lparr>kernel_pool := kp\<rparr>) = Inr ?s1"
    using store_pde [of "s\<lparr>kernel_pool := kp\<rparr>" va] self by (simp add: mem1_def)
  moreover have "load32 (pde_addr va) s = Inr (pmem s (pde_at (cr3 s) va))" by (rule load_pde [OF self])
  ultimately show "page_table_add va pa s = Inr (s\<lparr>kernel_pool := kp,
      pmem := (zeroed mem1 f 1024)(f + 4 * PTE_IDX va := pa OR PG_US_U OR PG_RW_W OR PG_P_1)\<rparr>)"
    using absent f(1) z by (simp add: page_table_add_def Let_def present_def)
qed

text \<open>A frame no present directory entry uses.\<close>

definition unused_frame :: "(u32 \<Rightarrow> u32) \<Rightarrow> u32 \<Rightarrow> u32 \<Rightarrow> bool" where
  "unused_frame mem dir f \<longleftrightarrow> aligned f \<and> f \<noteq> dir \<and>
     (\<forall>v. present (mem (pde_at dir v)) \<longrightarrow> frame (mem (pde_at dir v)) \<noteq> f)"

text \<open>The translations that a change of the tables keeps.\<close>

definition keeps_translations :: "(u32 \<Rightarrow> bool) \<Rightarrow> (u32 \<Rightarrow> u32) \<Rightarrow> (u32 \<Rightarrow> u32) \<Rightarrow> u32 \<Rightarrow> bool" where
  "keeps_translations P mem mem' dir \<longleftrightarrow>
     (\<forall>v. P v \<longrightarrow> mapped mem dir v \<longrightarrow> mapped mem' dir v \<and> translate mem' dir v = translate mem dir v)"

text \<open>A fresh, cleared page table with one entry, at a directory entry that was absent, keeps the translations.\<close>

lemma fresh_table_keeps:
  assumes ok: "paging_ok mem dir" and absent: "\<not> present (mem (pde_at dir va))" and f: "aligned f" "f \<noteq> dir"
    and unused: "\<And>v. present (mem (pde_at dir v)) \<Longrightarrow> frame (mem (pde_at dir v)) \<noteq> f"
    and pde: "\<And>v. mem' (pde_at dir v) = (mem(pde_at dir va := e)) (pde_at dir v)"
    and mem': "mem' = (zeroed (mem(pde_at dir va := e)) f 1024)(f + 4 * PTE_IDX va := w)"
  shows "keeps_translations (\<lambda>v. ordinary v \<and> P v) mem mem' dir"
  unfolding keeps_translations_def
proof (intro allI impI)
  fix v assume "ordinary v \<and> P v" and m: "mapped mem dir v"
  then have v: "present (mem (pde_at dir v))" "ordinary v" by (auto simp: mapped_def)
  then have same: "mem' (pde_at dir v) = mem (pde_at dir v)"
    using absent pde [of v] by (cases "pde_at dir v = pde_at dir va") auto
  let ?t = "frame (mem (pde_at dir v))"
  have al: "aligned dir" using ok by (simp add: paging_ok_def self_mapped_def)
  have t: "?t \<noteq> f" "?t \<noteq> dir" using unused v ok by (auto simp: paging_ok_def)
  have "?t + 4 * PTE_IDX v \<noteq> f + x" if "unat x < 4096" for x
    using entry_distinct [OF aligned_frame f(1) idx_offset(2) that] t(1) by blast
  moreover have "?t + 4 * PTE_IDX v \<noteq> pde_at dir va"
    using entry_distinct [OF aligned_frame al idx_offset(2) idx_offset(1)] t(2) unfolding pde_at_def by blast
  ultimately have "mem' (?t + 4 * PTE_IDX v) = mem (?t + 4 * PTE_IDX v)"
    unfolding mem' using table_word idx_offset(2) by (auto simp: zeroed_def)
  then show "mapped mem' dir v \<and> translate mem' dir v = translate mem dir v"
    using m same by (simp add: mapped_def translate_def pte_at_def)
qed

text \<open>
  C9. Mapping a page. With sound page tables and a page whose entry is free, \<open>page_table_add\<close>
  makes the processor translate the virtual page to the physical one, keeps the page tables sound,
  and changes no other translation, both when the page table exists and when a fresh, cleared one is
  put in the directory first.
\<close>

theorem page_table_add_maps:
  assumes "paging_ok (pmem s) (cr3 s)" "ordinary va" "aligned pa"
    and "if present (pmem s (pde_at (cr3 s) va)) then \<not> present (pmem s (pte_at (pmem s) (cr3 s) va))
         else \<exists>f kp. palloc (kernel_pool s) = Inr (f, kp) \<and> unused_frame (pmem s) (cr3 s) f"
  shows "\<exists>s'. page_table_add va pa s = Inr s' \<and> cr3 s' = cr3 s \<and> paging_ok (pmem s') (cr3 s) \<and>
    mapped (pmem s') (cr3 s) va \<and> translate (pmem s') (cr3 s) va = pa + (va AND 0xFFF) \<and>
    keeps_translations (\<lambda>v. ordinary v \<and> pte_at (pmem s) (cr3 s) v \<noteq> pte_at (pmem s) (cr3 s) va)
      (pmem s) (pmem s') (cr3 s)"
proof (cases "present (pmem s (pde_at (cr3 s) va))")
  case True
  have self: "self_mapped (pmem s) (cr3 s)" and t: "frame (pmem s (pde_at (cr3 s) va)) \<noteq> cr3 s"
    using assms(1,2) True by (auto simp: paging_ok_def)
  have free: "\<not> present (pmem s (pte_at (pmem s) (cr3 s) va))" using assms(4) True by simp
  let ?e = "pa OR PG_US_U OR PG_RW_W OR PG_P_1"
  let ?mem = "(pmem s)(pte_at (pmem s) (cr3 s) va := ?e)"
  note set_pte = set_pte_translate [OF self True t, where e = ?e]
  have ne: "pte_at (pmem s) (cr3 s) va \<noteq> pde_at (cr3 s) v" for v
    using pde_at_neq_pte_at [of "cr3 s" "pmem s" va v] self t by (simp add: self_mapped_def)
  then have "?mem (pde_at (cr3 s) v) = pmem s (pde_at (cr3 s) v)" for v by (metis fun_upd_other)
  then have "paging_ok ?mem (cr3 s)"
    using assms(1) set_pte(1) by (simp add: paging_ok_def)
  then show ?thesis
    using page_table_add_present [OF self True, of pa] free set_pte(2,3,5) entry_bits [OF assms(3)]
    by (auto simp: keeps_translations_def)
next
  case False
  then obtain f kp where f: "palloc (kernel_pool s) = Inr (f, kp)" "aligned f" "f \<noteq> cr3 s"
      "\<And>v. present (pmem s (pde_at (cr3 s) v)) \<Longrightarrow> frame (pmem s (pde_at (cr3 s) v)) \<noteq> f"
    using assms(4) by (auto simp: unused_frame_def)
  have self: "self_mapped (pmem s) (cr3 s)" using assms(1) by (simp add: paging_ok_def)
  note new = page_table_add_new [OF self False assms(2) f(1-3)]
  let ?e = "pa OR PG_US_U OR PG_RW_W OR PG_P_1" and ?pde = "f OR PG_US_U OR PG_RW_W OR PG_P_1"
  let ?mem1 = "(pmem s)(pde_at (cr3 s) va := ?pde)"
  let ?mem2 = "zeroed ?mem1 f 1024"
  let ?mem3 = "?mem2(f + 4 * PTE_IDX va := ?e)"
  note e = entry_bits [OF f(2)]
  have al: "aligned (cr3 s)" using self by (simp add: self_mapped_def)
  have pde2: "?mem2 (pde_at (cr3 s) va) = ?pde" using new(3) [of va] by simp
  have pte2: "pte_at ?mem2 (cr3 s) va = f + 4 * PTE_IDX va" using pde2 e(1) by (simp add: pte_at_def)
  have "frame (?mem2 (pde_at (cr3 s) va)) \<noteq> cr3 s" "present (?mem2 (pde_at (cr3 s) va))"
    using pde2 e f(3) by simp_all
  note set_pte = set_pte_translate [OF new(2) this(2,1), where e = ?e, unfolded pte2]
  have ne: "f + x \<noteq> cr3 s + y" if "unat x < 4096" "unat y < 4096" for x y
    using entry_distinct [OF f(2) al that] f(3) by blast
  have pde3: "?mem3 (pde_at (cr3 s) v) = ?mem1 (pde_at (cr3 s) v)" for v
    using new(3) [of v] ne [OF idx_offset(2) idx_offset(1), of va v] by (simp add: pde_at_def)
  have "paging_ok ?mem3 (cr3 s)"
    unfolding paging_ok_def pde3
    using assms(1) e(1) f(3) by (intro conjI set_pte(1)) (simp add: paging_ok_def)
  moreover have "keeps_translations (\<lambda>v. ordinary v \<and> pte_at (pmem s) (cr3 s) v \<noteq> pte_at (pmem s) (cr3 s) va)
      (pmem s) ?mem3 (cr3 s)"
    by (rule fresh_table_keeps [OF assms(1) False f(2-4) pde3 refl])
  moreover have "mapped ?mem3 (cr3 s) va" by (rule set_pte(2) [OF entry_bits(2) [OF assms(3)]])
  moreover have "translate ?mem3 (cr3 s) va = pa + (va AND 0xFFF)"
    using set_pte(3) unfolding entry_bits(1) [OF assms(3)] .
  ultimately show ?thesis
    unfolding new(1)
    by (intro exI [of _ "s\<lparr>kernel_pool := kp, pmem := ?mem3\<rparr>"]) (simp del: fun_upd_apply)
qed

text \<open>
  C23. Unmapping a page clears its entry and nothing else: the page is no longer translated, and
  every address with another entry is translated as before.
\<close>

theorem page_table_pte_remove_unmaps:
  assumes "paging_ok (pmem s) (cr3 s)" "ordinary va" "mapped (pmem s) (cr3 s) va"
  shows "\<exists>s'. page_table_pte_remove va s = Inr s' \<and> cr3 s' = cr3 s \<and> paging_ok (pmem s') (cr3 s) \<and>
    \<not> mapped (pmem s') (cr3 s) va \<and>
    keeps_translations (\<lambda>v. pte_at (pmem s) (cr3 s) v \<noteq> pte_at (pmem s) (cr3 s) va)
      (pmem s) (pmem s') (cr3 s)"
proof -
  have self: "self_mapped (pmem s) (cr3 s)" and p: "present (pmem s (pde_at (cr3 s) va))"
    and t: "frame (pmem s (pde_at (cr3 s) va)) \<noteq> cr3 s"
    using assms by (auto simp: paging_ok_def mapped_def)
  let ?e = "pmem s (pte_at (pmem s) (cr3 s) va) AND NOT PG_P_1"
  let ?mem = "(pmem s)(pte_at (pmem s) (cr3 s) va := ?e)"
  note set_pte = set_pte_translate [OF self p t, where e = ?e]
  have "?e AND 1 = 0" by (rule bit_word_eqI) (auto simp: bit_simps PG_P_1_def)
  then have e: "\<not> present ?e" by (simp add: present_def)
  have ne: "pte_at (pmem s) (cr3 s) va \<noteq> pde_at (cr3 s) v" for v
    using pde_at_neq_pte_at [of "cr3 s" "pmem s" va v] self t by (simp add: self_mapped_def)
  then have "?mem (pde_at (cr3 s) v) = pmem s (pde_at (cr3 s) v)" for v by (metis fun_upd_other)
  then have "paging_ok ?mem (cr3 s)" using assms(1) set_pte(1) by (simp add: paging_ok_def)
  moreover have "page_table_pte_remove va s = Inr (s\<lparr>pmem := ?mem\<rparr>)"
    using p self by (simp add: page_table_pte_remove_def load_pte store_pte)
  ultimately show ?thesis
    using set_pte(4) [OF e] set_pte(5) by (auto simp: keeps_translations_def simp del: fun_upd_apply)
qed


section \<open>The page tables at boot\<close>

text \<open>
  As the loader leaves them: the directory at 1 MB, one table behind it for the first 4 MB of the
  kernel half, and the self-map. The pools hold 32 pages each.
\<close>

definition boot_mem :: "u32 \<Rightarrow> u32" where
  "boot_mem a = (if a = 0x100FFC then 0x100007 else if a = 0x100C00 then 0x101007 else 0)"

definition boot_pool :: "u32 \<Rightarrow> pool" where
  "boot_pool start = \<lparr>pool_bitmap = \<lparr>btmp_byte_len = 4, bits = replicate 5 0\<rparr>,
     phy_addr_start = start, pool_size = 32 * 4096, pool_mutex = mutex_init\<rparr>"

definition boot_vm :: vm where
  "boot_vm = \<lparr>if_flag = False, tcbs = tcbs three_threads, thread_ready_list = [2],
     thread_all_list = [1, 2, 3], cur = 1, main_thread = 1, idle_thread = 3, ticks = 0, v2p = id,
     cr3 = 0x100000, tss_esp0 = 0, pmem = boot_mem, kernel_pool = boot_pool 0x200000,
     user_pool = boot_pool 0x220000,
     kernel_vaddr = \<lparr>vaddr_bitmap = \<lparr>btmp_byte_len = 4, bits = replicate 5 0\<rparr>, vaddr_start = 0xC0100000\<rparr>\<rparr>"

lemma boot_paging_ok: "paging_ok (pmem boot_vm) (cr3 boot_vm)"
proof -
  have "self_mapped boot_mem 0x100000"
    by (simp add: self_mapped_def boot_mem_def aligned_def present_def frame_def)
  moreover have "frame (boot_mem (pde_at 0x100000 v)) \<noteq> 0x100000"
    if "ordinary v" "present (boot_mem (pde_at 0x100000 v))" for v
  proof -
    have "pde_at 0x100000 v \<noteq> 0x100FFC" using pde_at_ordinary [OF _ that(1), of "0x100000"] by (simp add: aligned_def)
    then show ?thesis using that(2) by (auto simp: boot_mem_def present_def frame_def)
  qed
  ultimately show ?thesis by (simp add: boot_vm_def paging_ok_def)
qed

lemma boot_entries:
  "pde_at 0x100000 0xC0100000 = 0x100C00" "pte_at boot_mem 0x100000 0xC0100000 = 0x101400"
  "pde_at 0x100000 0xC0123000 = 0x100C00" "pte_at boot_mem 0x100000 0xC0123000 = 0x10148C"
  by (simp_all add: pde_at_def pte_at_def PDE_IDX_def PTE_IDX_def boot_mem_def frame_def)

lemma page_table_add_maps_witness:
  "\<exists>s'. page_table_add 0xC0100000 0x200000 boot_vm = Inr s' \<and> mapped (pmem s') 0x100000 0xC0100000 \<and>
     translate (pmem s') 0x100000 0xC0100000 = 0x200000"
proof -
  have "ordinary 0xC0100000" "aligned 0x200000" by (simp_all add: ordinary_def PDE_IDX_def aligned_def)
  from page_table_add_maps [OF boot_paging_ok this] show ?thesis
    by (auto simp: boot_vm_def boot_entries boot_mem_def present_def)
qed

text \<open>A state in which one more page is mapped.\<close>

definition one_page_vm :: vm where
  "one_page_vm = boot_vm\<lparr>pmem := boot_mem(0x101400 := 0x200007)\<rparr>"

lemma one_page_vm_ok:
  "paging_ok (pmem one_page_vm) (cr3 one_page_vm)" "mapped (pmem one_page_vm) (cr3 one_page_vm) 0xC0100000"
proof -
  have "0x100000 + 4 * PDE_IDX v \<noteq> 0x101400" for v
    using entry_distinct [of "0x100000" "0x101000" "4 * PDE_IDX v" "0x400"] idx_offset(1) [of v]
    by (auto simp: aligned_def)
  then show "paging_ok (pmem one_page_vm) (cr3 one_page_vm)"
    using boot_paging_ok by (simp add: one_page_vm_def boot_vm_def paging_ok_def self_mapped_def pde_at_def)
  show "mapped (pmem one_page_vm) (cr3 one_page_vm) 0xC0100000"
    by (simp add: one_page_vm_def boot_vm_def mapped_def pte_at_def pde_at_def PDE_IDX_def PTE_IDX_def
        boot_mem_def frame_def present_def)
qed

lemma addr_v2p_translates_witness:
  "addr_v2p 0xC0100123 one_page_vm = Inr 0x200123"
proof -
  have m: "mapped (pmem one_page_vm) (cr3 one_page_vm) 0xC0100123"
    "translate (pmem one_page_vm) (cr3 one_page_vm) 0xC0100123 = 0x200123"
    by (simp_all add: one_page_vm_def boot_vm_def mapped_def translate_def pte_at_def pde_at_def PDE_IDX_def
        PTE_IDX_def boot_mem_def frame_def present_def)
  have "self_mapped (pmem one_page_vm) (cr3 one_page_vm)" using one_page_vm_ok(1) by (simp add: paging_ok_def)
  from addr_v2p_translates [OF this m(1)] show ?thesis unfolding m(2) .
qed

lemma page_table_pte_remove_unmaps_witness:
  "\<exists>s'. page_table_pte_remove 0xC0100000 one_page_vm = Inr s' \<and> \<not> mapped (pmem s') 0x100000 0xC0100000"
proof -
  have "ordinary 0xC0100000" "cr3 one_page_vm = 0x100000"
    by (simp_all add: ordinary_def PDE_IDX_def one_page_vm_def boot_vm_def)
  with page_table_pte_remove_unmaps [OF one_page_vm_ok(1) _ one_page_vm_ok(2)] show ?thesis by auto
qed

end
