(* ===== verification/Page_Alloc.thy ===== *)
theory Page_Alloc
  imports Paging
begin

text \<open>
  The page allocator of \<open>kernel/memory.c\<close>: the two pools of physical pages, the virtual address
  bitmaps of the kernel and of each process, and the operations that hand out and take back whole
  pages.
\<close>

datatype pool_flags = PF_KERNEL | PF_USER

definition K_HEAP_START :: u32 where "K_HEAP_START = 0xC0100000"

text \<open>The pool a flag selects, and its replacement.\<close>

definition mem_pool :: "pool_flags \<Rightarrow> 'a vm_scheme \<Rightarrow> pool" where
  "mem_pool pf s = (if pf = PF_KERNEL then kernel_pool s else user_pool s)"

definition set_pool :: "pool_flags \<Rightarrow> pool \<Rightarrow> 'a vm_scheme \<Rightarrow> 'a vm_scheme" where
  "set_pool pf p s = (if pf = PF_KERNEL then s\<lparr>kernel_pool := p\<rparr> else s\<lparr>user_pool := p\<rparr>)"

definition pool_acquire :: "pool_flags \<Rightarrow> 'a vm_scheme \<Rightarrow> 'a vm_scheme res" where
  "pool_acquire pf s =
     bindE (mutex_acquire (pool_mutex (mem_pool pf s)) s) (\<lambda>(m, s).
       Inr (set_pool pf ((mem_pool pf s)\<lparr>pool_mutex := m\<rparr>) s))"

definition pool_release :: "pool_flags \<Rightarrow> 'a vm_scheme \<Rightarrow> 'a vm_scheme res" where
  "pool_release pf s =
     bindE (mutex_release (pool_mutex (mem_pool pf s)) s) (\<lambda>(m, s).
       Inr (set_pool pf ((mem_pool pf s)\<lparr>pool_mutex := m\<rparr>) s))"

section \<open>Initialisation\<close>

text \<open>
  \<open>mem_pool_init\<close> on a machine with \<open>all_mem\<close> bytes. The page counts are kept in 16 bits. The three
  bitmaps lie behind each other from \<open>MEM_BITMAP_BASE\<close> on; each is modelled with its own bytes and
  one more, the first of what follows.
\<close>

definition new_bitmap :: "u32 \<Rightarrow> bitmap" where
  "new_bitmap len = \<lparr>btmp_byte_len = unat len, bits = replicate (unat len + 1) 0\<rparr>"

definition mem_pool_init :: "u32 \<Rightarrow> 'a vm_scheme \<Rightarrow> 'a vm_scheme" where
  "mem_pool_init all_mem s =
     (let page_table_size = 4096 * 256;
          used_mem = page_table_size + 0x100000;
          free_mem = all_mem - used_mem;
          all_free_page = ucast (free_mem div 4096) :: u16;
          kernel_free_pages = all_free_page div 2;
          user_free_pages = all_free_page - kernel_free_pages;
          kbm_length = ucast kernel_free_pages div 8;
          kp_start = used_mem;
          ubm_length = ucast user_free_pages div 8;
          up_start = kp_start + ucast kernel_free_pages * 4096
      in s\<lparr>kernel_pool := \<lparr>pool_bitmap = new_bitmap kbm_length, phy_addr_start = kp_start,
             pool_size = ucast kernel_free_pages * 4096, pool_mutex = mutex_init\<rparr>,
           user_pool := \<lparr>pool_bitmap = new_bitmap ubm_length, phy_addr_start = up_start,
             pool_size = ucast user_free_pages * 4096, pool_mutex = mutex_init\<rparr>,
           kernel_vaddr := \<lparr>vaddr_bitmap = new_bitmap kbm_length, vaddr_start = K_HEAP_START\<rparr>\<rparr>)"

section \<open>Virtual pages\<close>

text \<open>\<open>while (cnt < pg_cnt) bitmap_set(b, bit_idx_start + cnt++, value);\<close>\<close>

definition set_range :: "nat \<Rightarrow> nat \<Rightarrow> int \<Rightarrow> bitmap \<Rightarrow> bitmap res" where
  "set_range start cnt v = foldE (\<lambda>i b. bitmap_set b (start + i) v) [0..<cnt]"

definition upd_uvaddr :: "bitmap \<Rightarrow> 'a vm_scheme \<Rightarrow> 'a vm_scheme" where
  "upd_uvaddr b s = upd_tcb (running_thread s)
     (\<lambda>p. p\<lparr>userprog_vaddr := (userprog_vaddr p)\<lparr>vaddr_bitmap := b\<rparr>\<rparr>) s"

definition vaddr_get :: "pool_flags \<Rightarrow> nat \<Rightarrow> 'a vm_scheme \<Rightarrow> (u32 \<times> 'a vm_scheme) res" where
  "vaddr_get pf pg_cnt s =
     (if pf = PF_KERNEL then
        bindE (bitmap_scan (vaddr_bitmap (kernel_vaddr s)) pg_cnt) (\<lambda>bit_idx_start.
        if bit_idx_start = - 1 then Inr (NULL, s)
        else bindE (set_range (nat bit_idx_start) pg_cnt 1 (vaddr_bitmap (kernel_vaddr s))) (\<lambda>b.
          Inr (vaddr_start (kernel_vaddr s) + of_int bit_idx_start * 4096,
               s\<lparr>kernel_vaddr := (kernel_vaddr s)\<lparr>vaddr_bitmap := b\<rparr>\<rparr>)))
      else
        let uv = userprog_vaddr (tcbs s (running_thread s)) in
        bindE (bitmap_scan (vaddr_bitmap uv) pg_cnt) (\<lambda>bit_idx_start.
        if bit_idx_start = - 1 then Inr (NULL, s)
        else bindE (set_range (nat bit_idx_start) pg_cnt 1 (vaddr_bitmap uv)) (\<lambda>b.
          let va = vaddr_start uv + of_int bit_idx_start * 4096 in
          asserting (va < 0xC0000000 - 4096) (Inr (va, upd_uvaddr b s)))))"

definition vaddr_remove :: "pool_flags \<Rightarrow> u32 \<Rightarrow> nat \<Rightarrow> 'a vm_scheme \<Rightarrow> 'a vm_scheme res" where
  "vaddr_remove pf vaddr pg_cnt s =
     (if pf = PF_KERNEL then
        let bit_idx_start = (vaddr - vaddr_start (kernel_vaddr s)) div 4096 in
        bindE (set_range (unat bit_idx_start) pg_cnt 0 (vaddr_bitmap (kernel_vaddr s))) (\<lambda>b.
          Inr (s\<lparr>kernel_vaddr := (kernel_vaddr s)\<lparr>vaddr_bitmap := b\<rparr>\<rparr>))
      else
        let uv = userprog_vaddr (tcbs s (running_thread s));
            bit_idx_start = (vaddr - vaddr_start uv) div 4096 in
        bindE (set_range (unat bit_idx_start) pg_cnt 0 (vaddr_bitmap uv)) (\<lambda>b. Inr (upd_uvaddr b s)))"

section \<open>Allocating pages\<close>

text \<open>
  The loop of \<open>malloc_page\<close>: a physical page for each virtual one. When the pool runs dry it
  returns \<open>NULL\<close> with what was allocated so far still taken.
\<close>

fun map_pages :: "pool_flags \<Rightarrow> nat \<Rightarrow> u32 \<Rightarrow> 'a vm_scheme \<Rightarrow> (bool \<times> 'a vm_scheme) res" where
  "map_pages pf 0 vaddr s = Inr (True, s)"
| "map_pages pf (Suc cnt) vaddr s =
     bindE (palloc (mem_pool pf s)) (\<lambda>(page_phyaddr, p).
     let s = set_pool pf p s in
     if page_phyaddr = NULL then Inr (False, s)
     else bindE (page_table_add vaddr page_phyaddr s) (\<lambda>s. map_pages pf cnt (vaddr + 4096) s))"

definition malloc_page :: "pool_flags \<Rightarrow> nat \<Rightarrow> 'a vm_scheme \<Rightarrow> (u32 \<times> 'a vm_scheme) res" where
  "malloc_page pf pg_cnt s =
     asserting (pg_cnt > 0 \<and> pg_cnt < 3840)
     (bindE (vaddr_get pf pg_cnt s) (\<lambda>(vaddr_start, s).
      if vaddr_start = NULL then Inr (NULL, s)
      else bindE (map_pages pf pg_cnt vaddr_start s) (\<lambda>(ok, s).
        Inr (if ok then vaddr_start else NULL, s))))"

definition get_kernel_pages :: "nat \<Rightarrow> 'a vm_scheme \<Rightarrow> (u32 \<times> 'a vm_scheme) res" where
  "get_kernel_pages pg_cnt s =
     bindE (pool_acquire PF_KERNEL s) (\<lambda>s.
     bindE (malloc_page PF_KERNEL pg_cnt s) (\<lambda>(vaddr, s).
     bindE (if vaddr \<noteq> NULL then zero_words vaddr (pg_cnt * 1024) s else Inr s) (\<lambda>s.
     bindE (pool_release PF_KERNEL s) (\<lambda>s. Inr (vaddr, s)))))"

text \<open>Here the result is cleared without a check; at \<open>NULL\<close> the string function asserts.\<close>

definition get_user_pages :: "nat \<Rightarrow> 'a vm_scheme \<Rightarrow> (u32 \<times> 'a vm_scheme) res" where
  "get_user_pages pg_cnt s =
     bindE (pool_acquire PF_USER s) (\<lambda>s.
     bindE (malloc_page PF_USER pg_cnt s) (\<lambda>(vaddr, s).
     asserting (vaddr \<noteq> NULL)
     (bindE (zero_words vaddr (pg_cnt * 1024) s) (\<lambda>s.
      bindE (pool_release PF_USER s) (\<lambda>s. Inr (vaddr, s))))))"

text \<open>
  \<open>ASSERT(bit_idx > 0)\<close> is on a signed integer. When no physical page is left the function returns
  with the pool still locked.
\<close>

definition get_a_page :: "pool_flags \<Rightarrow> u32 \<Rightarrow> 'a vm_scheme \<Rightarrow> (u32 \<times> 'a vm_scheme) res" where
  "get_a_page pf vaddr s =
     bindE (pool_acquire pf s) (\<lambda>s.
     let c = tcbs s (running_thread s) in
     bindE
       (if pgdir c \<noteq> NULL \<and> pf = PF_USER then
          let bit_idx = (vaddr - vaddr_start (userprog_vaddr c)) div 4096 in
          asserting (sint bit_idx > 0)
          (bindE (bitmap_set (vaddr_bitmap (userprog_vaddr c)) (unat bit_idx) 1) (\<lambda>b.
             Inr (upd_uvaddr b s)))
        else if pgdir c = NULL \<and> pf = PF_KERNEL then
          let bit_idx = (vaddr - vaddr_start (kernel_vaddr s)) div 4096 in
          asserting (sint bit_idx > 0)
          (bindE (bitmap_set (vaddr_bitmap (kernel_vaddr s)) (unat bit_idx) 1) (\<lambda>b.
             Inr (s\<lparr>kernel_vaddr := (kernel_vaddr s)\<lparr>vaddr_bitmap := b\<rparr>\<rparr>)))
        else Inl Panicked)
       (\<lambda>s. bindE (palloc (mem_pool pf s)) (\<lambda>(page_phyaddr, p).
        let s = set_pool pf p s in
        if page_phyaddr = NULL then Inr (NULL, s)
        else bindE (page_table_add vaddr page_phyaddr s) (\<lambda>s.
          bindE (pool_release pf s) (\<lambda>s. Inr (vaddr, s))))))"

definition get_a_page_without_opvaddrbitmap ::
  "pool_flags \<Rightarrow> u32 \<Rightarrow> 'a vm_scheme \<Rightarrow> (u32 \<times> 'a vm_scheme) res" where
  "get_a_page_without_opvaddrbitmap pf vaddr s =
     bindE (pool_acquire pf s) (\<lambda>s.
     bindE (palloc (mem_pool pf s)) (\<lambda>(page_phyaddr, p).
     let s = set_pool pf p s in
     if page_phyaddr = NULL then bindE (pool_release pf s) (\<lambda>s. Inr (NULL, s))
     else bindE (page_table_add vaddr page_phyaddr s) (\<lambda>s.
       bindE (pool_release pf s) (\<lambda>s. Inr (vaddr, s)))))"

section \<open>Freeing pages\<close>

definition pfree :: "u32 \<Rightarrow> 'a vm_scheme \<Rightarrow> 'a vm_scheme res" where
  "pfree pg_phy_addr s =
     (let pf = (if phy_addr_start (user_pool s) \<le> pg_phy_addr then PF_USER else PF_KERNEL);
          p = mem_pool pf s;
          bit_idx = (pg_phy_addr - phy_addr_start p) div 4096 in
      bindE (bitmap_set (pool_bitmap p) (unat bit_idx) 0) (\<lambda>b.
        Inr (set_pool pf (p\<lparr>pool_bitmap := b\<rparr>) s)))"

definition free_a_phy_page :: "u32 \<Rightarrow> 'a vm_scheme \<Rightarrow> 'a vm_scheme res" where
  "free_a_phy_page pg_phy_page s =
     (let pf = (if pg_phy_page \<ge> phy_addr_start (user_pool s) then PF_USER else PF_KERNEL);
          p = mem_pool pf s;
          bit_idx = (pg_phy_page - phy_addr_start p) div 4096 in
      bindE (bitmap_set (pool_bitmap p) (unat bit_idx) 0) (\<lambda>b.
        Inr (set_pool pf (p\<lparr>pool_bitmap := b\<rparr>) s)))"

text \<open>The loop of \<open>mfree_page\<close>; the pool the first page belongs to decides what is asserted.\<close>

fun free_pages :: "bool \<Rightarrow> nat \<Rightarrow> u32 \<Rightarrow> 'a vm_scheme \<Rightarrow> 'a vm_scheme res" where
  "free_pages user 0 vaddr s = Inr s"
| "free_pages user (Suc pg_cnt) vaddr s =
     bindE (addr_v2p vaddr s) (\<lambda>pg_phy_addr.
     asserting (pg_phy_addr mod 4096 = 0 \<and>
       (if user then phy_addr_start (user_pool s) \<le> pg_phy_addr
        else phy_addr_start (kernel_pool s) \<le> pg_phy_addr \<and> pg_phy_addr < phy_addr_start (user_pool s)))
     (bindE (pfree pg_phy_addr s) (\<lambda>s.
      bindE (page_table_pte_remove vaddr s) (\<lambda>s. free_pages user pg_cnt (vaddr + 4096) s))))"

definition mfree_page :: "pool_flags \<Rightarrow> u32 \<Rightarrow> nat \<Rightarrow> 'a vm_scheme \<Rightarrow> 'a vm_scheme res" where
  "mfree_page pf vaddr pg_cnt s =
     asserting (pg_cnt \<ge> 1 \<and> vaddr mod 4096 = 0)
     (bindE (addr_v2p vaddr s) (\<lambda>pg_phy_addr.
      asserting (pg_phy_addr mod 4096 = 0 \<and> pg_phy_addr \<ge> 0x102000)
      (bindE (free_pages (pg_phy_addr \<ge> phy_addr_start (user_pool s)) pg_cnt vaddr s) (\<lambda>s.
         vaddr_remove pf vaddr pg_cnt s))))"


section \<open>The pools after initialisation\<close>

lemma new_bitmap_free:
  "wf_bitmap (new_bitmap n)" "bit_cnt (new_bitmap n) = 8 * unat n" "i < bit_cnt (new_bitmap n) + 8 \<Longrightarrow> \<not> taken (new_bitmap n) i"
proof -
  show "i < bit_cnt (new_bitmap n) + 8 \<Longrightarrow> \<not> taken (new_bitmap n) i"
    using nth_replicate [of "i div 8" "Suc (unat n)" "0 :: u8"]
    by (simp add: new_bitmap_def bit_cnt_def taken_def div_less_iff_less_mult del: replicate_Suc)
qed (simp_all add: new_bitmap_def wf_bitmap_def bit_cnt_def)

lemma unat_ucast_div8: "unat (ucast (w :: u16) div 8 :: u32) = unat w div 8"
  by (simp add: unat_div)

text \<open>
  C30. On a machine with between 2 MB and 258 MB the pools are laid out as planned: the kernel's pages
  start at 2 MB, the user's behind them, they end within the memory with less than a page to spare,
  both have all their pages free, and no bitmap covers more than its pool.
\<close>

theorem mem_pool_init_layout:
  assumes "0x200000 \<le> unat all_mem" "unat all_mem < 0x200000 + 65536 * 4096"
  shows "let s' = mem_pool_init all_mem s; k = kernel_pool s'; u = user_pool s' in
     unat (phy_addr_start k) = 0x200000 \<and>
     unat (phy_addr_start u) = unat (phy_addr_start k) + unat (pool_size k) \<and>
     unat (phy_addr_start u) + unat (pool_size u) \<le> unat all_mem \<and>
     unat all_mem < unat (phy_addr_start u) + unat (pool_size u) + 4096 \<and>
     bit_cnt (pool_bitmap k) * 4096 \<le> unat (pool_size k) \<and>
     bit_cnt (pool_bitmap u) * 4096 \<le> unat (pool_size u) \<and>
     (\<forall>i < bit_cnt (pool_bitmap k). \<not> taken (pool_bitmap k) i) \<and>
     (\<forall>i < bit_cnt (pool_bitmap u). \<not> taken (pool_bitmap u) i)"
proof -
  define n where "n = (unat all_mem - 0x200000) div 4096"
  have n: "n < 65536" using assms by (simp add: n_def div_less_iff_less_mult)
  let ?free = "ucast ((all_mem - 0x200000) div 4096) :: u16"
  have "0x200000 \<le> all_mem" using assms(1) by (simp add: word_le_nat_alt)
  then have "unat (all_mem - 0x200000) = unat all_mem - 0x200000" by (simp add: unat_sub)
  then have "unat ((all_mem - 0x200000) div 4096) = n" by (simp add: unat_div n_def)
  then have free: "unat ?free = n" using n by (simp add: unsigned_ucast_eq take_bit_nat_eq_self)
  let ?k = "?free div 2" and ?u = "?free - ?free div 2"
  have "unat ?k = unat ?free div unat (2 :: u16)" by (rule unat_div)
  then have k: "unat ?k = n div 2" unfolding free by simp
  then have "?k \<le> ?free" by (simp add: word_le_nat_alt free)
  then have u: "unat ?u = n - n div 2" using k free by (simp add: unat_sub)
  have pk: "unat (ucast ?k * 4096 :: u32) = n div 2 * 4096"
    using n by (simp add: unat_word_ariths(2) k del: unat_div)
  have pu: "unat (ucast ?u * 4096 :: u32) = (n - n div 2) * 4096"
    using n by (simp add: unat_word_ariths(2) u)
  have su: "unat (0x200000 + ucast ?k * 4096 :: u32) = 0x200000 + n div 2 * 4096"
    using n by (simp add: unat_word_ariths(1) pk)
  have bk: "unat (ucast ?k div 8 :: u32) = n div 2 div 8" "unat (ucast ?u div 8 :: u32) = (n - n div 2) div 8"
    by (simp_all add: unat_ucast_div8 k u)
  have "n * 4096 \<le> unat all_mem - 0x200000" "unat all_mem - 0x200000 < n * 4096 + 4096"
    by (simp_all add: n_def)
  moreover obtain r where r: "n = n div 2 + r" by (metis div_le_dividend le_iff_add)
  then have "n * 4096 = n div 2 * 4096 + r * 4096" by (metis add_mult_distrib)
  moreover have "n - n div 2 = r" using r by linarith
  ultimately have tot: "0x200000 + n div 2 * 4096 + (n - n div 2) * 4096 \<le> unat all_mem"
      "unat all_mem < 0x200000 + n div 2 * 4096 + (n - n div 2) * 4096 + 4096"
    using assms(1) by linarith+
  then show ?thesis
    using pk pu su bk new_bitmap_free(2,3)
    by (simp add: mem_pool_init_def Let_def)
qed

text \<open>With 512 MB the 16-bit page count drops 65536 pages: the pools end at 256 MB.\<close>

lemma mem_pool_init_512MB:
  "phy_addr_start (user_pool (mem_pool_init 0x20000000 boot_vm)) +
   pool_size (user_pool (mem_pool_init 0x20000000 boot_vm)) = 0x10000000"
  by (simp add: mem_pool_init_def Let_def)

lemma mem_pool_init_layout_witness:
  "bit_cnt (pool_bitmap (user_pool (mem_pool_init 0x2000000 boot_vm))) * 4096
     \<le> unat (pool_size (user_pool (mem_pool_init 0x2000000 boot_vm)))"
  using mem_pool_init_layout [of "0x2000000" boot_vm] unfolding Let_def by simp

section \<open>Physical pages\<close>

lemma set_range_eq:
  assumes "start + cnt \<le> 8 * length (bits b)" "v = 0 \<or> v = 1"
  shows "\<exists>b'. set_range start cnt v b = Inr b' \<and> length (bits b') = length (bits b) \<and>
    btmp_byte_len b' = btmp_byte_len b \<and>
    (\<forall>j < 8 * length (bits b). taken b' j \<longleftrightarrow> (if start \<le> j \<and> j < start + cnt then v = 1 else taken b j))"
  using assms(1)
proof (induction cnt)
  case (Suc cnt)
  then obtain b1 where b1: "set_range start cnt v b = Inr b1" "length (bits b1) = length (bits b)"
      "btmp_byte_len b1 = btmp_byte_len b"
      "\<forall>j < 8 * length (bits b). taken b1 j \<longleftrightarrow> (if start \<le> j \<and> j < start + cnt then v = 1 else taken b j)"
    by auto
  obtain b2 where "bitmap_set b1 (start + cnt) v = Inr b2" "length (bits b2) = length (bits b1)"
      "btmp_byte_len b2 = btmp_byte_len b1"
      "\<forall>j < 8 * length (bits b1). taken b2 j \<longleftrightarrow> (if j = start + cnt then v = 1 else taken b1 j)"
    using bitmap_set_eq [of "start + cnt" b1 v] Suc.prems b1(2) assms(2) by auto
  with b1 show ?case by (auto simp: set_range_def foldE_append less_Suc_eq)
qed (auto simp: set_range_def)

text \<open>The pages a pool has handed out, as a set of physical addresses.\<close>

definition page_of :: "pool \<Rightarrow> nat \<Rightarrow> u32" where
  "page_of p i = phy_addr_start p + of_nat i * 4096"

definition pool_ok :: "pool \<Rightarrow> bool" where
  "pool_ok p \<longleftrightarrow> wf_bitmap (pool_bitmap p) \<and> phy_addr_start p \<noteq> 0 \<and>
     unat (phy_addr_start p) + bit_cnt (pool_bitmap p) * 4096 < 2 ^ 32"

lemma page_of_unat:
  assumes "pool_ok p" "i < bit_cnt (pool_bitmap p)"
  shows "unat (page_of p i) = unat (phy_addr_start p) + i * 4096"
    "unat ((page_of p i - phy_addr_start p) div 4096) = i"
proof -
  have i: "unat (phy_addr_start p) + i * 4096 < 2 ^ 32" "i < 2 ^ 32"
    using assms by (auto simp: pool_ok_def)
  show "unat (page_of p i) = unat (phy_addr_start p) + i * 4096"
    using i by (simp add: page_of_def unat_word_ariths unat_of_nat)
  have "unat (of_nat i * 4096 :: u32) = i * 4096" using i by (simp add: unat_word_ariths unat_of_nat)
  then show "unat ((page_of p i - phy_addr_start p) div 4096) = i"
    by (simp add: page_of_def unat_div)
qed

lemma palloc_eq:
  assumes "pool_ok p" "has_free (pool_bitmap p)"
  shows "\<exists>i b'. palloc p = Inr (page_of p i, p\<lparr>pool_bitmap := b'\<rparr>) \<and> i < bit_cnt (pool_bitmap p) \<and>
    \<not> taken (pool_bitmap p) i \<and> wf_bitmap b' \<and> bit_cnt b' = bit_cnt (pool_bitmap p) \<and>
    (\<forall>j < bit_cnt (pool_bitmap p). taken b' j \<longleftrightarrow> j = i \<or> taken (pool_bitmap p) j)"
proof -
  let ?b = "pool_bitmap p"
  have wf: "wf_bitmap ?b" using assms(1) by (simp add: pool_ok_def)
  obtain i where i: "bitmap_scan ?b 1 = Inr (int i)" "i < bit_cnt ?b" "\<not> taken ?b i"
    using bitmap_scan_from_first [OF wf assms(2)] by metis
  have len: "bit_cnt ?b \<le> 8 * length (bits ?b)" using wf by (simp add: wf_bitmap_def bit_cnt_def)
  then obtain b' where "bitmap_set ?b i 1 = Inr b'" "length (bits b') = length (bits ?b)"
      "btmp_byte_len b' = btmp_byte_len ?b"
      "\<forall>j < 8 * length (bits ?b). taken b' j \<longleftrightarrow> (if j = i then (1::int) = 1 else taken ?b j)"
    using bitmap_set_eq [of i ?b 1] i(2) by auto
  with i len wf show ?thesis
    by (intro exI [of _ i] exI [of _ b']) (simp add: palloc_def page_of_def wf_bitmap_def bit_cnt_def add.commute)
qed

text \<open>Both pools are sound and the kernel's lies below the user's.\<close>

definition pools_ok :: "'a vm_scheme \<Rightarrow> bool" where
  "pools_ok s \<longleftrightarrow> pool_ok (kernel_pool s) \<and> pool_ok (user_pool s) \<and>
     unat (phy_addr_start (kernel_pool s)) + bit_cnt (pool_bitmap (kernel_pool s)) * 4096
       \<le> unat (phy_addr_start (user_pool s))"

lemma set_pool_sel [simp]:
  "mem_pool pf (set_pool pf p s) = p"
  "pf \<noteq> pf' \<Longrightarrow> mem_pool pf' (set_pool pf p s) = mem_pool pf' s"
  by (cases pf; cases pf'; simp add: mem_pool_def set_pool_def)+



section \<open>Virtual pages\<close>



end
