(* ===== verification/Arena.thy ===== *)
theory Arena
  imports Page_Alloc
begin

text \<open>
  The heap of \<open>kernel/memory.c\<close>: \<open>sys_malloc\<close> and \<open>sys_free\<close>. A request of at most 1024 bytes is
  served with a block of one of seven sizes; the blocks of a page (an arena) are linked into the free
  list of their size. The arena headers at the start of the pages are a typed map, with one
  component per address space; the free lists are the sequences of their blocks (theory
  \<open>Intrusive_List\<close> shows that the pointer lists behave so as long as no block is linked twice, and
  linking a block twice is a fault here). The words of the blocks themselves are those of \<open>pmem\<close>.
\<close>

section \<open>State\<close>

text \<open>\<open>arena_desc\<close> is the index of the descriptor \<open>desc\<close> points to; 12 bytes on the target.\<close>

record arena =
  arena_desc :: "nat option"
  free_cnt :: u32
  large :: bool

record heap = vm +
  k_block_descs :: "mem_block_desc list"
  arenas :: "addr \<times> addr \<rightharpoonup> arena"

definition sizeof_arena :: u32 where "sizeof_arena = 12"

text \<open>The address space of the current thread, and its descriptors.\<close>

definition space :: "'a kernel_scheme \<Rightarrow> addr" where
  "space s = pgdir (tcbs s (running_thread s))"

definition cur_pf :: "'a kernel_scheme \<Rightarrow> pool_flags" where
  "cur_pf s = (if space s = NULL then PF_KERNEL else PF_USER)"

definition cur_descs :: "'a heap_scheme \<Rightarrow> mem_block_desc list" where
  "cur_descs s = (if space s = NULL then k_block_descs s else u_block_desc (tcbs s (running_thread s)))"

definition set_descs :: "mem_block_desc list \<Rightarrow> 'a heap_scheme \<Rightarrow> 'a heap_scheme" where
  "set_descs ds s =
     (if space s = NULL then s\<lparr>k_block_descs := ds\<rparr>
      else upd_tcb (running_thread s) (\<lambda>p. p\<lparr>u_block_desc := ds\<rparr>) s)"

definition set_free_list :: "nat \<Rightarrow> addr list \<Rightarrow> 'a heap_scheme \<Rightarrow> 'a heap_scheme" where
  "set_free_list i xs s = set_descs ((cur_descs s)[i := (cur_descs s ! i)\<lparr>free_list := xs\<rparr>]) s"

definition set_arena :: "addr \<Rightarrow> arena option \<Rightarrow> 'a heap_scheme \<Rightarrow> 'a heap_scheme" where
  "set_arena a ar s = s\<lparr>arenas := (arenas s)((space s, a) := ar)\<rparr>"

section \<open>Operations\<close>

definition block_desc_init :: "mem_block_desc list" where
  "block_desc_init = List.map (\<lambda>desc_idx.
     \<lparr>block_size = 16 * 2 ^ desc_idx,
      blocks_per_arena = (4096 - sizeof_arena) div (16 * 2 ^ desc_idx),
      free_list = []\<rparr>) [0..<MEM_UNIT_CNT]"

text \<open>The loader left the size of the memory at address \<open>0xb00\<close>.\<close>

definition mem_init :: "'a heap_scheme \<Rightarrow> 'a heap_scheme res" where
  "mem_init s =
     bindE (load32 0xB00 s) (\<lambda>mem_byte_total.
       Inr ((mem_pool_init mem_byte_total s)\<lparr>k_block_descs := block_desc_init\<rparr>))"

definition arena2block :: "addr \<Rightarrow> u32 \<Rightarrow> u32 \<Rightarrow> addr" where
  "arena2block a bsize idx = a + sizeof_arena + idx * bsize"

definition block2arena :: "addr \<Rightarrow> addr" where
  "block2arena b = b AND 0xFFFFF000"

text \<open>\<open>list_append\<close> of a block; linking an element twice destroys the list.\<close>

definition free_append :: "addr \<Rightarrow> addr list \<Rightarrow> addr list res" where
  "free_append b xs = (if b \<in> set xs then Inl Bad_access else Inr (xs @ [b]))"

text \<open>The blocks of a new arena are linked with interrupts off.\<close>

definition link_blocks :: "addr \<Rightarrow> mem_block_desc \<Rightarrow> addr list res" where
  "link_blocks a d =
     foldE (\<lambda>block_idx xs.
       let b = arena2block a (block_size d) (of_nat block_idx) in
       asserting (b \<notin> set xs) (free_append b xs))
     [0..<unat (blocks_per_arena d)] (free_list d)"

definition new_arena :: "pool_flags \<Rightarrow> nat \<Rightarrow> 'a heap_scheme \<Rightarrow> (bool \<times> 'a heap_scheme) res" where
  "new_arena pf desc_idx s =
     bindE (malloc_page pf 1 s) (\<lambda>(a, s).
     if a = NULL then Inr (False, s)
     else
       bindE (zero_words a 1024 s) (\<lambda>s.
       case intr_disable s of (old_status, s) \<Rightarrow>
       let d = cur_descs s ! desc_idx;
           s = set_arena a (Some \<lparr>arena_desc = Some desc_idx, free_cnt = blocks_per_arena d, large = False\<rparr>) s in
       bindE (link_blocks a d) (\<lambda>xs.
         Inr (True, intr_set_status old_status (set_free_list desc_idx xs s)))))"

text \<open>\<open>for (...; desc_idx < MEM_UNIT_CNT; ...) if (size <= descs[desc_idx].block_size) break;\<close>\<close>

definition find_desc :: "mem_block_desc list \<Rightarrow> u32 \<Rightarrow> nat" where
  "find_desc ds sz = List.length (takeWhile (\<lambda>i. \<not> (sz \<le> block_size (ds ! i))) [0..<MEM_UNIT_CNT])"

text \<open>
  The pop of an empty list would unlink its tail; it cannot happen here, since a new arena has
  blocks.
\<close>

definition take_block :: "nat \<Rightarrow> 'a heap_scheme \<Rightarrow> (addr \<times> 'a heap_scheme) res" where
  "take_block desc_idx s =
     (let d = cur_descs s ! desc_idx in
      case free_list d of
        [] \<Rightarrow> Inl Bad_access
      | b # rest \<Rightarrow>
          let s = set_free_list desc_idx rest s in
          bindE (zero_words b (unat (block_size d) div 4) s) (\<lambda>s.
          let a = block2arena b in
          case arenas s (space s, a) of
            None \<Rightarrow> Inl Bad_access
          | Some ar \<Rightarrow> Inr (b, set_arena a (Some (ar\<lparr>free_cnt := free_cnt ar - 1\<rparr>)) s)))"

definition malloc_large :: "pool_flags \<Rightarrow> u32 \<Rightarrow> 'a heap_scheme \<Rightarrow> (addr \<times> 'a heap_scheme) res" where
  "malloc_large pf sz s =
     (let page_cnt = DIV_CEILING (sz + sizeof_arena) 4096 in
      bindE (malloc_page pf (unat page_cnt) s) (\<lambda>(a, s).
      if a = NULL then bindE (pool_release pf s) (\<lambda>s. Inr (NULL, s))
      else
        bindE (zero_words a (unat page_cnt * 1024) s) (\<lambda>s.
        let s = set_arena a (Some \<lparr>arena_desc = None, free_cnt = page_cnt, large = True\<rparr>) s in
        bindE (pool_release pf s) (\<lambda>s. Inr (a + sizeof_arena, s)))))"

definition malloc_small :: "pool_flags \<Rightarrow> u32 \<Rightarrow> 'a heap_scheme \<Rightarrow> (addr \<times> 'a heap_scheme) res" where
  "malloc_small pf sz s =
     (let desc_idx = find_desc (cur_descs s) sz in
      bindE (if free_list (cur_descs s ! desc_idx) = [] then new_arena pf desc_idx s else Inr (True, s))
        (\<lambda>(ok, s).
         if \<not> ok then bindE (pool_release pf s) (\<lambda>s. Inr (NULL, s))
         else bindE (take_block desc_idx s) (\<lambda>(b, s).
           bindE (pool_release pf s) (\<lambda>s. Inr (b, s)))))"

definition sys_malloc :: "u32 \<Rightarrow> 'a heap_scheme \<Rightarrow> (addr \<times> 'a heap_scheme) res" where
  "sys_malloc sz s =
     (let pf = cur_pf s in
      if sz \<le> 0 \<or> pool_size (mem_pool pf s) \<le> sz then Inr (NULL, s)
      else bindE (pool_acquire pf s) (\<lambda>s.
        if sz > 1024 then malloc_large pf sz s else malloc_small pf sz s))"

text \<open>Giving a block back; when its arena is whole again, the arena's page is given back too.\<close>

definition unlink_blocks :: "addr \<Rightarrow> mem_block_desc \<Rightarrow> addr list \<Rightarrow> addr list res" where
  "unlink_blocks a d =
     foldE (\<lambda>block_idx xs.
       let bb = arena2block a (block_size d) (of_nat block_idx) in
       asserting (bb \<in> set xs) (Inr (remove1 bb xs)))
     [0..<unat (blocks_per_arena d)]"

definition free_small :: "pool_flags \<Rightarrow> addr \<Rightarrow> addr \<Rightarrow> nat \<Rightarrow> 'a heap_scheme \<Rightarrow> 'a heap_scheme res" where
  "free_small pf a b i s =
     (let d = cur_descs s ! i in
      bindE (free_append b (free_list d)) (\<lambda>xs.
      case arenas s (space s, a) of
        None \<Rightarrow> Inl Bad_access
      | Some ar \<Rightarrow>
          let n = free_cnt ar + 1;
              s = set_arena a (Some (ar\<lparr>free_cnt := n\<rparr>)) (set_free_list i xs s) in
          if n = blocks_per_arena d then
            bindE (unlink_blocks a d xs) (\<lambda>xs.
            bindE (mfree_page pf a 1 (set_free_list i xs s)) (\<lambda>s. Inr (set_arena a None s)))
          else Inr s))"

definition sys_free :: "addr \<Rightarrow> 'a heap_scheme \<Rightarrow> 'a heap_scheme res" where
  "sys_free ptr s =
     asserting (ptr \<noteq> NULL)
     (let pf = cur_pf s in
      asserting (space s = NULL \<longrightarrow> ptr \<ge> K_HEAP_START)
      (bindE (pool_acquire pf s) (\<lambda>s.
       let a = block2arena ptr in
       bindE
         (case arenas s (space s, a) of
            None \<Rightarrow> Inl Bad_access
          | Some ar \<Rightarrow>
              case arena_desc ar of
                None \<Rightarrow>
                  if large ar
                  then bindE (mfree_page pf a (unat (free_cnt ar)) s) (\<lambda>s. Inr (set_arena a None s))
                  else Inl Bad_access
              | Some i \<Rightarrow> free_small pf a ptr i s)
         (pool_release pf))))"

section \<open>Clearing plain memory\<close>

text \<open>Words that are mapped and are not part of the tables that map them.\<close>

definition plain_words :: "'a vm_scheme \<Rightarrow> addr \<Rightarrow> nat \<Rightarrow> bool" where
  "plain_words s va n \<longleftrightarrow>
     (\<forall>k < n. mapped (pmem s) (cr3 s) (va + 4 * of_nat k) \<and>
       (\<forall>j < n. translate (pmem s) (cr3 s) (va + 4 * of_nat k) \<noteq> pde_at (cr3 s) (va + 4 * of_nat j) \<and>
              translate (pmem s) (cr3 s) (va + 4 * of_nat k) \<noteq> pte_at (pmem s) (cr3 s) (va + 4 * of_nat j)))"

definition cleared :: "'a vm_scheme \<Rightarrow> addr \<Rightarrow> nat \<Rightarrow> u32 \<Rightarrow> u32" where
  "cleared s va n = (\<lambda>p. if \<exists>k < n. p = translate (pmem s) (cr3 s) (va + 4 * of_nat k) then 0 else pmem s p)"

lemma cleared_other:
  "(\<And>k. k < m \<Longrightarrow> p \<noteq> translate (pmem s) (cr3 s) (va + 4 * of_nat k)) \<Longrightarrow> cleared s va m p = pmem s p"
  by (auto simp: cleared_def)

lemma plain_wordsD:
  assumes "plain_words s va n" "k < n" "j < n"
  shows "pde_at (cr3 s) (va + 4 * of_nat j) \<noteq> translate (pmem s) (cr3 s) (va + 4 * of_nat k)"
    "pte_at (pmem s) (cr3 s) (va + 4 * of_nat j) \<noteq> translate (pmem s) (cr3 s) (va + 4 * of_nat k)"
    "mapped (pmem s) (cr3 s) (va + 4 * of_nat k)"
  using assms unfolding plain_words_def by metis+

lemma cleared_translate:
  assumes "plain_words s va n" "m \<le> n" "j < n"
  shows "mapped (cleared s va m) (cr3 s) (va + 4 * of_nat j)"
    "translate (cleared s va m) (cr3 s) (va + 4 * of_nat j) = translate (pmem s) (cr3 s) (va + 4 * of_nat j)"
proof -
  have "cleared s va m (pde_at (cr3 s) (va + 4 * of_nat j)) = pmem s (pde_at (cr3 s) (va + 4 * of_nat j))"
    using assms(2,3) by (intro cleared_other plain_wordsD(1) [OF assms(1)]) simp_all
  then have p: "pte_at (cleared s va m) (cr3 s) (va + 4 * of_nat j) = pte_at (pmem s) (cr3 s) (va + 4 * of_nat j)"
      "cleared s va m (pde_at (cr3 s) (va + 4 * of_nat j)) = pmem s (pde_at (cr3 s) (va + 4 * of_nat j))"
    by (simp_all add: pte_at_def)
  have mp: "mapped (pmem s) (cr3 s) (va + 4 * of_nat j)" by (rule plain_wordsD(3) [OF assms(1,3,3)])
  have q: "cleared s va m (pte_at (pmem s) (cr3 s) (va + 4 * of_nat j)) = pmem s (pte_at (pmem s) (cr3 s) (va + 4 * of_nat j))"
    using assms(2,3) by (intro cleared_other plain_wordsD(2) [OF assms(1)]) simp_all
  show "mapped (cleared s va m) (cr3 s) (va + 4 * of_nat j)"
    "translate (cleared s va m) (cr3 s) (va + 4 * of_nat j) = translate (pmem s) (cr3 s) (va + 4 * of_nat j)"
    using mp unfolding mapped_def translate_def p q by simp_all
qed

lemma zero_words_plain:
  assumes "plain_words s va n"
  shows "m \<le> n \<Longrightarrow> zero_words va m s = Inr (s\<lparr>pmem := cleared s va m\<rparr>)"
    "k < n \<Longrightarrow> load32 (va + 4 * of_nat k) (s\<lparr>pmem := cleared s va n\<rparr>) = Inr 0"
proof -
  show "zero_words va m s = Inr (s\<lparr>pmem := cleared s va m\<rparr>)" if "m \<le> n" using that
  proof (induction m)
    case 0
    then show ?case by (simp add: zero_words_def cleared_def)
  next
    case (Suc m)
    have "(cleared s va m)(translate (pmem s) (cr3 s) (va + 4 * of_nat m) := 0) = cleared s va (Suc m)"
      by (rule ext) (auto simp: cleared_def less_Suc_eq)
    then have "store32 (va + 4 * of_nat m) 0 (s\<lparr>pmem := cleared s va m\<rparr>) = Inr (s\<lparr>pmem := cleared s va (Suc m)\<rparr>)"
      using cleared_translate [OF assms, of m m] Suc.prems by (simp add: store32_def)
    then show ?case using Suc by (simp add: zero_words_def foldE_append)
  qed
  show "load32 (va + 4 * of_nat k) (s\<lparr>pmem := cleared s va n\<rparr>) = Inr 0" if "k < n"
    using cleared_translate [OF assms order_refl that] that by (auto simp: load32_def cleared_def)
qed

section \<open>The layout of an arena\<close>

lemma desc_less:
  "i < MEM_UNIT_CNT \<Longrightarrow> i = 0 \<or> i = 1 \<or> i = 2 \<or> i = 3 \<or> i = 4 \<or> i = 5 \<or> i = 6"
  by (auto simp: MEM_UNIT_CNT_def)

lemma block_desc_init_nth:
  assumes "i < MEM_UNIT_CNT"
  shows "unat (block_size (block_desc_init ! i)) = 16 * 2 ^ i"
    "unat (blocks_per_arena (block_desc_init ! i)) = 4084 div (16 * 2 ^ i)"
    "free_list (block_desc_init ! i) = []"
  using assms desc_less [OF assms]
  by (auto simp: block_desc_init_def MEM_UNIT_CNT_def sizeof_arena_def unat_div)

text \<open>
  C29. The blocks of an arena lie behind its header, inside its page and apart from each other, and
  each leads back to the arena.
\<close>

theorem arena_layout:
  assumes "aligned a" "i < MEM_UNIT_CNT" "d = block_desc_init ! i"
    and "k < unat (blocks_per_arena d)" "l < k"
  shows "block2arena (arena2block a (block_size d) (of_nat k)) = a \<and>
    unat (arena2block a (block_size d) (of_nat k)) = unat a + 12 + k * unat (block_size d) \<and>
    unat (arena2block a (block_size d) (of_nat k)) + unat (block_size d) \<le> unat a + PG_SIZE \<and>
    unat (arena2block a (block_size d) (of_nat l)) + unat (block_size d)
      \<le> unat (arena2block a (block_size d) (of_nat k))"
proof -
  let ?bs = "unat (block_size d)" and ?n = "unat (blocks_per_arena d)"
  have bs: "?bs = 16 * 2 ^ i" "?n = 4084 div ?bs" using block_desc_init_nth [OF assms(2)] assms(3) by simp_all
  have n: "?n * ?bs \<le> 4084" unfolding bs(2) by simp
  have pos: "0 < ?bs" using bs(1) by simp
  have fit: "12 + j * ?bs + ?bs \<le> 4096" if "j < ?n" for j
  proof -
    have "Suc j * ?bs \<le> ?n * ?bs" using that by (intro mult_le_mono1) simp
    then show ?thesis using n by simp
  qed
  have "take_bit 12 a = 0" using assms(1) unfolding aligned_def mask_words by (simp add: take_bit_eq_mask)
  then have "unat (take_bit 12 a) = 0" by simp
  then have "unat a mod 4096 = 0" by (simp add: unsigned_take_bit_eq take_bit_nat_def)
  moreover have "unat a < 2 ^ 32" using unsigned_less [of a, where ?'a = nat] by simp
  moreover obtain q where q: "unat a = 4096 * q" using calculation(1) by (auto simp: mod_eq_0_iff_dvd)
  ultimately have "q < 1048576" by simp
  then have au: "unat a + 4096 \<le> 2 ^ 32" using q by simp
  have off: "unat (sizeof_arena + of_nat j * block_size d) = 12 + j * ?bs" if "j < ?n" for j
  proof -
    have l: "12 + j * ?bs < 2 ^ 32" using fit [OF that] by simp
    have "j \<le> j * ?bs" using pos by (cases ?bs) simp_all
    then have "j < 2 ^ 32" "j * ?bs < 2 ^ 32" using l by linarith+
    then show ?thesis using l by (simp add: sizeof_arena_def unat_word_ariths unat_of_nat)
  qed
  have addr: "unat (arena2block a (block_size d) (of_nat j)) = unat a + (12 + j * ?bs)"
    "block2arena (arena2block a (block_size d) (of_nat j)) = a" if "j < ?n" for j
  proof -
    have less: "12 + j * ?bs < 4096" using fit [OF that] pos by simp
    have e: "arena2block a (block_size d) (of_nat j) = a + (sizeof_arena + of_nat j * block_size d)"
      by (simp add: arena2block_def add.assoc)
    show "unat (arena2block a (block_size d) (of_nat j)) = unat a + (12 + j * ?bs)"
      unfolding e using au less off [OF that] by (simp add: unat_word_ariths(1))
    show "block2arena (arena2block a (block_size d) (of_nat j)) = a"
      unfolding e using aligned_add(1) [OF assms(1)] less off [OF that] by (simp add: block2arena_def frame_def)
  qed
  have "Suc l * ?bs \<le> k * ?bs" using assms(5) by (intro mult_le_mono1) simp
  then show ?thesis
    using addr [OF assms(4)] addr(1) [of l] assms(4,5) fit [OF assms(4)] by (simp add: PG_SIZE_def)
qed

lemma arena_layout_witness:
  "unat (arena2block 0xC0100000 1024 1) + 1024 \<le> unat (arena2block 0xC0100000 1024 2)"
proof -
  have d: "block_size (block_desc_init ! 6) = 1024" "unat (blocks_per_arena (block_desc_init ! 6)) = 3"
    by (simp_all add: block_desc_init_def MEM_UNIT_CNT_def sizeof_arena_def)
  show ?thesis
    using arena_layout [of "0xC0100000" 6 "block_desc_init ! 6" 2 1]
    by (simp add: aligned_def MEM_UNIT_CNT_def d)
qed

section \<open>The heap invariant\<close>

text \<open>
  In the current address space: the descriptors have their sizes, a free list holds distinct blocks
  of arenas of its size, and each such arena counts its free blocks.
\<close>

definition blocks_ok :: "mem_block_desc list \<Rightarrow> bool" where
  "blocks_ok ds \<longleftrightarrow> List.map (\<lambda>d. (block_size d, blocks_per_arena d)) ds
     = List.map (\<lambda>d. (block_size d, blocks_per_arena d)) block_desc_init"

definition block_of :: "'a heap_scheme \<Rightarrow> nat \<Rightarrow> addr \<Rightarrow> bool" where
  "block_of s i b \<longleftrightarrow> (\<exists>ar k. arenas s (space s, block2arena b) = Some ar \<and> arena_desc ar = Some i \<and>
     k < unat (blocks_per_arena (cur_descs s ! i)) \<and>
     b = arena2block (block2arena b) (block_size (cur_descs s ! i)) (of_nat k))"

definition free_in :: "'a heap_scheme \<Rightarrow> nat \<Rightarrow> addr \<Rightarrow> nat" where
  "free_in s i a = List.length (List.filter (\<lambda>b. block2arena b = a) (free_list (cur_descs s ! i)))"

definition heap_ok :: "'a heap_scheme \<Rightarrow> bool" where
  "heap_ok s \<longleftrightarrow> blocks_ok (cur_descs s) \<and>
     (\<forall>i < MEM_UNIT_CNT. distinct (free_list (cur_descs s ! i)) \<and>
        (\<forall>b \<in> set (free_list (cur_descs s ! i)). block_of s i b)) \<and>
     (\<forall>a ar i. arenas s (space s, a) = Some ar \<longrightarrow> arena_desc ar = Some i \<longrightarrow>
        aligned a \<and> i < MEM_UNIT_CNT \<and> unat (free_cnt ar) = free_in s i a)"

text \<open>A block in use: one of an arena, and not in its free list.\<close>

definition in_use :: "'a heap_scheme \<Rightarrow> nat \<Rightarrow> addr \<Rightarrow> bool" where
  "in_use s i b \<longleftrightarrow> block_of s i b \<and> b \<notin> set (free_list (cur_descs s ! i))"

lemma set_descs_simps [simp]:
  "cur_descs (set_descs ds s) = ds" "space (set_descs ds s) = space s"
  "arenas (set_descs ds s) = arenas s" "cur (set_descs ds s) = cur s"
  "pmem (set_descs ds s) = pmem s" "cr3 (set_descs ds s) = cr3 s"
  by (auto simp: set_descs_def cur_descs_def space_def running_thread_def upd_tcb_def)

lemma set_free_list_simps [simp]:
  "cur_descs (set_free_list i xs s) = (cur_descs s)[i := (cur_descs s ! i)\<lparr>free_list := xs\<rparr>]"
  "space (set_free_list i xs s) = space s" "arenas (set_free_list i xs s) = arenas s"
  "cur (set_free_list i xs s) = cur s" "pmem (set_free_list i xs s) = pmem s"
  "cr3 (set_free_list i xs s) = cr3 s"
  by (simp_all add: set_free_list_def)

lemma set_arena_simps [simp]:
  "cur_descs (set_arena a ar s) = cur_descs s" "space (set_arena a ar s) = space s"
  "arenas (set_arena a ar s) = (arenas s)((space s, a) := ar)" "cur (set_arena a ar s) = cur s"
  "pmem (set_arena a ar s) = pmem s" "cr3 (set_arena a ar s) = cr3 s"
  by (simp_all add: set_arena_def cur_descs_def space_def running_thread_def)

lemma blocks_okD:
  assumes "blocks_ok ds" "i < MEM_UNIT_CNT"
  shows "i < List.length ds" "block_size (ds ! i) = block_size (block_desc_init ! i)"
    "blocks_per_arena (ds ! i) = blocks_per_arena (block_desc_init ! i)"
proof -
  have l: "List.length ds = MEM_UNIT_CNT" "List.length block_desc_init = MEM_UNIT_CNT"
    using arg_cong [OF assms(1) [unfolded blocks_ok_def], of List.length]
    by (simp_all add: block_desc_init_def)
  then show "i < List.length ds" using assms(2) by simp
  show "block_size (ds ! i) = block_size (block_desc_init ! i)"
    "blocks_per_arena (ds ! i) = blocks_per_arena (block_desc_init ! i)"
    using arg_cong [OF assms(1) [unfolded blocks_ok_def], of "\<lambda>xs. xs ! i"] l assms(2) by simp_all
qed

lemma blocks_ok_update:
  assumes "blocks_ok ds" shows "blocks_ok (ds[i := (ds ! i)\<lparr>free_list := xs\<rparr>])"
proof (cases "i < List.length ds")
  case True
  then show ?thesis
    using assms by (simp add: blocks_ok_def map_update list_update_id)
      (metis (no_types, lifting) list_update_id nth_map)
qed (use assms in \<open>simp add: list_update_beyond\<close>)

lemma load32_cong: "pmem t = pmem s \<Longrightarrow> cr3 t = cr3 s \<Longrightarrow> load32 v t = load32 v s"
  by (simp add: load32_def)

lemma mem_pool_heap [simp]:
  "mem_pool pf (set_free_list i xs s) = mem_pool pf s" "mem_pool pf (set_arena a ar s) = mem_pool pf s"
  "mem_pool pf (s\<lparr>pmem := m\<rparr>) = mem_pool pf s"
  by (simp_all add: mem_pool_def set_free_list_def set_descs_def set_arena_def upd_tcb_def)

lemma heap_pmem_simps [simp]:
  "cur_descs (s\<lparr>pmem := m\<rparr>) = cur_descs s" "space (s\<lparr>pmem := m\<rparr>) = space s"
  by (simp_all add: cur_descs_def space_def running_thread_def)

text \<open>The smallest size that fits.\<close>

lemma find_desc_fits:
  assumes "blocks_ok ds" "sz \<le> 1024"
  shows "find_desc ds sz < MEM_UNIT_CNT" "sz \<le> block_size (ds ! find_desc ds sz)"
    "j < find_desc ds sz \<Longrightarrow> block_size (ds ! j) < sz"
proof -
  let ?P = "\<lambda>i. \<not> sz \<le> block_size (ds ! i)" and ?is = "[0..<MEM_UNIT_CNT]"
  have "\<not> ?P 6" using blocks_okD(2) [OF assms(1), of 6] assms(2)
    by (simp add: MEM_UNIT_CNT_def block_desc_init_def)
  then have ex: "6 \<in> set ?is \<and> \<not> ?P 6" by (simp add: MEM_UNIT_CNT_def)
  have le: "List.length (takeWhile ?P ?is) < List.length ?is"
    using ex by (metis length_takeWhile_le nat_less_le set_takeWhileD takeWhile_eq_take take_all_iff)
  then show i: "find_desc ds sz < MEM_UNIT_CNT" by (simp add: find_desc_def)
  have "\<not> ?P (?is ! find_desc ds sz)"
    unfolding find_desc_def by (rule nth_length_takeWhile [OF le])
  then show "sz \<le> block_size (ds ! find_desc ds sz)" using i by simp
  show "block_size (ds ! j) < sz" if "j < find_desc ds sz"
    using takeWhile_nth [of j ?P ?is] set_takeWhileD [of "takeWhile ?P ?is ! j" ?P ?is] that i
      nth_mem [of j "takeWhile ?P ?is"]
    by (simp add: find_desc_def not_le)
qed

lemma take_block_ok:
  assumes ok: "heap_ok s" and i: "i < MEM_UNIT_CNT" and fl: "free_list (cur_descs s ! i) = b # rest"
    and plain: "plain_words s b (unat (block_size (cur_descs s ! i)) div 4)"
  shows "\<exists>s'. take_block i s = Inr (b, s') \<and> heap_ok s' \<and> in_use s' i b \<and> space s' = space s \<and> cur s' = cur s \<and>
    cur_descs s' = (cur_descs s)[i := (cur_descs s ! i)\<lparr>free_list := rest\<rparr>] \<and>
    (\<forall>k < unat (block_size (cur_descs s ! i)) div 4. load32 (b + 4 * of_nat k) s' = Inr 0) \<and>
    (\<forall>j c. block_of s' j c = block_of s j c) \<and> (\<forall>pf. mem_pool pf s' = mem_pool pf s)"
proof -
  let ?d = "cur_descs s ! i" and ?a = "block2arena b"
  let ?n = "unat (block_size ?d) div 4"
  note il = blocks_okD(1) [OF _ i, of "cur_descs s"]
  have bl: "blocks_ok (cur_descs s)" using ok by (simp add: heap_ok_def)
  have dist: "distinct (b # rest)" and blk: "\<forall>c \<in> set (b # rest). block_of s i c"
    using ok i fl by (auto simp: heap_ok_def)
  obtain ar where ar: "arenas s (space s, ?a) = Some ar" "arena_desc ar = Some i"
    using blk by (auto simp: block_of_def)
  let ?s1 = "set_free_list i rest s"
  have pl: "plain_words ?s1 b ?n" using plain by (simp add: plain_words_def)
  note z = zero_words_plain [OF pl]
  let ?s2 = "?s1\<lparr>pmem := cleared ?s1 b ?n\<rparr>"
  let ?s3 = "set_arena ?a (Some (ar\<lparr>free_cnt := free_cnt ar - 1\<rparr>)) ?s2"
  have run: "take_block i s = Inr (b, ?s3)"
    using ar by (simp add: take_block_def fl Let_def z(1))
  have cd: "cur_descs ?s3 = (cur_descs s)[i := ?d\<lparr>free_list := rest\<rparr>]" by simp
  have same: "block_size (cur_descs ?s3 ! j) = block_size (cur_descs s ! j)"
    "blocks_per_arena (cur_descs ?s3 ! j) = blocks_per_arena (cur_descs s ! j)" for j
    unfolding cd using il [OF bl] by (cases "j = i"; simp)+
  have fl3: "free_list (cur_descs ?s3 ! j) = (if j = i then rest else free_list (cur_descs s ! j))" for j
    unfolding cd using il [OF bl] by simp
  have keep: "block_of ?s3 j c = block_of s j c" for j c
    unfolding block_of_def same using ar by auto
  have cnt: "unat (free_cnt ar) = free_in s i ?a" using ok ar by (simp add: heap_ok_def)
  have pos: "0 < free_in s i ?a" by (simp add: free_in_def fl)
  have dec: "unat (free_cnt ar - 1) = unat (free_cnt ar) - 1"
    using pos cnt by (simp add: unat_sub word_le_nat_alt)
  have fin: "free_in ?s3 j c = (if j = i \<and> c = ?a then free_in s i ?a - 1 else free_in s j c)" for j c
    unfolding free_in_def fl3 by (auto simp: fl)
  have "heap_ok ?s3"
    unfolding heap_ok_def
  proof (intro conjI allI impI)
    show "blocks_ok (cur_descs ?s3)" unfolding cd by (rule blocks_ok_update [OF bl])
  next
    fix j assume "j < MEM_UNIT_CNT"
    then show "distinct (free_list (cur_descs ?s3 ! j))" "\<forall>b \<in> set (free_list (cur_descs ?s3 ! j)). block_of ?s3 j b"
      unfolding fl3 using ok dist blk keep by (auto simp: heap_ok_def)
  next
    fix c ar' j
    assume "arenas ?s3 (space ?s3, c) = Some ar'" "arena_desc ar' = Some j"
    then show "aligned c" "j < MEM_UNIT_CNT" "unat (free_cnt ar') = free_in ?s3 j c"
      using ok ar cnt dec fin by (auto simp: heap_ok_def split: if_splits)
  qed
  moreover have "in_use ?s3 i b"
    using keep [of i b] blk dist unfolding in_use_def fl3 by simp
  moreover have "load32 v ?s3 = load32 v ?s2" for v by (rule load32_cong) simp_all
  then have "\<forall>k < ?n. load32 (b + 4 * of_nat k) ?s3 = Inr 0" using z(2) by simp
  moreover have "mem_pool pf ?s3 = mem_pool pf s" for pf by simp
  ultimately show ?thesis using run keep cd by (intro exI [of _ ?s3]) simp
qed

section \<open>Allocating from a free list\<close>

lemma set_pool_heap [simp]:
  "cur_descs (set_pool pf p s) = cur_descs s" "space (set_pool pf p s) = space s"
  "arenas (set_pool pf p s) = arenas s" "cur (set_pool pf p s) = cur s"
  "pmem (set_pool pf p s) = pmem s" "cr3 (set_pool pf p s) = cr3 s"
  by (simp_all add: set_pool_def cur_descs_def space_def running_thread_def)

lemma heap_ok_cong:
  assumes "cur_descs t = cur_descs s" "space t = space s" "arenas t = arenas s"
  shows "heap_ok t = heap_ok s" "block_of t = block_of s" "in_use t = in_use s"
proof -
  show b: "block_of t = block_of s" by (intro ext) (simp add: block_of_def assms)
  show "in_use t = in_use s" by (intro ext) (simp add: in_use_def b assms)
  show "heap_ok t = heap_ok s" by (simp add: heap_ok_def b free_in_def assms)
qed

lemma pool_bracket:
  assumes "mutex_free (pool_mutex (mem_pool pf s))" "cur s \<noteq> NULL"
  obtains s1 where "pool_acquire pf s = Inr s1" "cur_descs s1 = cur_descs s" "space s1 = space s"
    "arenas s1 = arenas s" "cur s1 = cur s" "pmem s1 = pmem s" "cr3 s1 = cr3 s"
    "holder (pool_mutex (mem_pool pf s1)) = cur s" "holder_repeat_nr (pool_mutex (mem_pool pf s1)) = 1"
    "mutex_sema (pool_mutex (mem_pool pf s1)) = \<lparr>sema_value = 0, waiters = []\<rparr>"
    "pool_size (mem_pool pf s1) = pool_size (mem_pool pf s)"
proof -
  let ?m = "\<lparr>holder = cur s, mutex_sema = \<lparr>sema_value = 0, waiters = []\<rparr>, holder_repeat_nr = 1\<rparr>"
  show thesis
    by (rule that [of "set_pool pf ((mem_pool pf s)\<lparr>pool_mutex := ?m\<rparr>) s"])
      (simp_all add: pool_acquire_def mutex_acquire_free [OF assms])
qed

lemma pool_release_held:
  assumes "holder (pool_mutex (mem_pool pf s)) = cur s" "holder_repeat_nr (pool_mutex (mem_pool pf s)) = 1"
    "mutex_sema (pool_mutex (mem_pool pf s)) = \<lparr>sema_value = 0, waiters = []\<rparr>"
  shows "pool_release pf s = Inr (set_pool pf ((mem_pool pf s)\<lparr>pool_mutex := mutex_init\<rparr>) s)"
  by (simp add: pool_release_def mutex_release_held [OF assms])

text \<open>
  C7. A request for 1 to 1024 bytes finds a block of the smallest size that fits; when one is free it
  is returned, cleared and no longer free, no other block is affected, and the lock is free again.
\<close>

theorem sys_malloc_small:
  assumes ok: "heap_ok s" and sz: "0 < sz" "sz \<le> 1024" "sz < pool_size (mem_pool (cur_pf s) s)"
    and m: "mutex_free (pool_mutex (mem_pool (cur_pf s) s))" "cur s \<noteq> NULL"
    and i: "i = find_desc (cur_descs s) sz" and fl: "free_list (cur_descs s ! i) = b # rest"
    and plain: "plain_words s b (unat (block_size (cur_descs s ! i)) div 4)"
  shows "sz \<le> block_size (cur_descs s ! i) \<and> (\<forall>j < i. block_size (cur_descs s ! j) < sz) \<and>
    (\<exists>s'. sys_malloc sz s = Inr (b, s') \<and> heap_ok s' \<and> in_use s' i b \<and> \<not> in_use s i b \<and>
      (\<forall>j c. in_use s j c \<longrightarrow> in_use s' j c) \<and>
      (\<forall>j c. in_use s' j c \<longrightarrow> in_use s j c \<or> j = i \<and> c = b) \<and>
      (\<forall>k < unat (block_size (cur_descs s ! i)) div 4. load32 (b + 4 * of_nat k) s' = Inr 0) \<and>
      mutex_free (pool_mutex (mem_pool (cur_pf s) s')))"
proof -
  let ?pf = "cur_pf s" and ?d = "cur_descs s ! i"
  let ?n = "unat (block_size ?d) div 4"
  have bl: "blocks_ok (cur_descs s)" using ok by (simp add: heap_ok_def)
  note fits = find_desc_fits [OF bl sz(2), folded i]
  obtain s1 where s1: "pool_acquire ?pf s = Inr s1" "cur_descs s1 = cur_descs s" "space s1 = space s"
    "arenas s1 = arenas s" "cur s1 = cur s" "pmem s1 = pmem s" "cr3 s1 = cr3 s"
    "holder (pool_mutex (mem_pool ?pf s1)) = cur s" "holder_repeat_nr (pool_mutex (mem_pool ?pf s1)) = 1"
    "mutex_sema (pool_mutex (mem_pool ?pf s1)) = \<lparr>sema_value = 0, waiters = []\<rparr>"
    by (rule pool_bracket [OF m])
  note same1 = heap_ok_cong [OF s1(2-4)]
  have "plain_words s1 b ?n" using plain by (simp add: plain_words_def s1)
  then obtain s2 where s2: "take_block i s1 = Inr (b, s2)" "heap_ok s2" "in_use s2 i b" "space s2 = space s"
      "cur s2 = cur s" "cur_descs s2 = (cur_descs s)[i := ?d\<lparr>free_list := rest\<rparr>]"
      "\<forall>k < ?n. load32 (b + 4 * of_nat k) s2 = Inr 0"
      "\<forall>j c. block_of s2 j c = block_of s j c" "\<forall>pf. mem_pool pf s2 = mem_pool pf s1"
    using take_block_ok [of s1 i b rest] ok fits(1) fl by (auto simp: same1 s1)
  let ?s3 = "set_pool ?pf ((mem_pool ?pf s2)\<lparr>pool_mutex := mutex_init\<rparr>) s2"
  have rel: "pool_release ?pf s2 = Inr ?s3"
    by (rule pool_release_held) (simp_all add: s2 s1)
  have c: "\<not> (sz \<le> 0 \<or> pool_size (mem_pool ?pf s) \<le> sz)" "\<not> sz > 1024" using sz by auto
  have "malloc_small ?pf sz s1 = Inr (b, ?s3)"
    using s2(1) rel fl by (simp add: malloc_small_def Let_def s1(2) i [symmetric])
  then have run: "sys_malloc sz s = Inr (b, ?s3)"
    unfolding sys_malloc_def Let_def if_not_P [OF c(1)] s1(1) bindE_Inr if_not_P [OF c(2)] .
  have same3: "heap_ok ?s3 = heap_ok s2" "in_use ?s3 = in_use s2" by (rule heap_ok_cong; simp)+
  have use: "in_use s2 j c \<longleftrightarrow> in_use s j c \<or> j = i \<and> c = b" for j c
    using s2(3) s2(8) fl blocks_okD(1) [OF bl fits(1)] by (cases "j = i") (auto simp: in_use_def s2(6))
  have "load32 v ?s3 = load32 v s2" for v by (rule load32_cong) simp_all
  then have "\<forall>k < ?n. load32 (b + 4 * of_nat k) ?s3 = Inr 0" using s2(7) by simp
  moreover have "\<not> in_use s i b" by (simp add: in_use_def fl)
  ultimately show ?thesis
    using fits(2,3) run s2(2,3) use
    by (intro conjI exI [of _ ?s3]) (simp_all add: same3 mutex_free_def)
qed

section \<open>Giving a block back\<close>

lemma block_of_cases:
  assumes "heap_ok s" "block_of s i b"
  obtains ar k where "arenas s (space s, block2arena b) = Some ar" "arena_desc ar = Some i" "aligned (block2arena b)"
    "i < MEM_UNIT_CNT" "k < unat (blocks_per_arena (cur_descs s ! i))"
    "b = arena2block (block2arena b) (block_size (cur_descs s ! i)) (of_nat k)"
    "unat (free_cnt ar) = free_in s i (block2arena b)"
  using assms unfolding block_of_def heap_ok_def by blast

text \<open>An arena has at most as many free blocks as it has blocks.\<close>

lemma free_in_use_less:
  assumes ok: "heap_ok s" and b: "in_use s i b"
  shows "free_in s i (block2arena b) < unat (blocks_per_arena (cur_descs s ! i))"
proof -
  let ?a = "block2arena b" and ?d = "cur_descs s ! i"
  let ?blk = "\<lambda>k. arena2block ?a (block_size ?d) (of_nat k)"
  have blk: "block_of s i b" "b \<notin> set (free_list ?d)" using b by (simp_all add: in_use_def)
  obtain ar k where ar: "i < MEM_UNIT_CNT" "k < unat (blocks_per_arena ?d)" "b = ?blk k"
    by (rule block_of_cases [OF ok blk(1)])
  let ?fs = "List.filter (\<lambda>c. block2arena c = ?a) (free_list ?d)"
  have "distinct ?fs" and all: "\<forall>c \<in> set (free_list ?d). block_of s i c"
    using ok ar(1) by (simp_all add: heap_ok_def)
  have "c \<in> ?blk ` {..<unat (blocks_per_arena ?d)}" if "c \<in> set (b # ?fs)" for c
  proof (cases "c = b")
    case True
    show ?thesis
    proof (rule image_eqI)
      show "c = ?blk k" unfolding True by (rule ar(3))
    qed (simp add: ar(2))
  next
    case False
    then have c: "block_of s i c" "block2arena c = ?a" using that all by auto
    then obtain k' where "k' < unat (blocks_per_arena ?d)" "c = ?blk k'" unfolding block_of_def c(2) by blast
    then show ?thesis by (intro image_eqI [where x = k']) (simp_all only: lessThan_iff)
  qed
  then have "set (b # ?fs) \<subseteq> ?blk ` {..<unat (blocks_per_arena ?d)}" by blast
  then have "card (set (b # ?fs)) \<le> card (?blk ` {..<unat (blocks_per_arena ?d)})" by (intro card_mono) simp_all
  also have "\<dots> \<le> card {..<unat (blocks_per_arena ?d)}" by (rule card_image_le) simp
  finally have "card (set (b # ?fs)) \<le> unat (blocks_per_arena ?d)" by simp
  moreover have "distinct (b # ?fs)" using \<open>distinct ?fs\<close> blk(2) by simp
  then have "card (set (b # ?fs)) = Suc (List.length ?fs)" using distinct_card by fastforce
  ultimately show ?thesis by (simp add: free_in_def)
qed

text \<open>\<open>free_small\<close> on a block in use whose arena stays in use.\<close>

lemma free_small_appends:
  assumes ok: "heap_ok s" and b: "in_use s i b" and i: "i < MEM_UNIT_CNT"
    and other: "free_in s i (block2arena b) + 1 \<noteq> unat (blocks_per_arena (cur_descs s ! i))"
  obtains ar where "arenas s (space s, block2arena b) = Some ar" "arena_desc ar = Some i"
    "free_small pf (block2arena b) b i s = Inr (set_arena (block2arena b) (Some (ar\<lparr>free_cnt := free_cnt ar + 1\<rparr>))
       (set_free_list i (free_list (cur_descs s ! i) @ [b]) s))"
    "unat (free_cnt ar) = free_in s i (block2arena b)" "unat (free_cnt ar + 1) = free_in s i (block2arena b) + 1"
proof -
  let ?a = "block2arena b" and ?d = "cur_descs s ! i"
  have use: "block_of s i b" "b \<notin> set (free_list ?d)" using b by (simp_all add: in_use_def)
  obtain ar where ar: "arenas s (space s, ?a) = Some ar" "arena_desc ar = Some i" "unat (free_cnt ar) = free_in s i ?a"
    by (rule block_of_cases [OF ok use(1)])
  have "free_in s i ?a < unat (blocks_per_arena ?d)" by (rule free_in_use_less [OF ok b])
  then have inc: "unat (free_cnt ar + 1) = free_in s i ?a + 1"
    using ar(3) unsigned_less [of "blocks_per_arena ?d", where ?'a = nat] by (simp add: unat_word_ariths)
  then have "free_cnt ar + 1 \<noteq> blocks_per_arena ?d" using other by metis
  then have "free_small pf ?a b i s = Inr (set_arena ?a (Some (ar\<lparr>free_cnt := free_cnt ar + 1\<rparr>))
      (set_free_list i (free_list ?d @ [b]) s))"
    using use(2) ar(1) by (simp add: free_small_def free_append_def Let_def)
  then show thesis using ar inc that by blast
qed

text \<open>The state it leaves: a sound heap with the block at the end of its free list.\<close>

lemma freed_small_ok:
  assumes ok: "heap_ok s" and b: "in_use s i b" and i: "i < MEM_UNIT_CNT"
    and ar: "arenas s (space s, block2arena b) = Some ar" "arena_desc ar = Some i"
      "unat (free_cnt ar) = free_in s i (block2arena b)" "unat (free_cnt ar + 1) = free_in s i (block2arena b) + 1"
  defines "s2 \<equiv> set_arena (block2arena b) (Some (ar\<lparr>free_cnt := free_cnt ar + 1\<rparr>))
      (set_free_list i (free_list (cur_descs s ! i) @ [b]) s)"
  shows "heap_ok s2" "\<And>j c. in_use s2 j c \<longleftrightarrow> in_use s j c \<and> \<not> (j = i \<and> c = b)"
    "free_list (cur_descs s2 ! i) = free_list (cur_descs s ! i) @ [b]" "\<And>j. j \<noteq> i \<Longrightarrow> cur_descs s2 ! j = cur_descs s ! j"
proof -
  let ?a = "block2arena b" and ?d = "cur_descs s ! i"
  let ?xs = "free_list ?d @ [b]"
  have bl: "blocks_ok (cur_descs s)" using ok by (simp add: heap_ok_def)
  have use: "block_of s i b" "b \<notin> set (free_list ?d)" using b by (simp_all add: in_use_def)
  note il = blocks_okD(1) [OF bl i]
  have cd: "cur_descs s2 = (cur_descs s)[i := ?d\<lparr>free_list := ?xs\<rparr>]" by (simp add: s2_def)
  have sp: "arenas s2 (space s2, c) = (if c = ?a then Some (ar\<lparr>free_cnt := free_cnt ar + 1\<rparr>) else arenas s (space s, c))" for c
    by (simp add: s2_def)
  have same: "block_size (cur_descs s2 ! j) = block_size (cur_descs s ! j)"
    "blocks_per_arena (cur_descs s2 ! j) = blocks_per_arena (cur_descs s ! j)" for j
    unfolding cd using il by (cases "j = i"; simp)+
  have fl2: "free_list (cur_descs s2 ! j) = (if j = i then ?xs else free_list (cur_descs s ! j))" for j
    unfolding cd using il by simp
  then show "free_list (cur_descs s2 ! i) = ?xs" by simp
  show "cur_descs s2 ! j = cur_descs s ! j" if "j \<noteq> i" for j
    using nth_list_update_neq [OF not_sym [OF that]] by (simp only: cd)
  have blk: "block_of s2 j c = block_of s j c" for j c
    unfolding block_of_def same sp using ar by auto
  show "in_use s2 j c \<longleftrightarrow> in_use s j c \<and> \<not> (j = i \<and> c = b)" for j c
    unfolding in_use_def blk fl2 by auto
  have fin: "free_in s2 j c = (if j = i \<and> c = ?a then free_in s i ?a + 1 else free_in s j c)" for j c
    unfolding free_in_def fl2 by auto
  show "heap_ok s2"
    unfolding heap_ok_def
  proof (intro conjI allI impI)
    show "blocks_ok (cur_descs s2)" unfolding cd by (rule blocks_ok_update [OF bl])
  next
    fix j assume "j < MEM_UNIT_CNT"
    then show "distinct (free_list (cur_descs s2 ! j))" "\<forall>b \<in> set (free_list (cur_descs s2 ! j)). block_of s2 j b"
      unfolding fl2 blk using ok use by (auto simp: heap_ok_def)
  next
    fix c ar' j
    assume "arenas s2 (space s2, c) = Some ar'" "arena_desc ar' = Some j"
    then show "aligned c" "j < MEM_UNIT_CNT" "unat (free_cnt ar') = free_in s2 j c"
      unfolding fin sp using ok ar i by (auto simp: heap_ok_def split: if_splits)
  qed
qed


section \<open>A heap with one arena\<close>

text \<open>The page of \<open>one_page_vm\<close> holds an arena of 1024-byte blocks, of which the first is free.\<close>

definition one_arena :: heap where
  "one_arena = vm.extend one_page_vm \<lparr>
     k_block_descs = block_desc_init[6 := (block_desc_init ! 6)\<lparr>free_list := [0xC010000C]\<rparr>],
     arenas = [(NULL, 0xC0100000) \<mapsto> \<lparr>arena_desc = Some 6, free_cnt = 1, large = False\<rparr>]\<rparr>"

lemma one_arena_simps [simp]:
  "space one_arena = NULL" "cur one_arena = 1" "cr3 one_arena = 0x100000" "cur_pf one_arena = PF_KERNEL"
  "pmem one_arena = boot_mem(0x101400 := 0x200007)" "mem_pool PF_KERNEL one_arena = boot_pool 0x200000"
  "arenas one_arena = [(NULL, 0xC0100000) \<mapsto> \<lparr>arena_desc = Some 6, free_cnt = 1, large = False\<rparr>]"
  "cur_descs one_arena = block_desc_init[6 := (block_desc_init ! 6)\<lparr>free_list := [0xC010000C]\<rparr>]"
  by (simp_all add: one_arena_def vm.defs one_page_vm_def boot_vm_def space_def running_thread_def
      cur_descs_def three_threads_def zero_tcb_def mem_pool_def cur_pf_def)

lemma one_arena_desc:
  "cur_descs one_arena ! 6 = \<lparr>block_size = 1024, blocks_per_arena = 3, free_list = [0xC010000C]\<rparr>"
  "j < MEM_UNIT_CNT \<Longrightarrow> j \<noteq> 6 \<Longrightarrow> free_list (cur_descs one_arena ! j) = []"
  using block_desc_init_nth(3) [of j]
  by (simp_all add: block_desc_init_def MEM_UNIT_CNT_def sizeof_arena_def)

lemma one_arena_blocks:
  "block_of one_arena 6 0xC010000C" "block_of one_arena 6 0xC010080C"
  unfolding block_of_def one_arena_desc(1)
  by (simp_all add: block2arena_def arena2block_def sizeof_arena_def)
    (rule exI [of _ 0], simp, rule exI [of _ 2], simp)

lemma one_arena_ok: "heap_ok one_arena" "in_use one_arena 6 0xC010080C" "free_in one_arena 6 0xC0100000 = 1"
proof -
  show f: "free_in one_arena 6 0xC0100000 = 1"
    unfolding free_in_def one_arena_desc(1) by (simp add: block2arena_def)
  show "in_use one_arena 6 0xC010080C"
    unfolding in_use_def one_arena_desc(1) using one_arena_blocks(2) by simp
  show "heap_ok one_arena"
    unfolding heap_ok_def
  proof (intro conjI allI impI)
    show "blocks_ok (cur_descs one_arena)"
      using blocks_ok_update [of block_desc_init] by (simp add: blocks_ok_def)
  next
    fix j assume "j < MEM_UNIT_CNT"
    then show "distinct (free_list (cur_descs one_arena ! j))"
      "\<forall>b \<in> set (free_list (cur_descs one_arena ! j)). block_of one_arena j b"
      using one_arena_blocks(1) one_arena_desc(2) [of j]
      by (cases "j = 6"; simp only: one_arena_desc(1); simp)+
  next
    fix a ar j assume "arenas one_arena (space one_arena, a) = Some ar" "arena_desc ar = Some j"
    then show "aligned a" "j < MEM_UNIT_CNT" "unat (free_cnt ar) = free_in one_arena j a"
      using f by (auto simp: aligned_def MEM_UNIT_CNT_def split: if_splits)
  qed
qed

lemma unat_plus_small: "unat (a :: u32) + unat b < 2 ^ 32 \<Longrightarrow> unat (a + b) = unat a + unat b"
  by (simp add: unat_word_ariths(1))

lemma one_arena_plain: "plain_words one_arena 0xC010000C 256"
proof -
  let ?o = "\<lambda>k. 12 + 4 * of_nat k :: u32" and ?mem = "boot_mem(0x101400 := 0x200007)"
  have o: "unat (?o k) < 4096" "unat (?o k) = 12 + 4 * k" if "k < 256" for k
    using that by (simp_all add: unat_word_ariths unat_of_nat)
  have al: "aligned 0xC0100000" by (simp add: aligned_def)
  have e: "0xC010000C + 4 * of_nat k = 0xC0100000 + ?o k" for k by simp
  have f: "frame (0xC010000C + 4 * of_nat k) = 0xC0100000" "(0xC010000C + 4 * of_nat k) AND 0xFFF = ?o k"
    if "k < 256" for k
    unfolding e using aligned_add [OF al o(1) [OF that]] by simp_all
  have idx: "PDE_IDX (0xC010000C + 4 * of_nat k) = 768" "PTE_IDX (0xC010000C + 4 * of_nat k) = 256" if "k < 256" for k
    using idx_frame [of "0xC010000C + 4 * of_nat k"] f(1) [OF that] by (simp_all add: PDE_IDX_def PTE_IDX_def)
  have at: "pde_at 0x100000 (0xC010000C + 4 * of_nat k) = 0x100C00"
    "pte_at ?mem 0x100000 (0xC010000C + 4 * of_nat k) = 0x101400" if "k < 256" for k
    using idx [OF that] by (simp_all add: pde_at_def pte_at_def boot_mem_def frame_def)
  have tr: "translate ?mem 0x100000 (0xC010000C + 4 * of_nat k) = 0x200000 + ?o k"
    "mapped ?mem 0x100000 (0xC010000C + 4 * of_nat k)" if "k < 256" for k
    unfolding translate_def mapped_def at [OF that] f(2) [OF that]
    by (simp_all add: frame_def present_def boot_mem_def)
  have ne: "0x200000 + ?o k \<noteq> 0x100C00" "0x200000 + ?o k \<noteq> 0x101400" if "k < 256" for k
  proof -
    have "unat (0x200000 + ?o k) = 0x200000 + (12 + 4 * k)"
      using that unat_plus_small [of "0x200000" "?o k"] o [OF that] by simp
    then have "unat (0x200000 + ?o k) \<noteq> unat (0x100C00 :: u32)" "unat (0x200000 + ?o k) \<noteq> unat (0x101400 :: u32)"
      by simp_all
    then show "0x200000 + ?o k \<noteq> 0x100C00" "0x200000 + ?o k \<noteq> 0x101400" by (metis, metis)
  qed
  show ?thesis
    unfolding plain_words_def one_arena_simps
    using tr ne at by simp
qed

lemma sys_malloc_small_witness:
  "\<exists>s'. sys_malloc 700 one_arena = Inr (0xC010000C, s') \<and> in_use s' 6 0xC010000C \<and> in_use s' 6 0xC010080C"
proof -
  have i: "6 = find_desc (cur_descs one_arena) 700"
    by (simp add: find_desc_def MEM_UNIT_CNT_def block_desc_init_def upt_rec)
  have "free_list (cur_descs one_arena ! 6) = 0xC010000C # []" by (simp only: one_arena_desc(1) mem_block_desc.select_convs)
  moreover have "plain_words one_arena 0xC010000C (unat (block_size (cur_descs one_arena ! 6)) div 4)"
    using one_arena_plain by (simp only: one_arena_desc(1) mem_block_desc.select_convs) simp
  moreover have "700 < pool_size (mem_pool (cur_pf one_arena) one_arena)"
    "mutex_free (pool_mutex (mem_pool (cur_pf one_arena) one_arena))" "cur one_arena \<noteq> NULL"
    by (simp_all add: boot_pool_def mutex_free_def)
  moreover have "(0 :: u32) < 700" "(700 :: u32) \<le> 1024" by simp_all
  ultimately obtain s' where "sys_malloc 700 one_arena = Inr (0xC010000C, s')" "in_use s' 6 0xC010000C"
      "\<forall>j c. in_use one_arena j c \<longrightarrow> in_use s' j c"
    using sys_malloc_small [OF one_arena_ok(1), of 700 6 "0xC010000C" "[]"] i by blast
  then show ?thesis using one_arena_ok(2) by blast
qed


end
