(* ===== verification/Threads.thy ===== *)
theory Threads
  imports Arena Stdio
begin

text \<open>
  Threads and processes as objects: the pid pool, the creation, start and exit of threads
  (\<open>thread/thread.c\<close>), the address space and first stack of a process (\<open>userprog/process.c\<close>), and
  the listing of \<open>sys_ps\<close>. TCBs are the typed map of theory \<open>Scheduler\<close>; the two frames a new
  thread's kernel stack starts with are typed maps too, from the address of the frame. The pages
  behind all of them are allocated with the page allocator.
\<close>

section \<open>State\<close>

text \<open>Code addresses: the functions of the kernel a stack frame can name, or another one.\<close>

datatype code = Kernel_thread | Intr_exit | Start_process | Idle | Code addr

record thread_stack =
  ts_ebp :: u32
  ts_ebx :: u32
  ts_edi :: u32
  ts_esi :: u32
  ts_eip :: code
  ts_function :: code
  ts_func_arg :: addr

record intr_stack =
  is_edi :: u32
  is_esi :: u32
  is_ebp :: u32
  is_esp_dummy :: u32
  is_ebx :: u32
  is_edx :: u32
  is_ecx :: u32
  is_eax :: u32
  is_gs :: u32
  is_fs :: u32
  is_es :: u32
  is_ds :: u32
  is_eip :: code
  is_cs :: u32
  is_eflags :: u32
  is_esp :: addr
  is_ss :: u32

text \<open>\<open>bits_at t\<close> is the address of the pages of the virtual address bitmap of thread \<open>t\<close>.\<close>

record threads = heap +
  pid_bitmap :: bitmap
  pid_start :: u32
  pid_mutex :: mutex
  thread_stacks :: "addr \<rightharpoonup> thread_stack"
  intr_stacks :: "addr \<rightharpoonup> intr_stack"
  bits_at :: "addr \<Rightarrow> addr"

definition sizeof_thread_stack :: u32 where "sizeof_thread_stack = 32"
definition sizeof_intr_stack :: u32 where "sizeof_intr_stack = 76"
definition default_time_slice :: u8 where "default_time_slice = 31"
definition USER_STACK3_VADDR :: u32 where "USER_STACK3_VADDR = 0xC0000000 - 0x1000"
definition USER_VADDR_START :: u32 where "USER_VADDR_START = 0x8048000"
definition SELECTOR_U_CODE :: u32 where "SELECTOR_U_CODE = push_bit 3 5 + push_bit 2 0 + 3"
definition SELECTOR_U_DATA :: u32 where "SELECTOR_U_DATA = push_bit 3 6 + push_bit 2 0 + 3"
definition EFLAGS_user :: u32 where "EFLAGS_user = push_bit 12 0 OR push_bit 1 1 OR push_bit 9 1"

section \<open>Process identifiers\<close>

definition pid_pool_init :: "'a threads_scheme \<Rightarrow> 'a threads_scheme res" where
  "pid_pool_init s =
     bindE (bitmap_init \<lparr>btmp_byte_len = 128, bits = replicate 129 0\<rparr>) (\<lambda>b.
       Inr (s\<lparr>pid_start := 1, pid_bitmap := b, pid_mutex := mutex_init\<rparr>))"

definition pid_acquire :: "'a threads_scheme \<Rightarrow> 'a threads_scheme res" where
  "pid_acquire s = bindE (mutex_acquire (pid_mutex s) s) (\<lambda>(m, s). Inr (s\<lparr>pid_mutex := m\<rparr>))"

definition pid_release :: "'a threads_scheme \<Rightarrow> 'a threads_scheme res" where
  "pid_release s = bindE (mutex_release (pid_mutex s) s) (\<lambda>(m, s). Inr (s\<lparr>pid_mutex := m\<rparr>))"

definition allocate_pid :: "'a threads_scheme \<Rightarrow> (u16 \<times> 'a threads_scheme) res" where
  "allocate_pid s =
     bindE (pid_acquire s) (\<lambda>s.
     bindE (bitmap_scan (pid_bitmap s) 1) (\<lambda>bit_idx.
     bindE (bitmap_set (pid_bitmap s) (nat bit_idx) 1) (\<lambda>b.
     bindE (pid_release (s\<lparr>pid_bitmap := b\<rparr>)) (\<lambda>s.
       Inr (ucast (pid_start s) + of_int bit_idx, s)))))"

definition release_pid :: "u16 \<Rightarrow> 'a threads_scheme \<Rightarrow> 'a threads_scheme res" where
  "release_pid p s =
     bindE (pid_acquire s) (\<lambda>s.
     let bit_idx = scast p - pid_start s in
     bindE (bitmap_set (pid_bitmap s) (unat bit_idx) 0) (\<lambda>b. pid_release (s\<lparr>pid_bitmap := b\<rparr>)))"

definition fork_pid :: "'a threads_scheme \<Rightarrow> (u16 \<times> 'a threads_scheme) res" where
  "fork_pid s = allocate_pid s"

definition pid_check :: "int \<Rightarrow> task_struct \<Rightarrow> bool" where
  "pid_check p tcb \<longleftrightarrow> sint (pid tcb) = p"

text \<open>\<open>list_traversal\<close> over the threads, as its theory shows: the first one the callback stops at.\<close>

definition traverse :: "(task_struct \<Rightarrow> bool) \<Rightarrow> 'a kernel_scheme \<Rightarrow> addr" where
  "traverse P s = (case List.find (\<lambda>t. P (tcbs s t)) (thread_all_list s) of Some t \<Rightarrow> t | None \<Rightarrow> NULL)"

definition pid2thread :: "int \<Rightarrow> 'a kernel_scheme \<Rightarrow> addr" where
  "pid2thread p s = traverse (pid_check p) s"

section \<open>Creating threads\<close>

text \<open>A TCB page that was cleared, and has its name and first values.\<close>

definition cleared_tcb :: task_struct where
  "cleared_tcb = \<lparr>self_kstack = 0, pid = 0, parent_pid = 0, status = TASK_RUNNING,
     task_name = replicate TASK_NAME_LEN 0, time_slice = 0, this_tick = 0, total_ticks = 0,
     fd_table = replicate MAX_FILE_OPEN_PER_PROC 0, pgdir = NULL,
     userprog_vaddr = \<lparr>vaddr_bitmap = \<lparr>btmp_byte_len = 0, bits = []\<rparr>, vaddr_start = 0\<rparr>,
     u_block_desc = replicate MEM_UNIT_CNT \<lparr>block_size = 0, blocks_per_arena = 0, free_list = []\<rparr>,
     cwd_inode_no = 0, exit_status = 0, stack_magic = 0\<rparr>"

definition init_thread :: "addr \<Rightarrow> u8 list \<Rightarrow> u8 \<Rightarrow> 'a threads_scheme \<Rightarrow> 'a threads_scheme res" where
  "init_thread tcb name sl s =
     asserting (tcb \<noteq> NULL)
     (let s = upd_tcb tcb (\<lambda>_. cleared_tcb) s in
      bindE (allocate_pid s) (\<lambda>(p, s).
      bindE (strcpy (Some (task_name (tcbs s tcb))) (Some name)) (\<lambda>nm.
      Inr (upd_tcb tcb (\<lambda>t. t\<lparr>pid := p, parent_pid := -1, task_name := nm,
        status := (if tcb = main_thread s then TASK_RUNNING else TASK_READY),
        pgdir := NULL, this_tick := sl, total_ticks := 0, time_slice := sl,
        stack_magic := 0x20010107, self_kstack := tcb + 4096, cwd_inode_no := 0,
        fd_table := List.map (\<lambda>i. if i < 3 then int i else -1) [0..<MAX_FILE_OPEN_PER_PROC]\<rparr>) s))))"

definition thread_create :: "addr \<Rightarrow> code \<Rightarrow> addr \<Rightarrow> 'a threads_scheme \<Rightarrow> 'a threads_scheme" where
  "thread_create tcb function func_arg s =
     (let s = upd_tcb tcb (\<lambda>t. t\<lparr>self_kstack := self_kstack t - sizeof_intr_stack - sizeof_thread_stack\<rparr>) s in
      s\<lparr>thread_stacks := (thread_stacks s)(self_kstack (tcbs s tcb) \<mapsto>
         \<lparr>ts_ebp = 0, ts_ebx = 0, ts_edi = 0, ts_esi = 0, ts_eip = Kernel_thread,
          ts_function = function, ts_func_arg = func_arg\<rparr>)\<rparr>)"

definition enqueue_ready :: "addr \<Rightarrow> 'a kernel_scheme \<Rightarrow> 'a kernel_scheme res" where
  "enqueue_ready tcb s =
     asserting (tcb \<notin> set (thread_ready_list s)) (Inr (s\<lparr>thread_ready_list := thread_ready_list s @ [tcb]\<rparr>))"

definition enqueue_all :: "addr \<Rightarrow> 'a kernel_scheme \<Rightarrow> 'a kernel_scheme res" where
  "enqueue_all tcb s =
     asserting (tcb \<notin> set (thread_all_list s)) (Inr (s\<lparr>thread_all_list := thread_all_list s @ [tcb]\<rparr>))"

definition thread_start ::
  "u8 list \<Rightarrow> u8 \<Rightarrow> code \<Rightarrow> addr \<Rightarrow> 'a threads_scheme \<Rightarrow> (addr \<times> 'a threads_scheme) res" where
  "thread_start name sl function func_args s =
     bindE (get_kernel_pages 1 s) (\<lambda>(tcb, s).
     bindE (init_thread tcb name sl s) (\<lambda>s.
     bindE (enqueue_ready tcb (thread_create tcb function func_args s)) (\<lambda>s.
     bindE (enqueue_all tcb s) (\<lambda>s. Inr (tcb, s)))))"

definition make_main_thread :: "'a threads_scheme \<Rightarrow> 'a threads_scheme res" where
  "make_main_thread s =
     (let s = s\<lparr>main_thread := running_thread s\<rparr> in
      bindE (init_thread (main_thread s) (lit ''main'') 31 s) (enqueue_all (main_thread s)))"

text \<open>What a new thread runs first: interrupts are enabled and its function is called.\<close>

definition kernel_thread :: "code \<Rightarrow> addr \<Rightarrow> 'a cpu_scheme \<Rightarrow> (code \<times> addr) \<times> 'a cpu_scheme" where
  "kernel_thread function func_args s = ((function, func_args), snd (intr_enable s))"

section \<open>Processes\<close>

text \<open>
  The kernel half of the directory in use is copied, words 768 to 1023, through the mapping of the
  new directory page and the self-map. \<open>v2p\<close> notes the physical address for later switches.
\<close>

definition copy_kernel_half :: "addr \<Rightarrow> 'a vm_scheme \<Rightarrow> 'a vm_scheme res" where
  "copy_kernel_half dir =
     foldE (\<lambda>i s. bindE (load32 (0xFFFFF000 + 0x300 * 4 + 4 * of_nat i) s) (\<lambda>w.
       store32 (dir + 0x300 * 4 + 4 * of_nat i) w s)) [0..<256]"

definition fill_page_dir :: "addr \<Rightarrow> 'a vm_scheme \<Rightarrow> 'a vm_scheme res" where
  "fill_page_dir page_dir_vaddr s =
     bindE (copy_kernel_half page_dir_vaddr s) (\<lambda>s.
     bindE (addr_v2p page_dir_vaddr s) (\<lambda>new_page_dir_phy_addr.
     bindE (store32 (page_dir_vaddr + 4 * 1023) (new_page_dir_phy_addr OR PG_US_U OR PG_RW_W OR PG_P_1) s) (\<lambda>s.
       Inr (s\<lparr>v2p := (v2p s)(page_dir_vaddr := new_page_dir_phy_addr)\<rparr>))))"

definition create_page_dir :: "'a vm_scheme \<Rightarrow> (addr \<times> 'a vm_scheme) res" where
  "create_page_dir s =
     bindE (get_kernel_pages 1 s) (\<lambda>(page_dir_vaddr, s).
     if page_dir_vaddr = NULL then Inr (NULL, s)
     else bindE (fill_page_dir page_dir_vaddr s) (\<lambda>s. Inr (page_dir_vaddr, s)))"

definition user_btmp_len :: u32 where
  "user_btmp_len = (0xC0000000 - USER_VADDR_START) div 4096 div 8"

text \<open>The bitmap pages come cleared; \<open>bitmap_init\<close> asserts that there are some.\<close>

definition create_user_vaddr_bitmap :: "addr \<Rightarrow> 'a threads_scheme \<Rightarrow> 'a threads_scheme res" where
  "create_user_vaddr_bitmap user_prog s =
     (let s = upd_tcb user_prog (\<lambda>t. t\<lparr>userprog_vaddr := (userprog_vaddr t)\<lparr>vaddr_start := USER_VADDR_START\<rparr>\<rparr>) s;
          bitmap_pg_cnt = unat (DIV_CEILING user_btmp_len 4096) in
      bindE (get_kernel_pages bitmap_pg_cnt s) (\<lambda>(b, s).
      asserting (b \<noteq> NULL)
      (bindE (bitmap_init \<lparr>btmp_byte_len = unat user_btmp_len, bits = replicate (bitmap_pg_cnt * PG_SIZE) 0\<rparr>) (\<lambda>bm.
       Inr (upd_tcb user_prog (\<lambda>t. t\<lparr>userprog_vaddr := (userprog_vaddr t)\<lparr>vaddr_bitmap := bm\<rparr>\<rparr>)
         (s\<lparr>bits_at := (bits_at s)(user_prog := b)\<rparr>))))))"

definition process_execute :: "addr \<Rightarrow> u8 list \<Rightarrow> 'a threads_scheme \<Rightarrow> 'a threads_scheme res" where
  "process_execute filename name s =
     bindE (get_kernel_pages 1 s) (\<lambda>(tcb, s).
     bindE (init_thread tcb name default_time_slice s) (\<lambda>s.
     bindE (create_user_vaddr_bitmap tcb s) (\<lambda>s.
     let s = thread_create tcb Start_process filename s in
     bindE (create_page_dir s) (\<lambda>(dir, s).
     let s = upd_tcb tcb (\<lambda>t. t\<lparr>pgdir := dir, u_block_desc := block_desc_init\<rparr>) s in
     case intr_disable s of (old_status, s) \<Rightarrow>
     bindE (enqueue_ready tcb s) (\<lambda>s.
     bindE (enqueue_all tcb s) (\<lambda>s. Inr (intr_set_status old_status s)))))))"

text \<open>
  The first thing a process runs, on its kernel stack: the frame its return from the interrupt
  pops, with a page for its user stack. A failed allocation gives \<open>esp = 4096\<close>.
\<close>

definition start_process :: "addr \<Rightarrow> 'a threads_scheme \<Rightarrow> 'a threads_scheme res" where
  "start_process function s =
     (let c = running_thread s;
          s = upd_tcb c (\<lambda>t. t\<lparr>self_kstack := self_kstack t + sizeof_thread_stack\<rparr>) s;
          proc_stack = self_kstack (tcbs s c) in
      bindE (get_a_page PF_USER USER_STACK3_VADDR s) (\<lambda>(page, s).
        Inr (s\<lparr>intr_stacks := (intr_stacks s)(proc_stack \<mapsto>
          \<lparr>is_edi = 0, is_esi = 0, is_ebp = 0, is_esp_dummy = 0, is_ebx = 0, is_edx = 0, is_ecx = 0,
           is_eax = 0, is_gs = 0, is_fs = SELECTOR_U_DATA, is_es = SELECTOR_U_DATA, is_ds = SELECTOR_U_DATA,
           is_eip = Code function, is_cs = SELECTOR_U_CODE, is_eflags = EFLAGS_user, is_esp = page + 4096,
           is_ss = SELECTOR_U_DATA\<rparr>)\<rparr>)))"

definition thread_init :: "addr \<Rightarrow> 'a threads_scheme \<Rightarrow> 'a threads_scheme res" where
  "thread_init init s =
     bindE (pid_pool_init (s\<lparr>thread_all_list := [], thread_ready_list := []\<rparr>)) (\<lambda>s.
     bindE (process_execute init (lit ''init'') s) (\<lambda>s.
     bindE (make_main_thread s) (\<lambda>s.
     bindE (thread_start (lit ''idle'') 10 Idle NULL s) (\<lambda>(t, s). Inr (s\<lparr>idle_thread := t\<rparr>)))))"

section \<open>Leaving\<close>

text \<open>
  \<open>tcb->pid\<close> is read after the page of the TCB was given back; it still holds the old value as long
  as no one has taken the page, which nobody can with interrupts off.
\<close>

definition thread_exit :: "addr \<Rightarrow> bool \<Rightarrow> 'a threads_scheme \<Rightarrow> 'a threads_scheme res" where
  "thread_exit tcb need_schedule s =
     (let s = snd (intr_disable s);
          s = upd_tcb tcb (\<lambda>t. t\<lparr>status := TASK_DIED\<rparr>) s;
          s = (if tcb \<in> set (thread_ready_list s)
               then s\<lparr>thread_ready_list := remove1 tcb (thread_ready_list s)\<rparr> else s) in
      if tcb \<notin> set (thread_all_list s) then Inl Bad_access
      else
        let s = s\<lparr>thread_all_list := remove1 tcb (thread_all_list s)\<rparr> in
        bindE (if pgdir (tcbs s tcb) \<noteq> NULL then mfree_page PF_KERNEL (pgdir (tcbs s tcb)) 1 s else Inr s) (\<lambda>s.
        bindE (if tcb \<noteq> main_thread s then mfree_page PF_KERNEL tcb 1 s else Inr s) (\<lambda>s.
        bindE (release_pid (pid (tcbs s tcb)) s) (\<lambda>s.
          if need_schedule then schedule s else Inr s))))"

section \<open>Listing the threads\<close>

text \<open>The columns are padded with blanks; \<open>write\<close> is the system call on descriptor 1.\<close>

definition pad_text :: "nat \<Rightarrow> vararg \<Rightarrow> char \<Rightarrow> u8 list res" where
  "pad_text buf_len v format =
     bindE (if format = CHR ''s'' then sprintf (replicate buf_len 0) (lit ''%s'') [v]
            else if format = CHR ''d'' then sprintf (replicate buf_len 0) (lit ''%d'') [v]
            else if format = CHR ''x'' then sprintf (replicate buf_len 0) (lit ''%x'') [v]
            else Inr (replicate buf_len 0, 0)) (\<lambda>(buf, n).
       Inr (take n buf @ replicate (buf_len - n) (chr CHR '' '')))"

definition pad_print ::
  "(u8 list \<Rightarrow> 's \<Rightarrow> 's res) \<Rightarrow> nat \<Rightarrow> vararg \<Rightarrow> char \<Rightarrow> 's \<Rightarrow> 's res" where
  "pad_print write buf_len v format s =
     bindE (pad_text buf_len v format) (\<lambda>buf. write (take (buf_len - 1) buf) s)"

definition status_name :: "task_status \<Rightarrow> string" where
  "status_name st = (case st of TASK_RUNNING \<Rightarrow> ''RUNNING'' | TASK_READY \<Rightarrow> ''READY''
     | TASK_BLOCKED \<Rightarrow> ''BLOCKED'' | TASK_WAITING \<Rightarrow> ''WAITING'' | TASK_HANGING \<Rightarrow> ''HANGING''
     | TASK_DIED \<Rightarrow> ''DIED'')"

definition elem2thread_info ::
  "(u8 list \<Rightarrow> 's \<Rightarrow> 's res) \<Rightarrow> task_struct \<Rightarrow> 's \<Rightarrow> 's res" where
  "elem2thread_info write t s =
     bindE (pad_print write 16 (VInt (scast (pid t))) CHR ''d'' s) (\<lambda>s.
     bindE (if parent_pid t = -1 then pad_print write 16 (VStr (lit ''NULL'')) CHR ''s'' s
            else pad_print write 16 (VInt (scast (parent_pid t))) CHR ''d'' s) (\<lambda>s.
     bindE (pad_print write 16 (VStr (lit (status_name (status t)))) CHR ''s'' s) (\<lambda>s.
     bindE (pad_print write 16 (VInt (total_ticks t)) CHR ''x'' s) (\<lambda>s.
     bindE (strlen (Some (task_name t))) (\<lambda>n.
     asserting (n < 17)
     (bindE (memcpy (Some (replicate 16 0)) (Some (task_name t)) n) (\<lambda>buf.
      bindE (strcat (Some buf) (Some (lit [CHR 0x0A]))) (\<lambda>buf.
      bindE (strlen (Some buf)) (\<lambda>n. write (take n buf) s)))))))))"

definition sys_ps :: "(u8 list \<Rightarrow> 'a kernel_scheme \<Rightarrow> 'a kernel_scheme res) \<Rightarrow> 'a kernel_scheme \<Rightarrow> 'a kernel_scheme res" where
  "sys_ps write s =
     bindE (write (butlast (lit (''PID            ParentPID      STAT           TICKS          COMMAND'' @ [CHR 0x0A]))) s)
       (foldE (\<lambda>t s. elem2thread_info write (tcbs s t) s) (thread_all_list s))"

section \<open>Pids are unique\<close>

definition pids_ok :: "'a threads_scheme \<Rightarrow> bool" where
  "pids_ok s \<longleftrightarrow> wf_bitmap (pid_bitmap s) \<and> bit_cnt (pid_bitmap s) = 1024 \<and> pid_start s = 1 \<and>
     mutex_free (pid_mutex s) \<and> cur s \<noteq> NULL"

text \<open>The pids in use.\<close>

definition pid_used :: "'a threads_scheme \<Rightarrow> u16 \<Rightarrow> bool" where
  "pid_used s p \<longleftrightarrow> 1 \<le> unat p \<and> unat p \<le> 1024 \<and> taken (pid_bitmap s) (unat p - 1)"

lemma pid_bracket:
  assumes "mutex_free (pid_mutex s)" "cur s \<noteq> NULL"
  obtains m where "pid_acquire s = Inr (s\<lparr>pid_mutex := m\<rparr>)"
    "\<And>b. pid_release (s\<lparr>pid_mutex := m, pid_bitmap := b\<rparr>) = Inr (s\<lparr>pid_bitmap := b, pid_mutex := mutex_init\<rparr>)"
proof -
  let ?m = "\<lparr>holder = cur s, mutex_sema = \<lparr>sema_value = 0, waiters = []\<rparr>, holder_repeat_nr = 1\<rparr>"
  show thesis
  proof (rule that [of ?m])
    show "pid_acquire s = Inr (s\<lparr>pid_mutex := ?m\<rparr>)"
      by (simp add: pid_acquire_def mutex_acquire_free [OF assms])
    show "pid_release (s\<lparr>pid_mutex := ?m, pid_bitmap := b\<rparr>) = Inr (s\<lparr>pid_bitmap := b, pid_mutex := mutex_init\<rparr>)" for b
      by (simp add: pid_release_def mutex_release_held)
  qed
qed

lemma pid_bits:
  assumes "i < 1024"
  shows "unat (1 + of_nat i :: u16) = i + 1" "unat (scast (1 + of_nat i :: u16) - 1 :: u32) = i"
proof -
  show u: "unat (1 + of_nat i :: u16) = i + 1"
    using assms by (simp add: unat_word_ariths unat_of_nat)
  have "uint (1 + of_nat i :: u16) = int i + 1" using u by (metis of_nat_1 of_nat_add of_nat_unat)
  then have "sint (1 + of_nat i :: u16) = int i + 1"
    using assms by (simp add: sint_uint signed_take_bit_int_eq_self)
  then have "(scast (1 + of_nat i :: u16) :: u32) = word_of_int (int i + 1)" by (simp add: scast_eq)
  then have "(scast (1 + of_nat i :: u16) - 1 :: u32) = of_nat i" by simp
  then show "unat (scast (1 + of_nat i :: u16) - 1 :: u32) = i" using assms by (simp add: unat_of_nat)
qed

text \<open>
  C21. A pid that is handed out was not in use and then is, no other pid changes, and giving it back
  undoes exactly that.
\<close>

theorem pids_unique:
  assumes "pids_ok s" "has_free (pid_bitmap s)"
  shows "\<exists>p s' s''. allocate_pid s = Inr (p, s') \<and> \<not> pid_used s p \<and> 1 \<le> unat p \<and> unat p \<le> 1024 \<and>
    pids_ok s' \<and> (\<forall>q. pid_used s' q \<longleftrightarrow> q = p \<or> pid_used s q) \<and>
    release_pid p s' = Inr s'' \<and> pids_ok s'' \<and> (\<forall>q. pid_used s'' q \<longleftrightarrow> pid_used s q)"
proof -
  let ?b = "pid_bitmap s"
  have wf: "wf_bitmap ?b" and n: "bit_cnt ?b = 1024" and m: "mutex_free (pid_mutex s)" "cur s \<noteq> NULL"
    and st: "pid_start s = 1" using assms(1) by (simp_all add: pids_ok_def)
  have len: "j < 1024 \<Longrightarrow> j < 8 * length (bits ?b)" for j using wf n by (simp add: wf_bitmap_def bit_cnt_def)
  obtain i where i: "bitmap_scan ?b 1 = Inr (int i)" "i < 1024" "\<not> taken ?b i"
    using bitmap_scan_from_first [OF wf assms(2)] n by metis
  obtain b1 where b1: "bitmap_set ?b i 1 = Inr b1" "length (bits b1) = length (bits ?b)" "btmp_byte_len b1 = btmp_byte_len ?b"
      "\<forall>j < 8 * length (bits ?b). taken b1 j \<longleftrightarrow> (if j = i then (1::int) = 1 else taken ?b j)"
    using bitmap_set_eq [OF len [OF i(2)], of 1] by auto
  obtain b2 where b2: "bitmap_set b1 i 0 = Inr b2" "length (bits b2) = length (bits ?b)" "btmp_byte_len b2 = btmp_byte_len ?b"
      "\<forall>j < 8 * length (bits ?b). taken b2 j \<longleftrightarrow> (if j = i then (0::int) = 1 else taken b1 j)"
    using bitmap_set_eq [of i b1 0] len [OF i(2)] b1(2,3) by auto
  let ?p = "1 + of_nat i :: u16"
  let ?s1 = "s\<lparr>pid_bitmap := b1, pid_mutex := mutex_init\<rparr>"
  let ?s2 = "?s1\<lparr>pid_bitmap := b2, pid_mutex := mutex_init\<rparr>"
  have ok: "pids_ok ?s1" "pids_ok ?s2"
    using assms(1) b1(2,3) b2(2,3) by (simp_all add: pids_ok_def wf_bitmap_def bit_cnt_def mutex_free_def)
  have "allocate_pid s = Inr (?p, ?s1)"
  proof -
    obtain mx where "pid_acquire s = Inr (s\<lparr>pid_mutex := mx\<rparr>)"
        "\<And>b. pid_release (s\<lparr>pid_mutex := mx, pid_bitmap := b\<rparr>) = Inr (s\<lparr>pid_bitmap := b, pid_mutex := mutex_init\<rparr>)"
      by (rule pid_bracket [OF m]) (rule that)
    then show ?thesis using i(1) b1(1) st by (simp add: allocate_pid_def)
  qed
  moreover have "release_pid ?p ?s1 = Inr ?s2"
  proof -
    have "mutex_free (pid_mutex ?s1)" "cur ?s1 \<noteq> NULL" using ok by (simp_all add: pids_ok_def)
    then obtain mx where "pid_acquire ?s1 = Inr (?s1\<lparr>pid_mutex := mx\<rparr>)"
        "\<And>b. pid_release (?s1\<lparr>pid_mutex := mx, pid_bitmap := b\<rparr>) = Inr (?s1\<lparr>pid_bitmap := b, pid_mutex := mutex_init\<rparr>)"
      by (rule pid_bracket) (rule that)
    then show ?thesis using b2(1) st pid_bits(2) [OF i(2)] by (simp add: release_pid_def Let_def)
  qed
  moreover have one: "unat q = unat ?p \<longleftrightarrow> q = ?p" for q by (rule word_unat_eq_iff [symmetric])
  have q1: "pid_used ?s1 q \<longleftrightarrow> q = ?p \<or> pid_used s q" for q
    using b1(4) len [of "unat q - 1"] one [of q] i(2) unfolding pid_used_def pid_bits(1) [OF i(2)] by auto
  have b2same: "taken b2 j = taken ?b j" if "j < 1024" for j
    using b1(4) b2(4) len [OF that] i(3) by simp
  have q2: "pid_used ?s2 q \<longleftrightarrow> pid_used s q" for q
    using b2same [of "unat q - 1"] unfolding pid_used_def by auto
  moreover have "\<not> pid_used s ?p" "1 \<le> unat ?p" "unat ?p \<le> 1024"
    using i unfolding pid_used_def pid_bits(1) [OF i(2)] by simp_all
  ultimately show ?thesis
    using ok q1 by (intro exI [of _ ?p] exI [of _ ?s1] exI [of _ ?s2]) simp
qed

section \<open>The address space of a process\<close>

text \<open>Two memories that differ at most inside the frame \<open>f\<close>.\<close>

definition same_outside :: "u32 \<Rightarrow> (u32 \<Rightarrow> u32) \<Rightarrow> (u32 \<Rightarrow> u32) \<Rightarrow> bool" where
  "same_outside f mem m \<longleftrightarrow> (\<forall>a. (\<forall>x. unat x < 4096 \<longrightarrow> a \<noteq> f + x) \<longrightarrow> m a = mem a)"

lemma same_outside_pte:
  assumes "unused_frame mem dir f" "same_outside f mem m" "present (mem (pde_at dir v))"
  shows "m (pte_at mem dir v) = mem (pte_at mem dir v)"
proof -
  have "frame (mem (pde_at dir v)) \<noteq> f" "aligned f" using assms(1,3) by (simp_all add: unused_frame_def)
  then have "pte_at mem dir v \<noteq> f + y" if "unat y < 4096" for y
    using entry_distinct [OF aligned_frame _ idx_offset(2) that] unfolding pte_at_def by blast
  then show ?thesis using assms(2) unfolding same_outside_def by blast
qed

lemma same_outside_keeps:
  assumes "self_mapped mem dir" "unused_frame mem dir f" "same_outside f mem m"
  shows "m (pde_at dir v) = mem (pde_at dir v)" "self_mapped m dir"
    "mapped m dir v = mapped mem dir v" "mapped mem dir v \<Longrightarrow> translate m dir v = translate mem dir v"
proof -
  have al: "aligned dir" "aligned f" "f \<noteq> dir" using assms(1,2) by (simp_all add: self_mapped_def unused_frame_def)
  have out: "dir + x \<noteq> f + y" if "unat x < 4096" "unat y < 4096" for x y
    using entry_distinct [OF al(1,2) that] al(3) by blast
  have "m (dir + x) = mem (dir + x)" if "unat x < 4096" for x
    using assms(3) out [OF that] unfolding same_outside_def by blast
  then have pde: "m (pde_at dir v) = mem (pde_at dir v)" "m (dir + 4 * 1023) = mem (dir + 4 * 1023)" for v
    using idx_offset(1) [of v] unfolding pde_at_def by simp_all
  show "m (pde_at dir v) = mem (pde_at dir v)" by (rule pde)
  show "self_mapped m dir" using assms(1) pde(2) by (simp add: self_mapped_def)
  note pte = same_outside_pte [OF assms(2,3)]
  have at: "pte_at m dir v = pte_at mem dir v" by (simp add: pte_at_def pde)
  show "mapped m dir v = mapped mem dir v" "mapped mem dir v \<Longrightarrow> translate m dir v = translate mem dir v"
    using pte [of v] by (auto simp: mapped_def translate_def at pde)
qed

text \<open>The directory in use is read at the last page; a page is written through its own mapping.\<close>

lemma access_dir:
  assumes "self_mapped mem dir" "unat x < 4096"
  shows "mapped mem dir (0xFFFFF000 + x)" "translate mem dir (0xFFFFF000 + x) = dir + x"
proof -
  have al: "aligned 0xFFFFF000" by (simp add: aligned_def)
  note f = aligned_add [OF al assms(2)]
  have "PDE_IDX (0xFFFFF000 + x) = 1023" "PTE_IDX (0xFFFFF000 + x) = 1023"
    using idx_frame [of "0xFFFFF000 + x"] unfolding f(1) by (simp_all add: PDE_IDX_def PTE_IDX_def)
  then show "mapped mem dir (0xFFFFF000 + x)" "translate mem dir (0xFFFFF000 + x) = dir + x"
    using assms(1) f(2) by (simp_all add: mapped_def translate_def pte_at_def pde_at_def self_mapped_def)
qed

lemma access_in_page:
  assumes "aligned va" "unat x < 4096"
  shows "mapped mem dir (va + x) = mapped mem dir va" "translate mem dir (va + x) = translate mem dir va + x"
proof -
  note f = aligned_add [OF assms]
  have v: "frame va = va" "va AND 0xFFF = 0" using aligned_add [OF assms(1), of 0] by simp_all
  have "PDE_IDX (va + x) = PDE_IDX va" "PTE_IDX (va + x) = PTE_IDX va"
    using idx_frame [of "va + x"] unfolding f(1) by simp_all
  then show "mapped mem dir (va + x) = mapped mem dir va" "translate mem dir (va + x) = translate mem dir va + x"
    using f(2) v(2) by (simp_all add: mapped_def translate_def pte_at_def pde_at_def)
qed

text \<open>The memory after the first \<open>n\<close> words are copied.\<close>

definition half_copied :: "(u32 \<Rightarrow> u32) \<Rightarrow> u32 \<Rightarrow> u32 \<Rightarrow> nat \<Rightarrow> u32 \<Rightarrow> u32" where
  "half_copied mem dir f n = (\<lambda>a. if \<exists>i < n. a = f + (0xC00 + 4 * of_nat i)
     then mem (dir + (a - f)) else mem a)"

lemma half_word: "i < 256 \<Longrightarrow> unat (0xC00 + 4 * of_nat i :: u32) = 0xC00 + 4 * i"
  by (simp add: unat_word_ariths unat_of_nat)

lemma half_less: "i < 256 \<Longrightarrow> unat (0xC00 + 4 * of_nat i :: u32) < 4096"
  using half_word [of i] by simp

lemma half_outside:
  assumes "n \<le> 256" shows "same_outside f mem (half_copied mem dir f n)"
  unfolding same_outside_def
proof (intro allI impI)
  fix a assume out: "\<forall>x. unat x < 4096 \<longrightarrow> a \<noteq> f + x"
  have "a \<noteq> f + (0xC00 + 4 * of_nat i)" if "i < n" for i
  proof -
    have "unat (0xC00 + 4 * of_nat i :: u32) < 4096" using half_less [of i] that assms by simp
    then show ?thesis using out by blast
  qed
  then show "half_copied mem dir f n a = mem a" by (auto simp: half_copied_def)
qed

lemma copy_kernel_half_eq:
  assumes self: "self_mapped (pmem s) (cr3 s)" and va: "aligned va" "mapped (pmem s) (cr3 s) va"
    and f: "f = translate (pmem s) (cr3 s) va" "unused_frame (pmem s) (cr3 s) f"
  shows "copy_kernel_half va s = Inr (s\<lparr>pmem := half_copied (pmem s) (cr3 s) f 256\<rparr>)"
proof -
  let ?step = "\<lambda>i s. bindE (load32 (0xFFFFF000 + 0x300 * 4 + 4 * of_nat i) s) (\<lambda>w.
       store32 (va + 0x300 * 4 + 4 * of_nat i) w s)"
  have al: "aligned (cr3 s)" "aligned f" "f \<noteq> cr3 s" using self f by (simp_all add: self_mapped_def unused_frame_def)
  have "foldE ?step [0..<n] s = Inr (s\<lparr>pmem := half_copied (pmem s) (cr3 s) f n\<rparr>)" if "n \<le> 256" for n
    using that
  proof (induction n)
    case 0
    then show ?case by (simp add: half_copied_def)
  next
    case (Suc n)
    let ?m = "half_copied (pmem s) (cr3 s) f n" and ?x = "0xC00 + 4 * of_nat n :: u32"
    let ?s = "s\<lparr>pmem := ?m\<rparr>"
    have n: "n < 256" "unat ?x < 4096" using Suc.prems half_word [of n] by simp_all
    note out = same_outside_keeps [OF self f(2) half_outside [of n]]
    have selfm: "self_mapped ?m (cr3 s)" using out(2) n by simp
    have a: "(0xFFFFF000 + 0x300 * 4 + 4 * of_nat n :: u32) = 0xFFFFF000 + ?x"
      "va + 0x300 * 4 + 4 * of_nat n = va + ?x" by simp_all
    have ne: "f + y \<noteq> cr3 s + ?x" if "unat y < 4096" for y
      using entry_distinct [OF al(2,1) that n(2)] al(3) by blast
    have "cr3 s + ?x \<noteq> f + (0xC00 + 4 * of_nat i)" if "i < n" for i
    proof -
      have "unat (0xC00 + 4 * of_nat i :: u32) < 4096" using half_less [of i] that n(1) by simp
      from ne [OF this] show ?thesis by (rule not_sym)
    qed
    then have w: "?m (cr3 s + ?x) = pmem s (cr3 s + ?x)" by (auto simp: half_copied_def)
    have ld: "load32 (0xFFFFF000 + 0x300 * 4 + 4 * of_nat n) ?s = Inr (pmem s (cr3 s + ?x))"
      unfolding a load32_def using access_dir [OF selfm n(2)] w by simp
    have tr: "mapped ?m (cr3 s) (va + ?x)" "translate ?m (cr3 s) (va + ?x) = f + ?x"
      using access_in_page [OF va(1) n(2), of ?m "cr3 s"] out(3,4) va(2) f(1) n by simp_all
    have "half_copied (pmem s) (cr3 s) f (Suc n) = ?m(f + ?x := pmem s (cr3 s + ?x))"
      by (rule ext) (auto simp: half_copied_def less_Suc_eq)
    then have st: "store32 (va + 0x300 * 4 + 4 * of_nat n) (pmem s (cr3 s + ?x)) ?s =
        Inr (s\<lparr>pmem := half_copied (pmem s) (cr3 s) f (Suc n)\<rparr>)"
      unfolding a store32_def using tr by simp
    show ?case using Suc ld st by (simp add: foldE_append)
  qed
  from this [of 256] show ?thesis by (simp add: copy_kernel_half_def)
qed

text \<open>
  C16. The page directory of a new process, in a frame of its own, maps itself and translates every
  address of the kernel half as the directory in use does; the one in use translates as before.
\<close>

theorem page_dir_shares_kernel:
  assumes "self_mapped (pmem s) (cr3 s)" "aligned va" "mapped (pmem s) (cr3 s) va"
    and "f = translate (pmem s) (cr3 s) va" "unused_frame (pmem s) (cr3 s) f"
  shows "\<exists>s'. fill_page_dir va s = Inr s' \<and> cr3 s' = cr3 s \<and> v2p s' va = f \<and>
    self_mapped (pmem s') f \<and>
    (\<forall>v. 768 \<le> unat (PDE_IDX v) \<longrightarrow> ordinary v \<longrightarrow>
       mapped (pmem s') f v = mapped (pmem s) (cr3 s) v \<and>
       (mapped (pmem s) (cr3 s) v \<longrightarrow> translate (pmem s') f v = translate (pmem s) (cr3 s) v)) \<and>
    keeps_translations (\<lambda>_. True) (pmem s) (pmem s') (cr3 s)"
proof -
  let ?m1 = "half_copied (pmem s) (cr3 s) f 256"
  let ?e = "f OR PG_US_U OR PG_RW_W OR PG_P_1"
  let ?m = "?m1(f + 4 * 1023 := ?e)"
  let ?s1 = "s\<lparr>pmem := ?m1\<rparr>"
  have al: "aligned (cr3 s)" "aligned f" "f \<noteq> cr3 s"
    using assms(1,5) by (simp_all add: self_mapped_def unused_frame_def)
  note out1 = same_outside_keeps [OF assms(1,5) half_outside [OF order_refl]]
  have so: "same_outside f (pmem s) ?m"
    using half_outside [of 256 f "pmem s" "cr3 s"] unfolding same_outside_def by auto
  note out = same_outside_keeps [OF assms(1,5) so]
  have "addr_v2p va ?s1 = Inr (translate ?m1 (cr3 s) va)"
    using addr_v2p_translates [of ?s1 va] out1(2,3) assms(3) by simp
  then have v2p: "addr_v2p va ?s1 = Inr f" using out1(4) [OF assms(3)] assms(4) by simp
  have "store32 (va + 4 * 1023) ?e ?s1 = Inr (?s1\<lparr>pmem := ?m\<rparr>)"
    using access_in_page [OF assms(2), of "4 * 1023" ?m1 "cr3 s"] out1(3,4) assms(3,4) by (simp add: store32_def)
  then have run: "fill_page_dir va s = Inr (s\<lparr>pmem := ?m, v2p := (v2p s)(va := f)\<rparr>)"
    using copy_kernel_half_eq [OF assms] v2p by (simp add: fill_page_dir_def)
  have "self_mapped ?m f" using al(2) entry_bits [OF al(2)] by (simp add: self_mapped_def)
  moreover have "mapped ?m f v = mapped (pmem s) (cr3 s) v \<and>
       (mapped (pmem s) (cr3 s) v \<longrightarrow> translate ?m f v = translate (pmem s) (cr3 s) v)"
    if k: "768 \<le> unat (PDE_IDX v)" "ordinary v" for v
  proof -
    obtain i where i: "unat (PDE_IDX v) = 768 + i" using k(1) le_Suc_ex by blast
    then have "i < 256" using idx_less(1) [of v] by simp
    have idx: "4 * PDE_IDX v = 0xC00 + 4 * of_nat i"
    proof -
      have "PDE_IDX v = of_nat (768 + i)" by (metis i word_of_nat_eq_iff of_nat_unat ucast_id word_unat_eq_iff)
      then show ?thesis by (simp add: algebra_simps)
    qed
    have "pde_at f v \<noteq> f + 4 * 1023" by (rule pde_at_ordinary [OF al(2) k(2)])
    then have pde: "?m (pde_at f v) = pmem s (pde_at (cr3 s) v)"
      using \<open>i < 256\<close> by (auto simp: pde_at_def idx half_copied_def)
    have at: "pte_at ?m f v = pte_at (pmem s) (cr3 s) v" unfolding pte_at_def pde ..
    have "?m (pte_at (pmem s) (cr3 s) v) = pmem s (pte_at (pmem s) (cr3 s) v)" if "present (pmem s (pde_at (cr3 s) v))"
      by (rule same_outside_pte [OF assms(5) so that])
    then show ?thesis unfolding mapped_def translate_def pde at by auto
  qed
  moreover have "keeps_translations (\<lambda>_. True) (pmem s) ?m (cr3 s)"
    using out(3,4) by (simp add: keeps_translations_def)
  ultimately show ?thesis using run
    by (intro exI [of _ "s\<lparr>pmem := ?m, v2p := (v2p s)(va := f)\<rparr>"]) (simp del: fun_upd_apply, simp)
qed

lemma one_page_unused: "unused_frame (pmem one_page_vm) (cr3 one_page_vm) 0x200000"
proof -
  have "frame (pmem one_page_vm (pde_at 0x100000 v)) \<noteq> 0x200000" for v
  proof -
    have "pde_at 0x100000 v \<noteq> 0x101400"
      using entry_distinct [of "0x100000" "0x101000" "4 * PDE_IDX v" "0x400"] idx_offset(1) [of v]
      by (auto simp: aligned_def pde_at_def)
    then show ?thesis by (simp add: one_page_vm_def boot_vm_def boot_mem_def frame_def)
  qed
  then show ?thesis by (simp add: unused_frame_def one_page_vm_def boot_vm_def aligned_def)
qed

lemma page_dir_shares_kernel_witness:
  "\<exists>s'. fill_page_dir 0xC0100000 one_page_vm = Inr s' \<and> self_mapped (pmem s') 0x200000 \<and>
     mapped (pmem s') 0x200000 0xC0100000"
proof -
  have va: "aligned 0xC0100000" by (simp add: aligned_def)
  have tr: "0x200000 = translate (pmem one_page_vm) (cr3 one_page_vm) 0xC0100000"
    by (simp add: one_page_vm_def boot_vm_def translate_def pte_at_def pde_at_def PDE_IDX_def PTE_IDX_def
        boot_mem_def frame_def)
  have self: "self_mapped (pmem one_page_vm) (cr3 one_page_vm)" using one_page_vm_ok(1) by (simp add: paging_ok_def)
  have k: "768 \<le> unat (PDE_IDX 0xC0100000)" "ordinary 0xC0100000" by (simp_all add: PDE_IDX_def ordinary_def)
  show ?thesis
    using page_dir_shares_kernel [OF self va one_page_vm_ok(2) tr one_page_unused] k one_page_vm_ok(2) by blast
qed

definition boot_threads :: threads where
  "boot_threads = heap.extend one_arena \<lparr>pid_bitmap = \<lparr>btmp_byte_len = 128, bits = replicate 129 0\<rparr>,
     pid_start = 1, pid_mutex = mutex_init, thread_stacks = (\<lambda>_. None), intr_stacks = (\<lambda>_. None), bits_at = (\<lambda>_. 0)\<rparr>"

lemma boot_threads_simps [simp]:
  "pid_bitmap boot_threads = \<lparr>btmp_byte_len = 128, bits = replicate 129 0\<rparr>" "pid_start boot_threads = 1"
  "pid_mutex boot_threads = mutex_init" "cur boot_threads = 1"
  by (simp_all add: boot_threads_def heap.defs one_arena_def vm.defs one_page_vm_def boot_vm_def)

lemma pids_unique_witness:
  "\<exists>p s' s''. allocate_pid boot_threads = Inr (p, s') \<and> pid_used s' p \<and> release_pid p s' = Inr s'' \<and>
     \<not> pid_used s'' p"
proof -
  have ok: "pids_ok boot_threads" by (simp add: pids_ok_def wf_bitmap_def bit_cnt_def mutex_free_def)
  have "has_free (pid_bitmap boot_threads)"
    by (auto simp: has_free_def bit_cnt_def taken_def intro!: exI [of _ 0])
  then show ?thesis using pids_unique [OF ok] by blast
qed

end
