(* ===== verification/Machine.thy ===== *)
theory Machine
  imports Scheduler
begin

text \<open>
  The tables and ports the kernel sets up for the processor: segment descriptors and the TSS
  (\<open>userprog/tss.c\<close>), interrupt gates, handler table and the two 8259A controllers
  (\<open>kernel/interrupt.c\<close>), and the interval timer with the sleep built on its ticks
  (\<open>device/timer.c\<close>). Port output is a list of port and byte. The lemmas show that the packed
  descriptors read back as the values packed into them.
\<close>

section \<open>Segment descriptors\<close>

record gdt_desc =
  limit_low_word :: u16
  base_low_word :: u16
  base_mid_byte :: u8
  attr_low_byte :: u8
  limit_high_attr_high :: u8
  base_high_byte :: u8

definition make_gdt_desc :: "u32 \<Rightarrow> u32 \<Rightarrow> u8 \<Rightarrow> u8 \<Rightarrow> gdt_desc" where
  "make_gdt_desc desc_base limit attr_low attr_high =
     \<lparr>limit_low_word = ucast (limit AND 0x0000FFFF),
      base_low_word = ucast (desc_base AND 0x0000FFFF),
      base_mid_byte = ucast (drop_bit 16 (desc_base AND 0x00FF0000)),
      attr_low_byte = attr_low,
      limit_high_attr_high = ucast (drop_bit 16 (limit AND 0x000F0000) + ucast attr_high),
      base_high_byte = ucast (drop_bit 24 desc_base)\<rparr>"

definition GDT_ATTR_HIGH :: u8 where "GDT_ATTR_HIGH = push_bit 7 1 + push_bit 6 1 + push_bit 5 0 + push_bit 4 0"
definition GDT_CODE_ATTR_LOW_DPL3 :: u8 where
  "GDT_CODE_ATTR_LOW_DPL3 = push_bit 7 1 + push_bit 5 3 + push_bit 4 1 + 8"
definition GDT_DATA_ATTR_LOW_DPL3 :: u8 where
  "GDT_DATA_ATTR_LOW_DPL3 = push_bit 7 1 + push_bit 5 3 + push_bit 4 1 + 2"
definition TSS_ATTR_HIGH :: u8 where
  "TSS_ATTR_HIGH = push_bit 7 1 + push_bit 6 0 + push_bit 5 0 + push_bit 4 0 + 0"
definition TSS_ATTR_LOW :: u8 where "TSS_ATTR_LOW = push_bit 7 1 + push_bit 5 3 + push_bit 4 0 + 9"
definition SELECTOR_K_CODE :: u16 where "SELECTOR_K_CODE = push_bit 3 1 + push_bit 2 0 + 0"
definition SELECTOR_K_STACK :: u32 where "SELECTOR_K_STACK = push_bit 3 2 + push_bit 2 0 + 0"
definition SELECTOR_TSS :: u16 where "SELECTOR_TSS = push_bit 3 4 + push_bit 2 0 + 0"

text \<open>How the processor reads a descriptor.\<close>

definition desc_base_of :: "gdt_desc \<Rightarrow> u32" where
  "desc_base_of d = ucast (base_low_word d) OR push_bit 16 (ucast (base_mid_byte d)) OR push_bit 24 (ucast (base_high_byte d))"

definition desc_limit_of :: "gdt_desc \<Rightarrow> u32" where
  "desc_limit_of d = ucast (limit_low_word d) OR push_bit 16 (ucast (limit_high_attr_high d AND 0x0F))"

definition desc_flags_of :: "gdt_desc \<Rightarrow> u8" where
  "desc_flags_of d = limit_high_attr_high d AND 0xF0"

section \<open>The task state segment\<close>

record tss =
  tss_backlink :: u32
  esp0 :: u32
  ss0 :: u32
  esp1 :: u32
  ss1 :: u32
  esp2 :: u32
  ss2 :: u32
  tss_cr3 :: u32
  tss_eip :: u32
  tss_eflags :: u32
  tss_regs :: "u32 list"
  tss_segs :: "u32 list"
  tss_ldt :: u32
  tss_trace :: u32
  io_base :: u32

definition sizeof_tss :: u32 where "sizeof_tss = 4 * 27"

text \<open>The descriptors by their addresses, the operands of \<open>lgdt\<close> and \<open>ltr\<close>.\<close>

record machine_tables =
  gdt :: "addr \<rightharpoonup> gdt_desc"
  gdtr :: "64 word"
  tr :: u16
  the_tss :: tss

definition tss_init :: "addr \<Rightarrow> (addr \<rightharpoonup> gdt_desc) \<Rightarrow> machine_tables" where
  "tss_init tss_addr g =
     (let t = \<lparr>tss_backlink = 0, esp0 = 0, ss0 = SELECTOR_K_STACK, esp1 = 0, ss1 = 0, esp2 = 0, ss2 = 0,
               tss_cr3 = 0, tss_eip = 0, tss_eflags = 0, tss_regs = replicate 8 0, tss_segs = replicate 6 0,
               tss_ldt = 0, tss_trace = 0, io_base = sizeof_tss\<rparr> in
      \<lparr>gdt = g(0xC0000920 \<mapsto> make_gdt_desc tss_addr (sizeof_tss - 1) TSS_ATTR_LOW TSS_ATTR_HIGH,
               0xC0000928 \<mapsto> make_gdt_desc 0 0xFFFFF GDT_CODE_ATTR_LOW_DPL3 GDT_ATTR_HIGH,
               0xC0000930 \<mapsto> make_gdt_desc 0 0xFFFFF GDT_DATA_ATTR_LOW_DPL3 GDT_ATTR_HIGH),
       gdtr = (8 * 7 - 1) OR push_bit 16 0xC0000900, tr = SELECTOR_TSS, the_tss = t\<rparr>)"

section \<open>Interrupt gates\<close>

record gate_desc =
  func_offset_low_word :: u16
  selector :: u16
  dcount :: u8
  attribute :: u8
  func_offset_high_word :: u16

definition IDT_DESC_CNT :: nat where "IDT_DESC_CNT = 0x81"
definition IDT_DESC_ATTR_DPL0 :: u8 where "IDT_DESC_ATTR_DPL0 = push_bit 7 1 + push_bit 5 0 + 0xE"
definition IDT_DESC_ATTR_DPL3 :: u8 where "IDT_DESC_ATTR_DPL3 = push_bit 7 1 + push_bit 5 3 + 0xE"

definition make_idt_desc :: "u8 \<Rightarrow> u32 \<Rightarrow> gate_desc" where
  "make_idt_desc attr function =
     \<lparr>func_offset_low_word = ucast (function AND 0x0000FFFF), selector = SELECTOR_K_CODE, dcount = 0,
      attribute = attr, func_offset_high_word = ucast (drop_bit 16 (function AND 0xFFFF0000))\<rparr>"

definition gate_target :: "gate_desc \<Rightarrow> u32" where
  "gate_target g = ucast (func_offset_low_word g) OR push_bit 16 (ucast (func_offset_high_word g))"

text \<open>\<open>intr_entry_table\<close> and \<open>syscall_handler\<close> are addresses of assembly code.\<close>

definition idt_desc_init :: "(nat \<Rightarrow> u32) \<Rightarrow> u32 \<Rightarrow> gate_desc list" where
  "idt_desc_init intr_entry_table syscall_handler =
     (List.map (\<lambda>i. make_idt_desc IDT_DESC_ATTR_DPL0 (intr_entry_table i)) [0..<IDT_DESC_CNT])
       [IDT_DESC_CNT - 1 := make_idt_desc IDT_DESC_ATTR_DPL3 syscall_handler]"

section \<open>Handlers\<close>

datatype handler = General_handler | Timer_handler | Keyboard_handler | Disk_handler | Other_handler addr

record handlers =
  idt_table :: "handler list"
  intr_name :: "string list"

definition register_handler :: "u8 \<Rightarrow> handler \<Rightarrow> handlers \<Rightarrow> handlers res" where
  "register_handler vector_no function h =
     bindE (write_at (idt_table h) (unat vector_no) function) (\<lambda>t. Inr (h\<lparr>idt_table := t\<rparr>))"

definition exception_names :: "(nat \<times> string) list" where
  "exception_names =
     [(0, ''#DE Division Error''), (1, ''#DB Debug Exception''), (2, ''NMI Interrupt''),
      (3, ''#BP Breakpoint Exception''), (4, ''#OF Overflow Exception''),
      (5, ''#BR BOUND Range Exceed Exception''), (6, ''#UD Invalid Opcode Exception''),
      (7, ''#NM Device Not Available Exception''), (8, ''#DF Double Fault Exception''),
      (9, ''Coprocessor Segment Overrun''), (10, ''#TS Invalid TSS Exception''),
      (11, ''#NP Segment Not Present''), (12, ''#SS Stack Fault Exception''),
      (13, ''#GP General Protection Exception''), (14, ''#PF Page-Fault Exception''),
      (16, ''#MF x86 FPU Floating-Point Error''), (17, ''#AC Alignment Check Exception''),
      (18, ''#MC Machine-Check Exception''), (19, ''#XF SIMD Floating-Point Exception''),
      (0x20, ''Timer Interrupt'')]"

definition exception_init :: handlers where
  "exception_init =
     \<lparr>idt_table = replicate IDT_DESC_CNT General_handler,
      intr_name = foldl (\<lambda>ns (i, n). ns[i := n]) (replicate IDT_DESC_CNT ''unknown'') exception_names\<rparr>"

text \<open>The general handler ignores the two spurious vectors; otherwise it reports and spins for ever.\<close>

definition general_intr_handler :: "u8 \<Rightarrow> unit res" where
  "general_intr_handler vec_nr = (if vec_nr = 0x27 \<or> vec_nr = 0x2F then Inr () else Inl No_return)"

section \<open>Port output\<close>

type_synonym outputs = "(u16 \<times> u8) list"

definition pic_init :: outputs where
  "pic_init =
     [(0x20, 0x11), (0x21, 0x20), (0x21, 0x04), (0x21, 0x01),
      (0xA0, 0x11), (0xA1, 0x28), (0xA1, 0x02), (0xA1, 0x01),
      (0x21, 0xF8), (0xA1, 0xBF)]"

text \<open>The tables after \<open>idt_init\<close>, the bytes it sends to the controller and the operand of \<open>lidt\<close>.\<close>

definition idt_init :: "(nat \<Rightarrow> u32) \<Rightarrow> u32 \<Rightarrow> u32 \<Rightarrow> gate_desc list \<times> handlers \<times> outputs \<times> 64 word" where
  "idt_init intr_entry_table syscall_handler idt =
     (idt_desc_init intr_entry_table syscall_handler, exception_init, pic_init,
      (of_nat (8 * IDT_DESC_CNT) - 1) OR push_bit 16 (ucast idt))"

text \<open>
  The shift of the last byte applies to the counter already cut to 8 bits, promoted to \<open>int\<close>.
\<close>

definition frequency_set :: "u8 \<Rightarrow> u8 \<Rightarrow> u8 \<Rightarrow> u8 \<Rightarrow> u16 \<Rightarrow> outputs" where
  "frequency_set counter_port counter_no rwl counter_mode counter_value =
     [(0x43, push_bit 6 counter_no OR push_bit 4 rwl OR push_bit 1 counter_mode),
      (ucast counter_port, ucast counter_value),
      (ucast counter_port, ucast (drop_bit 8 (ucast (ucast counter_value :: u8) :: u32)))]"

definition COUNTER0_VALUE :: u16 where "COUNTER0_VALUE = ucast (1193180 div 100 :: u32)"

definition timer_init :: "handlers \<Rightarrow> (outputs \<times> handlers) res" where
  "timer_init h =
     bindE (register_handler 0x20 Timer_handler h) (\<lambda>h.
       Inr (frequency_set 0x40 0 3 2 COUNTER0_VALUE, h))"

section \<open>Sleeping\<close>

text \<open>
  The loop of \<open>ticks_to_sleep\<close>: \<open>yield\<close> is \<open>thread_yield\<close> with all that runs until the caller is
  switched to again. It may run for ever.
\<close>

partial_function (option) sleep_loop ::
  "('a kernel_scheme \<Rightarrow> 'a kernel_scheme) \<Rightarrow> u32 \<Rightarrow> u32 \<Rightarrow> 'a kernel_scheme \<Rightarrow> 'a kernel_scheme option" where
  "sleep_loop yield start_tick sleep_ticks s =
     (if ticks s - start_tick < sleep_ticks then sleep_loop yield start_tick sleep_ticks (yield s) else Some s)"

definition ticks_to_sleep ::
  "('a kernel_scheme \<Rightarrow> 'a kernel_scheme) \<Rightarrow> u32 \<Rightarrow> 'a kernel_scheme \<Rightarrow> 'a kernel_scheme option" where
  "ticks_to_sleep yield sleep_ticks s = sleep_loop yield (ticks s) sleep_ticks s"

definition mtime_sleep ::
  "('a kernel_scheme \<Rightarrow> 'a kernel_scheme) \<Rightarrow> u32 \<Rightarrow> 'a kernel_scheme \<Rightarrow> 'a kernel_scheme option res" where
  "mtime_sleep yield m_seconds s =
     (let sleep_ticks = DIV_CEILING m_seconds 10 in
      asserting (sleep_ticks > 0) (Inr (ticks_to_sleep yield (ticks s) s)))"

section \<open>What the packed tables say\<close>

lemma desc_masks:
  "(0x0000FFFF :: u32) = mask 16" "(0x00FF0000 :: u32) = push_bit 16 (mask 8)"
  "(0x000F0000 :: u32) = push_bit 16 (mask 4)" "(0xFFF00000 :: u32) = NOT (mask 20)"
  "(0xFFFF0000 :: u32) = NOT (mask 16)" "(0x0F :: u8) = mask 4" "(0xF0 :: u8) = NOT (mask 4)"
  by (simp_all add: mask_eq_exp_minus_1 push_bit_eq_mult)

lemma gdt_limit_high:
  assumes "attr_high AND 0x0F = 0"
  shows "drop_bit 16 (limit AND 0x000F0000) + ucast (attr_high :: u8) = drop_bit 16 (limit AND 0x000F0000) OR (ucast attr_high :: u32)"
proof (rule disjunctive_add_eq_or, rule bit_word_eqI)
  fix n
  have "\<not> (bit attr_high n \<and> n < 4)" using assms bit_imp_le_length [of attr_high n] unfolding desc_masks by (auto simp: bit_eq_iff bit_simps)
  then show "bit (drop_bit 16 (limit AND 0x000F0000) AND (ucast attr_high :: u32)) n = bit 0 n"
    unfolding desc_masks by (auto simp: bit_simps)
qed

lemma gate_target_make: "gate_target (make_idt_desc attr function) = function"
  unfolding gate_target_def make_idt_desc_def desc_masks
  by (rule bit_word_eqI) (auto simp: bit_simps)

text \<open>
  C39. A segment descriptor reads back as the base, limit and attributes it was made from, when the
  limit has 20 bits and the high attributes leave its four bits free.
\<close>

theorem gdt_desc_round_trip:
  assumes "limit AND 0xFFF00000 = 0" "attr_high AND 0x0F = 0"
  shows "desc_base_of (make_gdt_desc base limit attr_low attr_high) = base \<and>
    desc_limit_of (make_gdt_desc base limit attr_low attr_high) = limit \<and>
    attr_low_byte (make_gdt_desc base limit attr_low attr_high) = attr_low \<and>
    desc_flags_of (make_gdt_desc base limit attr_low attr_high) = attr_high"
proof (intro conjI)
  have l: "\<not> (bit limit n \<and> 20 \<le> n)" for n
    using assms(1) bit_imp_le_length [of limit n] unfolding desc_masks by (auto simp: bit_eq_iff bit_simps)
  have a: "\<not> (bit attr_high n \<and> n < 4)" for n
    using assms(2) bit_imp_le_length [of attr_high n] unfolding desc_masks by (auto simp: bit_eq_iff bit_simps)
  show "desc_base_of (make_gdt_desc base limit attr_low attr_high) = base"
    unfolding desc_base_of_def make_gdt_desc_def gdt_desc.select_convs desc_masks
  proof (rule bit_word_eqI, goal_cases)
    case (1 n)
    then show ?case by (cases "24 \<le> n") (auto simp: bit_simps)
  qed
  show "desc_limit_of (make_gdt_desc base limit attr_low attr_high) = limit"
  proof (rule bit_word_eqI)
    fix n
    show "bit (desc_limit_of (make_gdt_desc base limit attr_low attr_high)) n = bit limit n"
      unfolding desc_limit_of_def make_gdt_desc_def gdt_desc.select_convs gdt_limit_high [OF assms(2)]
      unfolding desc_masks
      using l [of n] a [of "n - 16"] by (auto simp: bit_simps)
  qed
  show "desc_flags_of (make_gdt_desc base limit attr_low attr_high) = attr_high"
  proof (rule bit_word_eqI)
    fix n
    show "bit (desc_flags_of (make_gdt_desc base limit attr_low attr_high)) n = bit attr_high n"
      unfolding desc_flags_of_def make_gdt_desc_def gdt_desc.select_convs gdt_limit_high [OF assms(2)]
      unfolding desc_masks
      using a [of n] l [of "16 + n"] bit_imp_le_length [of attr_high n] by (auto simp: bit_simps)
  qed
  show "attr_low_byte (make_gdt_desc base limit attr_low attr_high) = attr_low"
    by (simp add: make_gdt_desc_def)
qed

lemma gdt_desc_round_trip_witness:
  "desc_limit_of (make_gdt_desc 0 0xFFFFF GDT_CODE_ATTR_LOW_DPL3 GDT_ATTR_HIGH) = 0xFFFFF \<and>
   desc_flags_of (make_gdt_desc 0 0xFFFFF GDT_CODE_ATTR_LOW_DPL3 GDT_ATTR_HIGH) = 0xC0"
  using gdt_desc_round_trip [of "0xFFFFF" GDT_ATTR_HIGH 0 GDT_CODE_ATTR_LOW_DPL3]
  by (simp add: GDT_ATTR_HIGH_def push_bit_eq_mult)

text \<open>The divisor the timer is set to: the high byte is always 0, so it is 155 and not 11931.\<close>

lemma timer_divisor:
  "frequency_set 0x40 0 3 2 COUNTER0_VALUE = [(0x43, 0x34), (0x40, 155), (0x40, 0)]"
  by (simp add: frequency_set_def COUNTER0_VALUE_def push_bit_eq_mult drop_bit_eq_div ucast_eq)

section \<open>Sleeping ends\<close>


text \<open>\<open>mtime_sleep\<close> waits for as many ticks as have passed since boot, whatever it is asked for.\<close>

lemma mtime_sleep_ignores:
  assumes "DIV_CEILING m 10 > 0"
  shows "mtime_sleep yield m s = Inr (ticks_to_sleep yield (ticks s) s)"
  using assms by (simp add: mtime_sleep_def Let_def)

definition one_tick :: "kernel \<Rightarrow> kernel" where "one_tick s = s\<lparr>ticks := ticks s + 1\<rparr>"


end
