(* ===== verification/Io_Queue.thy ===== *)
theory Io_Queue
  imports Sync C_String Threads
begin

text \<open>
  The ring buffer of \<open>device/ioqueue.c\<close>, through which the keyboard handler and the pipes pass
  bytes, the keyboard handler itself (\<open>device/keyboard.c\<close>), the reading and writing loops of
  \<open>shell/pipe.c\<close>, and the console lock (\<open>device/console.c\<close>). The locale \<open>bounded_fifo\<close> states what
  a buffer promises its users; the ring is shown to keep it.
\<close>

section \<open>The ring buffer\<close>

definition bufsize :: nat where "bufsize = 64"

text \<open>\<open>head\<close> and \<open>tail\<close> start at 0 and move by \<open>next_pos\<close> only, so they are never negative.\<close>

record ioqueue =
  ioq_mutex :: mutex
  producer :: addr
  consumer :: addr
  buf :: "u8 list"
  head :: nat
  tail :: nat

definition next_pos :: "nat \<Rightarrow> nat" where "next_pos cur_pos = (cur_pos + 1) mod bufsize"

text \<open>The bytes of the buffer are not initialised; the page of a pipe comes cleared.\<close>

definition ioqueue_init :: "u8 list \<Rightarrow> ioqueue" where
  "ioqueue_init b = \<lparr>ioq_mutex = mutex_init, producer = NULL, consumer = NULL, buf = b, head = 0, tail = 0\<rparr>"

definition ioq_full :: "ioqueue \<Rightarrow> 'a cpu_scheme \<Rightarrow> bool res" where
  "ioq_full ioq s = asserting (intr_get_status s = INTR_OFF) (Inr (next_pos (head ioq) = tail ioq))"

definition ioq_empty :: "ioqueue \<Rightarrow> 'a cpu_scheme \<Rightarrow> bool res" where
  "ioq_empty ioq s = asserting (intr_get_status s = INTR_OFF) (Inr (head ioq = tail ioq))"

definition ioq_length :: "ioqueue \<Rightarrow> nat" where
  "ioq_length ioq = (if head ioq \<ge> tail ioq then head ioq - tail ioq else bufsize - (tail ioq - head ioq))"

text \<open>\<open>ioq_wait\<close> answers the thread that waits; the CPU is then another thread's.\<close>

definition ioq_wait :: "addr \<Rightarrow> 'a kernel_scheme \<Rightarrow> (addr \<times> 'a kernel_scheme) res" where
  "ioq_wait waiter s =
     asserting (waiter = NULL) (let me = running_thread s in
       bindE (thread_block TASK_BLOCKED s) (\<lambda>s. Inr (me, s)))"

definition ioq_wakeup :: "addr \<Rightarrow> 'a kernel_scheme \<Rightarrow> (addr \<times> 'a kernel_scheme) res" where
  "ioq_wakeup waiter s =
     asserting (waiter \<noteq> NULL) (bindE (thread_unblock waiter s) (\<lambda>s. Inr (NULL, s)))"

text \<open>The part of \<open>ioq_getchar\<close> after the wait, which does not look again whether there is a byte.\<close>

definition ioq_take :: "ioqueue \<Rightarrow> 'a kernel_scheme \<Rightarrow> (u8 \<times> ioqueue \<times> 'a kernel_scheme) res" where
  "ioq_take ioq s =
     bindE (read_at (buf ioq) (tail ioq)) (\<lambda>byte.
     let ioq = ioq\<lparr>tail := next_pos (tail ioq)\<rparr> in
     if producer ioq \<noteq> NULL then
       bindE (ioq_wakeup (producer ioq) s) (\<lambda>(w, s). Inr (byte, ioq\<lparr>producer := w\<rparr>, s))
     else Inr (byte, ioq, s))"

definition ioq_store :: "ioqueue \<Rightarrow> u8 \<Rightarrow> 'a kernel_scheme \<Rightarrow> (ioqueue \<times> 'a kernel_scheme) res" where
  "ioq_store ioq byte s =
     bindE (write_at (buf ioq) (head ioq) byte) (\<lambda>b.
     let ioq = ioq\<lparr>buf := b, head := next_pos (head ioq)\<rparr> in
     if consumer ioq \<noteq> NULL then
       bindE (ioq_wakeup (consumer ioq) s) (\<lambda>(w, s). Inr (ioq\<lparr>consumer := w\<rparr>, s))
     else Inr (ioq, s))"

text \<open>
  A call either goes through (\<open>Some\<close>) or goes to sleep holding the lock (\<open>None\<close>); the \<open>_resumed\<close>
  functions are what the thread does when it runs again.
\<close>

definition ioq_getchar ::
  "ioqueue \<Rightarrow> 'a kernel_scheme \<Rightarrow> (u8 option \<times> ioqueue \<times> 'a kernel_scheme) res" where
  "ioq_getchar ioq s =
     asserting (intr_get_status s = INTR_OFF)
     (bindE (ioq_empty ioq s) (\<lambda>e.
      if e then
        bindE (mutex_acquire (ioq_mutex ioq) s) (\<lambda>(m, s).
        bindE (ioq_wait (consumer ioq) s) (\<lambda>(w, s). Inr (None, ioq\<lparr>ioq_mutex := m, consumer := w\<rparr>, s)))
      else bindE (ioq_take ioq s) (\<lambda>(byte, ioq, s). Inr (Some byte, ioq, s))))"

definition ioq_getchar_resumed ::
  "ioqueue \<Rightarrow> 'a kernel_scheme \<Rightarrow> (u8 \<times> ioqueue \<times> 'a kernel_scheme) res" where
  "ioq_getchar_resumed ioq s =
     bindE (mutex_release (ioq_mutex ioq) s) (\<lambda>(m, s). ioq_take (ioq\<lparr>ioq_mutex := m\<rparr>) s)"

definition ioq_putchar_pass ::
  "ioqueue \<Rightarrow> u8 \<Rightarrow> 'a kernel_scheme \<Rightarrow> (bool \<times> ioqueue \<times> 'a kernel_scheme) res" where
  "ioq_putchar_pass ioq byte s =
     bindE (ioq_full ioq s) (\<lambda>f.
     if f then
       bindE (mutex_acquire (ioq_mutex ioq) s) (\<lambda>(m, s).
       bindE (ioq_wait (producer ioq) s) (\<lambda>(w, s). Inr (False, ioq\<lparr>ioq_mutex := m, producer := w\<rparr>, s)))
     else bindE (ioq_store ioq byte s) (\<lambda>(ioq, s). Inr (True, ioq, s)))"

definition ioq_putchar ::
  "ioqueue \<Rightarrow> u8 \<Rightarrow> 'a kernel_scheme \<Rightarrow> (bool \<times> ioqueue \<times> 'a kernel_scheme) res" where
  "ioq_putchar ioq byte s =
     asserting (intr_get_status s = INTR_OFF) (ioq_putchar_pass ioq byte s)"

definition ioq_putchar_resumed ::
  "ioqueue \<Rightarrow> u8 \<Rightarrow> 'a kernel_scheme \<Rightarrow> (bool \<times> ioqueue \<times> 'a kernel_scheme) res" where
  "ioq_putchar_resumed ioq byte s =
     bindE (mutex_release (ioq_mutex ioq) s) (\<lambda>(m, s). ioq_putchar_pass (ioq\<lparr>ioq_mutex := m\<rparr>) byte s)"

section \<open>Pipes\<close>

text \<open>A round that puts the caller to sleep is \<open>Would_block\<close> here.\<close>

definition put_byte :: "u8 \<Rightarrow> ioqueue \<times> 'a kernel_scheme \<Rightarrow> (ioqueue \<times> 'a kernel_scheme) res" where
  "put_byte byte = (\<lambda>(ioq, s). bindE (ioq_putchar ioq byte s) (\<lambda>(stored, ioq, s).
     if stored then Inr (ioq, s) else Inl Would_block))"

definition get_byte :: "ioqueue \<times> 'a kernel_scheme \<Rightarrow> (u8 \<times> ioqueue \<times> 'a kernel_scheme) res" where
  "get_byte = (\<lambda>(ioq, s). bindE (ioq_getchar ioq s) (\<lambda>(r, ioq, s).
     case r of Some byte \<Rightarrow> Inr (byte, ioq, s) | None \<Rightarrow> Inl Would_block))"

definition pipe_write_ioq ::
  "u8 list \<Rightarrow> nat \<Rightarrow> ioqueue \<times> 'a kernel_scheme \<Rightarrow> (nat \<times> ioqueue \<times> 'a kernel_scheme) res" where
  "pipe_write_ioq bytes n q =
     (let ioq_left = bufsize - ioq_length (fst q);
          sz = (if ioq_left > n then n else ioq_left) in
      if length bytes < sz then Inl Bad_access
      else bindE (foldE put_byte (take sz bytes) q) (\<lambda>q. Inr (sz, q)))"

definition pipe_read_ioq ::
  "nat \<Rightarrow> ioqueue \<times> 'a kernel_scheme \<Rightarrow> (u8 list \<times> ioqueue \<times> 'a kernel_scheme) res" where
  "pipe_read_ioq n q =
     (let ioq_len = ioq_length (fst q); sz = (if ioq_len > n then n else ioq_len) in
      drain get_byte sz q)"

section \<open>The console\<close>

record terminal = threads +
  console_lock :: mutex
  screen :: "u8 list"

definition console_init :: "'a terminal_scheme \<Rightarrow> 'a terminal_scheme" where
  "console_init s = s\<lparr>console_lock := mutex_init\<rparr>"

definition console_acquire :: "'a terminal_scheme \<Rightarrow> 'a terminal_scheme res" where
  "console_acquire s = bindE (mutex_acquire (console_lock s) s) (\<lambda>(m, s). Inr (s\<lparr>console_lock := m\<rparr>))"

definition console_release :: "'a terminal_scheme \<Rightarrow> 'a terminal_scheme res" where
  "console_release s = bindE (mutex_release (console_lock s) s) (\<lambda>(m, s). Inr (s\<lparr>console_lock := m\<rparr>))"

definition console_put_char :: "u8 \<Rightarrow> 'a terminal_scheme \<Rightarrow> 'a terminal_scheme res" where
  "console_put_char char_ascii s =
     bindE (console_acquire s) (\<lambda>s. console_release (s\<lparr>screen := screen s @ [char_ascii]\<rparr>))"

definition console_put_str :: "u8 list \<Rightarrow> 'a terminal_scheme \<Rightarrow> 'a terminal_scheme res" where
  "console_put_str str s =
     bindE (console_acquire s) (\<lambda>s.
       if terminated str then console_release (s\<lparr>screen := screen s @ text_of str\<rparr>) else Inl Bad_access)"

text \<open>\<open>put_int\<close> writes hexadecimal digits without leading zeros.\<close>

definition hex_digits :: "u32 \<Rightarrow> u8 list" where
  "hex_digits num = List.map (\<lambda>k. let d = drop_bit (28 - 4 * k) num AND 15 in
     if d \<le> 9 then ucast d + 48 else ucast d - 10 + 65) [0..<8]"

definition put_int_text :: "u32 \<Rightarrow> u8 list" where
  "put_int_text num = (case dropWhile (\<lambda>c. c = 48) (hex_digits num) of [] \<Rightarrow> [48] | c # cs \<Rightarrow> c # cs)"

definition console_put_int :: "u32 \<Rightarrow> 'a terminal_scheme \<Rightarrow> 'a terminal_scheme res" where
  "console_put_int num s =
     bindE (console_acquire s) (\<lambda>s. console_release (s\<lparr>screen := screen s @ put_int_text num\<rparr>))"

section \<open>A bounded queue\<close>

locale bounded_fifo =
  fixes items :: "'q \<Rightarrow> 'e list"
    and ok :: "'q \<Rightarrow> bool"
    and capacity :: nat
    and put :: "'e \<Rightarrow> 'q \<Rightarrow> 'q res"
    and get :: "'q \<Rightarrow> ('e \<times> 'q) res"
  assumes put_law: "ok q \<Longrightarrow> length (items q) < capacity \<Longrightarrow>
      \<exists>q'. put e q = Inr q' \<and> ok q' \<and> items q' = items q @ [e]"
    and put_full: "ok q \<Longrightarrow> length (items q) = capacity \<Longrightarrow> put e q = Inl Would_block"
    and get_law: "ok q \<Longrightarrow> items q = e # es \<Longrightarrow> \<exists>q'. get q = Inr (e, q') \<and> ok q' \<and> items q' = es"
    and bound: "ok q \<Longrightarrow> length (items q) \<le> capacity"
begin

lemma put_all:
  "ok q \<Longrightarrow> length (items q) + length es \<le> capacity \<Longrightarrow>
   \<exists>q'. foldE put es q = Inr q' \<and> ok q' \<and> items q' = items q @ es"
proof (induction es arbitrary: q)
  case (Cons e es)
  then obtain q1 where "put e q = Inr q1" "ok q1" "items q1 = items q @ [e]"
    using put_law [of q e] by auto
  with Cons.IH [of q1] Cons.prems show ?case by auto
qed simp

lemma put_too_many:
  "ok q \<Longrightarrow> capacity < length (items q) + length es \<Longrightarrow> foldE put es q = Inl Would_block"
proof (induction es arbitrary: q)
  case Nil
  then show ?case using bound [of q] by simp
next
  case (Cons e es)
  show ?case
  proof (cases "length (items q) = capacity")
    case True
    then show ?thesis using put_full Cons.prems(1) by simp
  next
    case False
    then obtain q1 where "put e q = Inr q1" "ok q1" "items q1 = items q @ [e]"
      using put_law [of q e] bound [of q] Cons.prems(1) by force
    with Cons.IH [of q1] Cons.prems show ?thesis by simp
  qed
qed

lemma get_all:
  "ok q \<Longrightarrow> items q = es @ rest \<Longrightarrow>
   \<exists>q'. drain get (length es) q = Inr (es, q') \<and> ok q' \<and> items q' = rest"
proof (induction es arbitrary: q)
  case (Cons e es)
  then obtain q1 where "get q = Inr (e, q1)" "ok q1" "items q1 = es @ rest"
    using get_law [of q e "es @ rest"] by auto
  with Cons.IH [of q1] show ?case by auto
qed simp

end

section \<open>The ring keeps the contract\<close>

definition ring_items :: "ioqueue \<Rightarrow> u8 list" where
  "ring_items ioq = List.map (\<lambda>i. buf ioq ! ((tail ioq + i) mod bufsize)) [0..<ioq_length ioq]"

definition ring_ok :: "ioqueue \<Rightarrow> bool" where
  "ring_ok ioq \<longleftrightarrow> length (buf ioq) = bufsize \<and> head ioq < bufsize \<and> tail ioq < bufsize"

text \<open>Nobody waits, the lock is free, and the thread state allows the caller to block.\<close>

definition quiet :: "ioqueue \<times> 'a kernel_scheme \<Rightarrow> bool" where
  "quiet q \<longleftrightarrow> ring_ok (fst q) \<and> producer (fst q) = NULL \<and> consumer (fst q) = NULL \<and>
     mutex_free (ioq_mutex (fst q)) \<and> sched_wf (snd q) \<and> \<not> if_flag (snd q) \<and> cur (snd q) \<noteq> idle_thread (snd q)"

lemma next_pos_cases:
  "p < bufsize \<Longrightarrow> next_pos p = (if p = 63 then 0 else p + 1)"
  by (auto simp: next_pos_def bufsize_def)

lemma ioq_length_bound: "ring_ok ioq \<Longrightarrow> ioq_length ioq \<le> 63"
  by (auto simp: ring_ok_def ioq_length_def bufsize_def)

lemma ring_head: "ring_ok ioq \<Longrightarrow> (tail ioq + ioq_length ioq) mod bufsize = head ioq"
  by (auto simp: ring_ok_def ioq_length_def bufsize_def)

lemma ring_full_iff: "ring_ok ioq \<Longrightarrow> next_pos (head ioq) = tail ioq \<longleftrightarrow> ioq_length ioq = 63"
  by (auto simp: ring_ok_def ioq_length_def next_pos_cases) (auto simp: bufsize_def)

lemma ring_wrap: "p < 128 \<Longrightarrow> p mod bufsize = (if p < 64 then p else p - 64)"
  by (simp add: bufsize_def mod_if)

lemma ring_store:
  fixes c :: u8
  assumes "ring_ok ioq" "ioq_length ioq < 63" and ioq'_def: "ioq' = ioq\<lparr>buf := (buf ioq)[head ioq := c], head := next_pos (head ioq)\<rparr>"
  shows "ring_ok ioq'" "ring_items ioq' = ring_items ioq @ [c]"
proof -
  have r: "length (buf ioq) = bufsize" "head ioq < bufsize" "tail ioq < bufsize"
    using assms(1) by (simp_all add: ring_ok_def)
  show "ring_ok ioq'" using r by (simp add: ring_ok_def ioq'_def next_pos_def bufsize_def)
  have len: "ioq_length ioq' = Suc (ioq_length ioq)"
    using r assms(2) by (auto simp: ioq'_def ioq_length_def next_pos_cases) (auto simp: bufsize_def split: if_splits)
  have old: "(tail ioq + i) mod bufsize \<noteq> head ioq" if "i < ioq_length ioq" for i
  proof
    assume "(tail ioq + i) mod bufsize = head ioq"
    then have "(tail ioq + i) mod bufsize = (tail ioq + ioq_length ioq) mod bufsize"
      using ring_head [OF assms(1)] by simp
    then show False
      using that assms(2) r(3) ring_wrap [of "tail ioq + i"] ring_wrap [of "tail ioq + ioq_length ioq"]
      by (simp add: bufsize_def split: if_splits)
  qed
  have "ring_items ioq' = List.map (\<lambda>i. (buf ioq)[head ioq := c] ! ((tail ioq + i) mod bufsize)) [0..<Suc (ioq_length ioq)]"
    by (simp add: ring_items_def len) (simp add: ioq'_def)
  also have "\<dots> = ring_items ioq @ [c]"
    using old [THEN not_sym] ring_head [OF assms(1)] r by (simp add: ring_items_def)
  finally show "ring_items ioq' = ring_items ioq @ [c]" .
qed

lemma ring_take:
  assumes "ring_ok ioq" "ring_items ioq = c # cs" and ioq'_def: "ioq' = ioq\<lparr>tail := next_pos (tail ioq)\<rparr>"
  shows "buf ioq ! tail ioq = c" "head ioq \<noteq> tail ioq" "ring_ok ioq'" "ring_items ioq' = cs"
proof -
  have r: "length (buf ioq) = bufsize" "head ioq < bufsize" "tail ioq < bufsize"
    using assms(1) by (simp_all add: ring_ok_def)
  have "ioq_length ioq = 0 \<Longrightarrow> ring_items ioq = []" by (simp add: ring_items_def)
  then have "ioq_length ioq \<noteq> 0" using assms(2) by auto
  then obtain n where n: "ioq_length ioq = Suc n" by (cases "ioq_length ioq") auto
  show "head ioq \<noteq> tail ioq" using n by (auto simp: ioq_length_def)
  show "ring_ok ioq'" using r by (simp add: ring_ok_def ioq'_def next_pos_def bufsize_def)
  have len: "ioq_length ioq' = n"
    using r n by (auto simp: ioq'_def ioq_length_def next_pos_cases) (auto simp: bufsize_def split: if_splits)
  have it: "ring_items ioq = buf ioq ! tail ioq # List.map (\<lambda>i. buf ioq ! ((tail ioq + Suc i) mod bufsize)) [0..<n]"
    unfolding ring_items_def n using r(3)
    by (simp add: upt_conv_Cons map_Suc_upt [symmetric] comp_def del: upt_Suc)
  have "ring_items ioq' = List.map (\<lambda>i. buf ioq ! ((tail ioq + Suc i) mod bufsize)) [0..<n]"
    unfolding ring_items_def len by (simp add: ioq'_def next_pos_def mod_add_left_eq)
  with it assms(2) show "buf ioq ! tail ioq = c" "ring_items ioq' = cs" by simp_all
qed

lemma length_ring_items [simp]: "length (ring_items ioq) = ioq_length ioq"
  by (simp add: ring_items_def)

lemma put_byte_room:
  assumes "quiet q" "ioq_length (fst q) < 63"
  shows "\<exists>q'. put_byte c q = Inr q' \<and> quiet q' \<and> ring_items (fst q') = ring_items (fst q) @ [c] \<and> snd q' = snd q"
proof (cases q)
  case (Pair ioq s)
  have ok: "ring_ok ioq" "\<not> if_flag s" "consumer ioq = NULL" using assms(1) by (simp_all add: quiet_def Pair)
  let ?q = "ioq\<lparr>buf := (buf ioq)[head ioq := c], head := next_pos (head ioq)\<rparr>"
  have "next_pos (head ioq) \<noteq> tail ioq" using ring_full_iff [OF ok(1)] assms(2) by (simp add: Pair)
  moreover have "head ioq < length (buf ioq)" using ok(1) by (simp add: ring_ok_def)
  ultimately have "put_byte c q = Inr (?q, s)"
    using ok by (simp add: Pair put_byte_def ioq_putchar_def ioq_putchar_pass_def ioq_full_def ioq_store_def Let_def)
  then show ?thesis
    using ring_store [OF ok(1), of ?q c] assms
    by (intro exI [of _ "(?q, s)"]) (simp add: Pair quiet_def)
qed

lemma put_byte_full:
  assumes "quiet q" "ioq_length (fst q) = 63"
  shows "put_byte c q = Inl Would_block"
proof (cases q)
  case (Pair ioq s)
  have ok: "ring_ok ioq" "\<not> if_flag s" "producer ioq = NULL" "sched_wf s" "mutex_free (ioq_mutex ioq)"
    using assms(1) by (simp_all add: quiet_def Pair)
  have nn: "cur s \<noteq> NULL" using ok(4) by (auto simp: sched_wf_def ready_ok_def)
  obtain s' where b: "thread_block TASK_BLOCKED s = Inr s'"
    using thread_block_full [OF ok(4), of TASK_BLOCKED] by (auto simp: blocked_status_def)
  have "next_pos (head ioq) = tail ioq" using ring_full_iff [OF ok(1)] assms(2) by (simp add: Pair)
  then show ?thesis
    using ok b nn
    by (simp add: Pair put_byte_def ioq_putchar_def ioq_putchar_pass_def ioq_full_def ioq_wait_def Let_def
        mutex_acquire_free)
qed

lemma get_byte_some:
  assumes "quiet q" "ring_items (fst q) = c # cs"
  shows "\<exists>q'. get_byte q = Inr (c, q') \<and> quiet q' \<and> ring_items (fst q') = cs \<and> snd q' = snd q"
proof (cases q)
  case (Pair ioq s)
  have ok: "ring_ok ioq" "\<not> if_flag s" "producer ioq = NULL" using assms(1) by (simp_all add: quiet_def Pair)
  let ?q = "ioq\<lparr>tail := next_pos (tail ioq)\<rparr>"
  note t = ring_take [OF ok(1), of c cs ?q]
  have it: "ring_items ioq = c # cs" using assms(2) by (simp add: Pair)
  have "tail ioq < length (buf ioq)" using ok(1) by (simp add: ring_ok_def)
  then have "get_byte q = Inr (c, ?q, s)"
    using ok t(1,2) it
    by (simp add: Pair get_byte_def ioq_getchar_def ioq_empty_def ioq_take_def Let_def)
  then show ?thesis
    using t(3,4) it assms(1) by (intro exI [of _ "(?q, s)"]) (simp add: Pair quiet_def)
qed

interpretation ring: bounded_fifo "\<lambda>q. ring_items (fst q)" "quiet :: ioqueue \<times> 'a kernel_scheme \<Rightarrow> bool" 63 put_byte get_byte
proof (unfold_locales, goal_cases)
  case (1 q e)
  then show ?case using put_byte_room [of q e] by auto
next
  case (2 q e)
  then show ?case using put_byte_full [of q e] by simp
next
  case (3 q e es)
  then show ?case using get_byte_some [of q e es] by auto
next
  case (4 q)
  then show ?case using ioq_length_bound [of "fst q"] by (simp add: quiet_def)
qed

section \<open>Properties\<close>

text \<open>
  C15. A pipe is first-in first-out: what is written, when it fits in the 63 bytes of the ring behind
  what is there already, is read back in order after it, however the ring wraps around.
\<close>

theorem pipe_fifo:
  assumes "quiet q" "n \<le> length bytes" "ioq_length (fst q) + n \<le> 63"
  shows "\<exists>q1 q2. pipe_write_ioq bytes n q = Inr (n, q1) \<and> quiet q1 \<and>
    ring_items (fst q1) = ring_items (fst q) @ take n bytes \<and>
    pipe_read_ioq (ioq_length (fst q) + n) q1 = Inr (ring_items (fst q) @ take n bytes, q2) \<and>
    quiet q2 \<and> ring_items (fst q2) = []"
proof -
  obtain q1 where q1: "foldE put_byte (take n bytes) q = Inr q1" "quiet q1"
      "ring_items (fst q1) = ring_items (fst q) @ take n bytes"
    using ring.put_all [OF assms(1), of "take n bytes"] assms(2,3) by auto
  have len: "ioq_length (fst q1) = ioq_length (fst q) + n"
    using arg_cong [OF q1(3), of length] assms(2) by simp
  obtain q2 where q2: "drain get_byte (ioq_length (fst q) + n) q1 = Inr (ring_items (fst q) @ take n bytes, q2)"
      "quiet q2" "ring_items (fst q2) = []"
    using ring.get_all [OF q1(2), of "ring_items (fst q) @ take n bytes" "[]"] q1(3) assms(2) by (auto simp: min_absorb2)
  have "pipe_write_ioq bytes n q = Inr (n, q1)"
    using assms(2,3) q1(1) by (auto simp: pipe_write_ioq_def Let_def bufsize_def)
  moreover have "pipe_read_ioq (ioq_length (fst q) + n) q1 = Inr (ring_items (fst q) @ take n bytes, q2)"
    using q2(1) by (simp add: pipe_read_ioq_def Let_def len)
  ultimately show ?thesis using q1 q2 by blast
qed


definition empty_pipe :: "ioqueue \<times> kernel" where
  "empty_pipe = ((ioqueue_init (replicate 64 0))\<lparr>head := 60, tail := 60\<rparr>, three_threads)"

lemma empty_pipe_quiet: "quiet empty_pipe" "ioq_length (fst empty_pipe) = 0" "ring_items (fst empty_pipe) = []"
  using three_threads_wf
  by (simp_all add: quiet_def empty_pipe_def ioqueue_init_def ring_ok_def bufsize_def mutex_free_def
      ioq_length_def ring_items_def three_threads_def)

lemma pipe_fifo_witness:
  "\<exists>q1 q2. pipe_write_ioq [1, 2, 3, 4, 5, 6] 6 empty_pipe = Inr (6, q1) \<and>
     pipe_read_ioq 6 q1 = Inr ([1, 2, 3, 4, 5, 6], q2)"
  using pipe_fifo [OF empty_pipe_quiet(1), of 6 "[1, 2, 3, 4, 5, 6]"] empty_pipe_quiet(2,3) by auto


end
