(* ===== verification/Keyboard.thy ===== *)
theory Keyboard
  imports Io_Queue
begin

text \<open>
  The keyboard interrupt (\<open>device/keyboard.c\<close>): a state machine on scan codes that keeps the modifier
  keys and puts the character of every other key into the input queue. The bytes the port delivers
  are a list. The messages about unknown keys are not modelled.
\<close>

section \<open>State and key map\<close>

record keyboard =
  ctrl_status :: bool
  shift_status :: bool
  alt_status :: bool
  capslock_status :: bool
  ext_scancode :: bool
  kbd_buf :: ioqueue

text \<open>The two columns of \<open>keymap\<close>, from scan code 0 to 0x3A; 0 stands for a key without a character.\<close>

definition keys_plain :: "u8 list" where
  "keys_plain =
     [0, 27] @ List.map of_char ''1234567890-='' @ [8, 9] @ List.map of_char ''qwertyuiop[]'' @ [13, 0] @
     List.map of_char ''asdfghjkl;'' @ [39, 96, 0, 92] @ List.map of_char ''zxcvbnm,./'' @
     [0, chr CHR ''*'', 0, chr CHR '' '', 0]"

definition keys_shifted :: "u8 list" where
  "keys_shifted =
     [0, 27] @ List.map of_char ''!@#$%^&*()_+'' @ [8, 9] @ List.map of_char ''QWERTYUIOP{}'' @ [13, 0] @
     List.map of_char ''ASDFGHJKL:'' @ [34, chr CHR ''~'', 0, chr CHR ''|''] @ List.map of_char ''ZXCVBNM<>?'' @
     [0, chr CHR ''*'', 0, chr CHR '' '', 0]"

definition keymap :: "(u8 \<times> u8) list" where "keymap = zip keys_plain keys_shifted"

definition shift_l_make :: u16 where "shift_l_make = 0x2A"
definition shift_r_make :: u16 where "shift_r_make = 0x36"
definition alt_l_make :: u16 where "alt_l_make = 0x38"
definition alt_r_make :: u16 where "alt_r_make = 0xE038"
definition ctrl_l_make :: u16 where "ctrl_l_make = 0x1D"
definition ctrl_r_make :: u16 where "ctrl_r_make = 0xE01D"
definition casplock_make :: u16 where "casplock_make = 0x3A"

lemmas make_codes = shift_l_make_def shift_r_make_def alt_l_make_def alt_r_make_def ctrl_l_make_def
  ctrl_r_make_def casplock_make_def

section \<open>The handler\<close>

definition inb :: "u8 list \<Rightarrow> (u8 \<times> u8 list) res" where
  "inb port = (case port of [] \<Rightarrow> Inl Bad_access | b # port \<Rightarrow> Inr (b, port))"

text \<open>Releasing a modifier key; every other release is ignored.\<close>

definition key_up :: "u16 \<Rightarrow> keyboard \<Rightarrow> keyboard" where
  "key_up make_code k =
     (if make_code = ctrl_l_make \<or> make_code = ctrl_r_make then k\<lparr>ctrl_status := False\<rparr>
      else if make_code = alt_l_make \<or> make_code = alt_r_make then k\<lparr>alt_status := False\<rparr>
      else if make_code = shift_l_make \<or> make_code = shift_r_make then k\<lparr>shift_status := False\<rparr>
      else k)"

text \<open>Whether the second column applies.\<close>

definition second_column :: "u16 \<Rightarrow> bool \<Rightarrow> bool \<Rightarrow> bool" where
  "second_column scancode shift_down_last capslock_last =
     (if scancode < 0x0E \<or> scancode \<in> {0x29, 0x1A, 0x1B, 0x2B, 0x27, 0x28, 0x33, 0x34, 0x35}
      then shift_down_last
      else if shift_down_last \<and> capslock_last then False
      else shift_down_last \<or> capslock_last)"

definition key_char :: "u16 \<Rightarrow> keyboard \<Rightarrow> u8 res" where
  "key_char scancode k =
     bindE (read_at keymap (unat (scancode AND 0x00FF))) (\<lambda>(plain, shifted).
     let cur_char = (if second_column scancode (shift_status k) (capslock_status k) then shifted else plain) in
     Inr (if ctrl_status k \<and> (cur_char = chr CHR ''l'' \<or> cur_char = chr CHR ''u'')
          then cur_char - chr CHR ''a'' else cur_char))"

text \<open>The code compared here has lost its prefix.\<close>

definition modifier_down :: "u16 \<Rightarrow> keyboard \<Rightarrow> keyboard" where
  "modifier_down scancode k =
     (if scancode = ctrl_l_make \<or> scancode = ctrl_r_make then k\<lparr>ctrl_status := True\<rparr>
      else if scancode = alt_l_make \<or> scancode = alt_r_make then k\<lparr>alt_status := True\<rparr>
      else if scancode = shift_l_make \<or> scancode = shift_r_make then k\<lparr>shift_status := True\<rparr>
      else if scancode = casplock_make then k\<lparr>capslock_status := \<not> capslock_status k\<rparr>
      else k)"

definition key_down :: "u16 \<Rightarrow> keyboard \<times> 'a kernel_scheme \<Rightarrow> (keyboard \<times> 'a kernel_scheme) res" where
  "key_down scancode = (\<lambda>(k, s).
     if \<not> (0 < scancode \<and> scancode < 0x3B \<or> scancode = alt_r_make \<or> scancode = ctrl_r_make) then Inr (k, s)
     else bindE (key_char scancode k) (\<lambda>cur_char.
       if cur_char \<noteq> 0 then
         bindE (ioq_full (kbd_buf k) s) (\<lambda>f.
         if f then Inr (k, s)
         else bindE (put_byte cur_char (kbd_buf k, s)) (\<lambda>(q, s). Inr (k\<lparr>kbd_buf := q\<rparr>, s)))
       else Inr (modifier_down (scancode AND 0x00FF) k, s)))"

text \<open>After the prefix 0xE0 the port is read twice, and the second reading counts.\<close>

definition intr_keyboard_handler ::
  "u8 list \<Rightarrow> keyboard \<times> 'a kernel_scheme \<Rightarrow> (keyboard \<times> 'a kernel_scheme) res" where
  "intr_keyboard_handler port = (\<lambda>(k, s).
     bindE (inb port) (\<lambda>(b, port).
     if b = 0xE0 then Inr (k\<lparr>ext_scancode := True\<rparr>, s)
     else
       bindE (if ext_scancode k then bindE (inb port) (\<lambda>(b, port). Inr (0xE000 OR ucast b, k\<lparr>ext_scancode := False\<rparr>))
              else Inr (ucast b, k)) (\<lambda>(scancode, k).
       if scancode AND 0x0080 \<noteq> 0 then Inr (key_up (scancode AND 0xFF7F) k, s)
       else key_down scancode (k, s))))"

definition keyboard_init :: "u8 list \<Rightarrow> keyboard \<Rightarrow> keyboard" where
  "keyboard_init b k = k\<lparr>kbd_buf := ioqueue_init b\<rparr>"

section \<open>What a key does\<close>

text \<open>The character of a key: digits and punctuation follow shift, letters shift and caps lock.\<close>

definition types :: "u8 \<Rightarrow> keyboard \<Rightarrow> u8" where
  "types b k = (case key_char (ucast b) k of Inr c \<Rightarrow> c | Inl _ \<Rightarrow> 0)"

lemma length_keymap: "length keymap = 0x3B"
  by (simp add: keymap_def keys_plain_def keys_shifted_def)

lemma scan_masks: "(0x00FF :: u16) = mask 8" "(0xFF7F :: u16) = NOT 0x80"
  by (simp_all add: mask_eq_exp_minus_1)

lemma bit_0x80: "bit (0x80 :: u16) n \<longleftrightarrow> n = 7" "bit (0x80 :: u8) n \<longleftrightarrow> n = 7"
  using bit_exp_iff [where ?'a = u16, of 7 n] bit_exp_iff [where ?'a = u8, of 7 n] by auto

lemma scan_make:
  assumes "(b :: u8) < 0x3B"
  shows "(ucast b :: u16) AND 0x00FF = ucast b" "(ucast b :: u16) AND 0x0080 = 0" "b \<noteq> 0xE0"
    "(ucast (b + 0x80) :: u16) AND 0x0080 \<noteq> 0" "(ucast (b + 0x80) :: u16) AND 0xFF7F = ucast b" "b + 0x80 \<noteq> 0xE0"
proof -
  have "unat b < 2 ^ 7" using assms by (simp add: word_less_nat_alt)
  then have "take_bit 7 b = b"
    by (intro unsigned_word_eqI [where ?'a = nat]) (simp add: unsigned_take_bit_eq take_bit_nat_eq_self)
  then have b7: "\<not> bit b 7" by (metis bit_take_bit_iff less_irrefl)
  show "(ucast b :: u16) AND 0x00FF = ucast b"
    unfolding scan_masks by (rule bit_word_eqI) (auto simp: bit_simps dest: bit_imp_le_length)
  show "(ucast b :: u16) AND 0x0080 = 0"
    using b7 by (intro bit_word_eqI) (simp only: bit_and_iff bit_0x80 bit_unsigned_iff, auto)
  have d: "b AND 0x80 = 0" using b7 by (intro bit_word_eqI) (simp only: bit_and_iff bit_0x80, auto)
  have e: "b + 0x80 = b OR 0x80" by (rule disjunctive_add_eq_or [OF d])
  show "(ucast (b + 0x80) :: u16) AND 0x0080 \<noteq> 0"
  proof
    assume "(ucast (b + 0x80) :: u16) AND 0x0080 = 0"
    then have "\<not> bit ((ucast (b + 0x80) :: u16) AND 0x0080) 7" by simp
    then show False unfolding e by (simp only: bit_and_iff bit_or_iff bit_0x80 bit_unsigned_iff) simp
  qed
  show "(ucast (b + 0x80) :: u16) AND 0xFF7F = ucast b"
    unfolding e scan_masks using b7
    by (intro bit_word_eqI) (simp only: bit_and_iff bit_or_iff bit_not_iff bit_0x80 bit_unsigned_iff, auto)
  show "b \<noteq> 0xE0" using assms by auto
  show "b + 0x80 \<noteq> 0xE0"
  proof
    assume "b + 0x80 = 0xE0"
    from arg_cong [OF this, of "\<lambda>x. x - 0x80"] have "b = 0x60" by simp
    then show False using assms by simp
  qed
qed

lemma key_char_total:
  assumes "b < 0x3B" shows "key_char (ucast b) k = Inr (types b k)"
proof -
  have "unat (ucast b AND 0x00FF :: u16) = unat b" using scan_make(1) [OF assms] by simp
  then show ?thesis
    using assms length_keymap by (simp add: types_def key_char_def word_less_nat_alt Let_def split: prod.split)
qed


definition idle_keyboard :: keyboard where
  "idle_keyboard = \<lparr>ctrl_status = False, shift_status = True, alt_status = False, capslock_status = False,
     ext_scancode = False, kbd_buf = fst empty_pipe\<rparr>"


end
