(* ===== verification/Disk_Layout.thy ===== *)
theory Disk_Layout
  imports C_String
begin

text \<open>
  What the file system keeps on a disk, byte for byte: the inode of \<open>lib/types.h\<close> (76 bytes), the
  directory entry of \<open>lib/types.h\<close> (24 bytes) and the super block of \<open>fs/super_block.h\<close> (512
  bytes). The C code copies these structures to and from sector buffers with \<open>memcpy\<close>; here the
  copy is an encoder and a decoder, and they are shown to be inverse to each other.
\<close>

definition SECTOR_SIZE :: nat where "SECTOR_SIZE = 512"
abbreviation BLOCK_SIZE :: nat where "BLOCK_SIZE \<equiv> SECTOR_SIZE"
definition BITS_PER_SECTOR :: nat where "BITS_PER_SECTOR = 4096"
definition MAX_FILE_PER_PARTITION :: nat where "MAX_FILE_PER_PARTITION = 4096"

section \<open>Words in byte buffers\<close>

text \<open>The target is little-endian.\<close>

definition le32 :: "u32 \<Rightarrow> u8 list" where
  "le32 w = [ucast w, ucast (drop_bit 8 w), ucast (drop_bit 16 w), ucast (drop_bit 24 w)]"

definition word_at :: "u8 list \<Rightarrow> nat \<Rightarrow> u32" where
  "word_at bs i =
     ucast (bs ! i) OR push_bit 8 (ucast (bs ! (i + 1))) OR push_bit 16 (ucast (bs ! (i + 2))) OR
     push_bit 24 (ucast (bs ! (i + 3)))"

definition words_at :: "u8 list \<Rightarrow> nat \<Rightarrow> nat \<Rightarrow> u32 list" where
  "words_at bs i n = List.map (\<lambda>k. word_at bs (i + 4 * k)) [0..<n]"

definition words_bytes :: "u32 list \<Rightarrow> u8 list" where
  "words_bytes ws = concat (List.map le32 ws)"

text \<open>\<open>memcpy (buf + off, src, n)\<close> and \<open>memset (buf + off, v, n)\<close>.\<close>

definition memcpy_at :: "u8 list \<Rightarrow> nat \<Rightarrow> u8 list \<Rightarrow> nat \<Rightarrow> u8 list res" where
  "memcpy_at dst off src n =
     bindE (memcpy (Some (drop off dst)) (Some src) n) (\<lambda>rest. Inr (take off dst @ rest))"

definition memset_at :: "u8 list \<Rightarrow> nat \<Rightarrow> u8 \<Rightarrow> nat \<Rightarrow> u8 list res" where
  "memset_at dst off v n =
     bindE (memset (Some (drop off dst)) v n) (\<lambda>rest. Inr (take off dst @ rest))"

section \<open>Inodes\<close>

record inode =
  i_no :: u32
  i_size :: u32
  i_open_cnt :: u32
  write_deny :: bool
  i_sectors :: "u32 list"

definition sizeof_inode :: u32 where "sizeof_inode = 76"

text \<open>\<open>bool\<close> is \<open>int\<close> here; the eight bytes at the end are the list tag, which is 0 on disk.\<close>

definition inode_bytes :: "inode \<Rightarrow> u8 list" where
  "inode_bytes i =
     words_bytes ([i_no i, i_size i, i_open_cnt i, if write_deny i then 1 else 0] @ i_sectors i @ [0, 0])"

definition inode_of :: "u8 list \<Rightarrow> inode" where
  "inode_of bs =
     \<lparr>i_no = word_at bs 0, i_size = word_at bs 4, i_open_cnt = word_at bs 8,
      write_deny = (word_at bs 12 \<noteq> 0), i_sectors = words_at bs 16 13\<rparr>"

section \<open>Directory entries\<close>

definition FT_UNKNOW :: u32 where "FT_UNKNOW = 0"
definition FT_REGULAR :: u32 where "FT_REGULAR = 1"
definition FT_DIRECTORY :: u32 where "FT_DIRECTORY = 2"

record dir_entry =
  filename :: "u8 list"
  de_i_no :: u32
  f_type :: u32

definition sizeof_dir_entry :: u32 where "sizeof_dir_entry = 24"

definition dir_entry_bytes :: "dir_entry \<Rightarrow> u8 list" where
  "dir_entry_bytes de = filename de @ le32 (de_i_no de) @ le32 (f_type de)"

definition dir_entry_of :: "u8 list \<Rightarrow> dir_entry" where
  "dir_entry_of bs = \<lparr>filename = take 16 bs, de_i_no = word_at bs 16, f_type = word_at bs 20\<rparr>"

section \<open>The super block\<close>

record super_block =
  magic :: u32
  sb_sec_cnt :: u32
  inode_cnt :: u32
  partition_lba_base :: u32
  block_bitmap_lba :: u32
  block_bitmap_sects :: u32
  inode_bitmap_lba :: u32
  inode_bitmap_sects :: u32
  inode_table_lba :: u32
  inode_table_sects :: u32
  data_start_lba :: u32
  root_inode_no :: u32
  dir_entry_size :: u32
  pad :: "u8 list"

definition super_block_bytes :: "super_block \<Rightarrow> u8 list" where
  "super_block_bytes b =
     words_bytes [magic b, sb_sec_cnt b, inode_cnt b, partition_lba_base b, block_bitmap_lba b,
       block_bitmap_sects b, inode_bitmap_lba b, inode_bitmap_sects b, inode_table_lba b,
       inode_table_sects b, data_start_lba b, root_inode_no b, dir_entry_size b] @ pad b"

definition super_block_of :: "u8 list \<Rightarrow> super_block" where
  "super_block_of bs =
     \<lparr>magic = word_at bs 0, sb_sec_cnt = word_at bs 4, inode_cnt = word_at bs 8,
      partition_lba_base = word_at bs 12, block_bitmap_lba = word_at bs 16,
      block_bitmap_sects = word_at bs 20, inode_bitmap_lba = word_at bs 24,
      inode_bitmap_sects = word_at bs 28, inode_table_lba = word_at bs 32,
      inode_table_sects = word_at bs 36, data_start_lba = word_at bs 40,
      root_inode_no = word_at bs 44, dir_entry_size = word_at bs 48, pad = take 460 (drop 52 bs)\<rparr>"

section \<open>Encoding and decoding\<close>

lemma unat_of_nat_small: "n < 2 ^ 32 \<Longrightarrow> unat (of_nat n :: u32) = n"
  by (simp add: unat_of_nat)

lemma length_le32 [simp]: "length (le32 w) = 4" by (simp add: le32_def)

lemma length_words_bytes [simp]: "length (words_bytes ws) = 4 * length ws"
  by (induction ws) (simp_all add: words_bytes_def)

lemma words_bytes_simps [simp]:
  "words_bytes [] = []" "words_bytes (w # ws) = le32 w @ words_bytes ws"
  by (simp_all add: words_bytes_def)

lemma words_bytes_append: "words_bytes (ws @ vs) = words_bytes ws @ words_bytes vs"
  by (simp add: words_bytes_def)

lemma word_at_le32: "word_at (le32 w @ rest) 0 = w"
proof (rule bit_word_eqI)
  fix n :: nat assume "n < LENGTH(32)"
  then have "n < 8 \<or> 8 \<le> n \<and> n < 16 \<or> 16 \<le> n \<and> n < 24 \<or> 24 \<le> n \<and> n < 32" by auto
  then show "bit (word_at (le32 w @ rest) 0) n \<longleftrightarrow> bit w n"
    by (elim disjE) (auto simp: word_at_def le32_def bit_simps)
qed

lemma word_at_drop: "i + 3 < length bs \<Longrightarrow> word_at bs i = word_at (drop i bs) 0"
  by (simp add: word_at_def)

lemma word_at_words:
  assumes "j < length ws"
  shows "word_at (words_bytes ws @ rest) (4 * j) = ws ! j"
proof -
  have "drop (4 * j) (words_bytes ws @ rest) = words_bytes (drop j ws) @ rest"
    using assms
  proof (induction ws arbitrary: j)
    case (Cons w ws)
    then show ?case by (cases j) (simp_all add: drop_append)
  qed simp
  also have "\<dots> = le32 (ws ! j) @ words_bytes (drop (Suc j) ws) @ rest"
    using assms by (simp add: Cons_nth_drop_Suc [symmetric])
  finally show ?thesis using assms by (simp add: word_at_drop [of "4 * j"] word_at_le32)
qed

lemma word_at_append:
  "i + 3 < length xs \<Longrightarrow> word_at (xs @ ys) i = word_at xs i"
  "length xs \<le> i \<Longrightarrow> word_at (xs @ ys) i = word_at ys (i - length xs)"
  by (simp_all add: word_at_def nth_append Suc_diff_le)

lemma words_at_words:
  assumes "k + n \<le> length ws"
  shows "words_at (words_bytes ws @ rest) (4 * k) n = take n (drop k ws)"
proof (rule nth_equalityI)
  fix j assume "j < length (words_at (words_bytes ws @ rest) (4 * k) n)"
  then have "j < n" by (simp add: words_at_def)
  then show "words_at (words_bytes ws @ rest) (4 * k) n ! j = take n (drop k ws) ! j"
    using assms word_at_words [of "k + j" ws rest] by (simp add: words_at_def algebra_simps)
qed (use assms in \<open>simp add: words_at_def\<close>)

lemma length_inode_bytes [simp]: "length (i_sectors i) = 13 \<Longrightarrow> length (inode_bytes i) = 76"
  by (simp add: inode_bytes_def)

lemma length_dir_entry_bytes [simp]: "length (filename de) = 16 \<Longrightarrow> length (dir_entry_bytes de) = 24"
  by (simp add: dir_entry_bytes_def)

lemma inode_of_bytes: "length (i_sectors i) = 13 \<Longrightarrow> inode_of (inode_bytes i @ rest) = i"
proof -
  assume len: "length (i_sectors i) = 13"
  let ?ws = "[i_no i, i_size i, i_open_cnt i, if write_deny i then 1 else 0] @ i_sectors i @ [0, 0]"
  have w: "word_at (words_bytes ?ws @ rest) (4 * j) = ?ws ! j" if "j < 4" for j
    using that word_at_words [of j ?ws rest] by simp
  have secs: "words_at (words_bytes ?ws @ rest) (4 * 4) 13 = i_sectors i"
    using len words_at_words [of 4 13 ?ws rest] by simp
  show ?thesis
    using w [of 0] w [of 1] w [of 2] w [of 3] secs
    unfolding inode_of_def inode_bytes_def by simp
qed

lemma dir_entry_of_bytes:
  "length (filename de) = 16 \<Longrightarrow> dir_entry_of (dir_entry_bytes de @ rest) = de"
  by (simp add: dir_entry_of_def dir_entry_bytes_def word_at_append word_at_le32 word_at_le32 [of _ "[]", simplified])

lemma super_block_of_bytes:
  "length (pad b) = 460 \<Longrightarrow> super_block_of (super_block_bytes b @ rest) = b"
proof -
  assume len: "length (pad b) = 460"
  let ?ws = "[magic b, sb_sec_cnt b, inode_cnt b, partition_lba_base b, block_bitmap_lba b,
       block_bitmap_sects b, inode_bitmap_lba b, inode_bitmap_sects b, inode_table_lba b,
       inode_table_sects b, data_start_lba b, root_inode_no b, dir_entry_size b]"
  have w: "word_at (words_bytes ?ws @ pad b @ rest) (4 * j) = ?ws ! j" if "j < 13" for j
    using that word_at_words [of j ?ws "pad b @ rest"] by simp
  have "drop 52 (words_bytes ?ws @ pad b @ rest) = pad b @ rest"
    by (simp only: drop_append length_words_bytes) simp
  then show ?thesis
    using len w [of 0] w [of 1] w [of 2] w [of 3] w [of 4] w [of 5] w [of 6] w [of 7] w [of 8]
      w [of 9] w [of 10] w [of 11] w [of 12]
    unfolding super_block_of_def super_block_bytes_def append_assoc
    by (simp del: words_bytes_simps)
qed

lemma memcpy_at_eq [simp]:
  "off \<le> length dst \<Longrightarrow> memcpy_at dst off src n =
     (if off + n \<le> length dst \<and> n \<le> length src
      then Inr (take off dst @ take n src @ drop (off + n) dst) else Inl Bad_access)"
  by (simp add: memcpy_at_def add.commute le_diff_conv2)

lemma memset_at_eq [simp]:
  "off \<le> length dst \<Longrightarrow> memset_at dst off v n =
     (if off + n \<le> length dst then Inr (take off dst @ replicate n v @ drop (off + n) dst)
      else Inl Bad_access)"
  by (simp add: memset_at_def add.commute le_diff_conv2)



end
