(* ===== verification/Inode.thy ===== *)
theory Inode
  imports Disk_Layout Io_Queue Keyboard
begin

text \<open>
  The state of the file system, its access to the disks and to the heap, the inodes of
  \<open>fs/inode.c\<close>, and the two bitmaps of a partition (\<open>inode_bitmap_alloc\<close>, \<open>block_bitmap_alloc\<close> and
  \<open>bitmap_sync\<close> of \<open>fs/file.c\<close>).

  Inodes and open directories live in the heap; a pointer to one is its address in \<open>inodes\<close> or
  \<open>dirs\<close>. Buffers are values: a call hands over the bytes the C code hands over the address of.
  The tags that link the open inodes are the sequence \<open>open_inodes\<close> (theory \<open>Intrusive_List\<close>).
  The messages of \<open>kprintf\<close> are left out.
\<close>

section \<open>The state\<close>

definition MAX_FILE_OPEN :: nat where "MAX_FILE_OPEN = 32"

record partition =
  start_lba :: u32
  sec_cnt :: u32
  my_disk :: addr
  part_name :: "u8 list"
  sb :: super_block
  block_bitmap :: bitmap
  inode_bitmap :: bitmap
  open_inodes :: "addr list"

record file_desc =
  fd_pos :: u32
  fd_flag :: u32
  fd_inode :: addr

record dir =
  dir_inode :: addr
  dir_pos :: u32
  dir_buf :: "u8 list"

text \<open>
  \<open>disk d lba\<close> is a sector of the disk \<open>d\<close>. \<open>heap_next\<close> holds the addresses the heap is going to hand
  out and \<open>live\<close> the blocks in use, each with the address space it was taken in: \<open>Arena\<close> shows
  that \<open>sys_malloc\<close> hands out a cleared block that is not in use, and that \<open>sys_free\<close> takes back
  blocks in use, which is all the file system relies on. \<open>hd_addr c d\<close> is the disk \<open>d\<close> of channel \<open>c\<close>;
  \<open>part_addr hd k\<close> its primary partition \<open>k\<close> for \<open>k < 4\<close> and its logical partition \<open>k - 4\<close> from there
  on. \<open>junk\<close> is what an uninitialised local array holds.
\<close>

record fs = terminal +
  disk :: "addr \<Rightarrow> u32 \<Rightarrow> u8 list"
  partitions :: "addr \<Rightarrow> partition"
  current_partition :: addr
  inodes :: "addr \<rightharpoonup> inode"
  dirs :: "addr \<rightharpoonup> dir"
  root_dir :: addr
  file_table :: "file_desc list"
  pipes :: "addr \<rightharpoonup> ioqueue"
  keys :: keyboard
  heap_next :: "addr list"
  live :: "(addr \<times> addr) list"
  channel_cnt :: nat
  hd_addr :: "nat \<Rightarrow> nat \<Rightarrow> addr"
  part_addr :: "addr \<Rightarrow> nat \<Rightarrow> addr"
  disk_name :: "addr \<Rightarrow> u8 list"
  partition_list :: "addr list"
  p_no :: nat
  l_no :: nat
  ext_lba_base :: u32
  junk :: "nat \<Rightarrow> u8"

definition uninit :: "nat \<Rightarrow> 'a fs_scheme \<Rightarrow> u8 list" where
  "uninit n s = List.map (junk s) [0..<n]"

definition inode_at :: "addr \<Rightarrow> 'a fs_scheme \<Rightarrow> inode res" where
  "inode_at a s = (case inodes s a of None \<Rightarrow> Inl Bad_access | Some i \<Rightarrow> Inr i)"

definition set_inode :: "addr \<Rightarrow> inode \<Rightarrow> 'a fs_scheme \<Rightarrow> 'a fs_scheme" where
  "set_inode a i s = s\<lparr>inodes := (inodes s)(a \<mapsto> i)\<rparr>"

definition dir_at :: "addr \<Rightarrow> 'a fs_scheme \<Rightarrow> dir res" where
  "dir_at a s = (case dirs s a of None \<Rightarrow> Inl Bad_access | Some d \<Rightarrow> Inr d)"

definition set_dir :: "addr \<Rightarrow> dir \<Rightarrow> 'a fs_scheme \<Rightarrow> 'a fs_scheme" where
  "set_dir a d s = s\<lparr>dirs := (dirs s)(a \<mapsto> d)\<rparr>"

definition upd_part :: "addr \<Rightarrow> (partition \<Rightarrow> partition) \<Rightarrow> 'a fs_scheme \<Rightarrow> 'a fs_scheme" where
  "upd_part p f s = s\<lparr>partitions := (partitions s)(p := f (partitions s p))\<rparr>"

section \<open>The heap\<close>

text \<open>A pointer that may be \<open>NULL\<close>, with the memory behind it.\<close>

definition ptr :: "addr \<Rightarrow> 'b \<Rightarrow> 'b option" where
  "ptr a b = (if a = NULL then None else Some b)"

text \<open>
  \<open>sys_malloc\<close>: the address and the cleared memory there, or \<open>NULL\<close> with no memory. \<open>sys_free\<close>
  asserts that its argument is not \<open>NULL\<close>.
\<close>

definition kmalloc :: "nat \<Rightarrow> 'a fs_scheme \<Rightarrow> addr \<times> u8 list \<times> 'a fs_scheme" where
  "kmalloc n s =
     (case heap_next s of
        [] \<Rightarrow> (NULL, [], s)
      | a # rest \<Rightarrow>
          if a = NULL then (NULL, [], s\<lparr>heap_next := rest\<rparr>)
          else (a, replicate n 0, s\<lparr>heap_next := rest, live := (space s, a) # live s\<rparr>))"

definition kfree :: "addr \<Rightarrow> 'a fs_scheme \<Rightarrow> 'a fs_scheme res" where
  "kfree a s =
     asserting (a \<noteq> NULL)
     (if (space s, a) \<in> set (live s)
      then Inr (s\<lparr>live := remove1 (space s, a) (live s), inodes := (inodes s)(a := None),
                  dirs := (dirs s)(a := None)\<rparr>)
      else Inl Bad_access)"

text \<open>\<open>cur->pgdir = ...\<close>: with \<open>NULL\<close> the thread counts as a kernel thread.\<close>

definition set_pgdir :: "addr \<Rightarrow> 'a kernel_scheme \<Rightarrow> 'a kernel_scheme" where
  "set_pgdir d s = upd_tcb (running_thread s) (\<lambda>t. t\<lparr>pgdir := d\<rparr>) s"

section \<open>The disks\<close>

definition max_lba :: u32 where "max_lba = 80 * 1024 * 1024 div 512 - 1"

text \<open>The sectors from \<open>lba\<close> on; a transfer is cut into commands of at most 256 sectors.\<close>

definition sectors :: "(u32 \<Rightarrow> u8 list) \<Rightarrow> u32 \<Rightarrow> nat \<Rightarrow> u8 list" where
  "sectors d lba n = concat (List.map (\<lambda>i. d (lba + of_nat i)) [0..<n])"

definition commands :: "u32 \<Rightarrow> nat \<Rightarrow> u32 list" where
  "commands lba n = List.map (\<lambda>k. lba + of_nat (256 * k)) [0..<(n + 255) div 256]"

definition ide_read :: "addr \<Rightarrow> u32 \<Rightarrow> u8 list \<Rightarrow> nat \<Rightarrow> 'a fs_scheme \<Rightarrow> u8 list res" where
  "ide_read hdisk lba mem n s =
     asserting (lba \<le> max_lba) (asserting (n > 0)
     (asserting (\<forall>c \<in> set (commands lba n). c \<le> max_lba)
       (memcpy_at mem 0 (sectors (disk s hdisk) lba n) (512 * n))))"

fun put_sectors :: "u32 \<Rightarrow> u8 list \<Rightarrow> nat \<Rightarrow> (u32 \<Rightarrow> u8 list) \<Rightarrow> u32 \<Rightarrow> u8 list" where
  "put_sectors lba bytes 0 d = d"
| "put_sectors lba bytes (Suc n) d = put_sectors (lba + 1) (drop 512 bytes) n (d(lba := take 512 bytes))"

definition ide_write :: "addr \<Rightarrow> u32 \<Rightarrow> u8 list \<Rightarrow> nat \<Rightarrow> 'a fs_scheme \<Rightarrow> 'a fs_scheme res" where
  "ide_write hdisk lba mem n s =
     asserting (lba \<le> max_lba) (asserting (n > 0)
     (asserting (\<forall>c \<in> set (commands lba n). c \<le> max_lba)
       (if length mem < 512 * n then Inl Bad_access
        else Inr (s\<lparr>disk := (disk s)(hdisk := put_sectors lba mem n (disk s hdisk))\<rparr>))))"

text \<open>The block of an indirect table, in the words 12 to 139 of an array of 140.\<close>

definition ide_read_table :: "addr \<Rightarrow> u32 \<Rightarrow> u32 list \<Rightarrow> 'a fs_scheme \<Rightarrow> u32 list res" where
  "ide_read_table hdisk lba ws s =
     bindE (ide_read hdisk lba (replicate 512 0) 1 s) (\<lambda>b.
       if length ws < 140 then Inl Bad_access else Inr (take 12 ws @ words_at b 0 128 @ drop 140 ws))"

definition ide_write_table :: "addr \<Rightarrow> u32 \<Rightarrow> u32 list \<Rightarrow> 'a fs_scheme \<Rightarrow> 'a fs_scheme res" where
  "ide_write_table hdisk lba ws s = ide_write hdisk lba (words_bytes (drop 12 ws)) 1 s"

section \<open>The bitmaps of a partition\<close>

text \<open>Block numbers are \<open>int32_t\<close> and compared with \<open>-1\<close> only, so words serve.\<close>

definition inode_bitmap_alloc :: "addr \<Rightarrow> 'a fs_scheme \<Rightarrow> (u32 \<times> 'a fs_scheme) res" where
  "inode_bitmap_alloc p s =
     bindE (bitmap_scan (inode_bitmap (partitions s p)) 1) (\<lambda>bit_idx.
     if bit_idx = - 1 then Inr (- 1, s)
     else bindE (bitmap_set (inode_bitmap (partitions s p)) (nat bit_idx) 1) (\<lambda>b.
       Inr (word_of_int bit_idx, upd_part p (\<lambda>q. q\<lparr>inode_bitmap := b\<rparr>) s)))"

definition block_bitmap_alloc :: "addr \<Rightarrow> 'a fs_scheme \<Rightarrow> (u32 \<times> 'a fs_scheme) res" where
  "block_bitmap_alloc p s =
     bindE (bitmap_scan (block_bitmap (partitions s p)) 1) (\<lambda>bit_idx.
     if bit_idx = - 1 then Inr (- 1, s)
     else bindE (bitmap_set (block_bitmap (partitions s p)) (nat bit_idx) 1) (\<lambda>b.
       Inr (data_start_lba (sb (partitions s p)) + word_of_int bit_idx,
            upd_part p (\<lambda>q. q\<lparr>block_bitmap := b\<rparr>) s)))"

definition INODE_BITMAP :: u8 where "INODE_BITMAP = 0"
definition BLOCK_BITMAP :: u8 where "BLOCK_BITMAP = 1"

definition bitmap_sync :: "addr \<Rightarrow> u32 \<Rightarrow> u8 \<Rightarrow> 'a fs_scheme \<Rightarrow> 'a fs_scheme res" where
  "bitmap_sync p bit_idx btmp s =
     (let q = partitions s p; off_sec = bit_idx div 4096; off_size = unat off_sec * BLOCK_SIZE in
      if btmp = INODE_BITMAP then
        ide_write (my_disk q) (inode_bitmap_lba (sb q) + off_sec) (drop off_size (bits (inode_bitmap q))) 1 s
      else if btmp = BLOCK_BITMAP then
        ide_write (my_disk q) (block_bitmap_lba (sb q) + off_sec) (drop off_size (bits (block_bitmap q))) 1 s
      else Inl Panicked)"

section \<open>Inodes on disk\<close>

record inode_position =
  multi_sec :: bool
  sec_lba :: u32
  off_size :: u32

definition inode_locate :: "addr \<Rightarrow> u32 \<Rightarrow> 'a fs_scheme \<Rightarrow> inode_position res" where
  "inode_locate p inode_no s =
     asserting (inode_no < 4096)
     (let table_lba = inode_table_lba (sb (partitions s p));
          inode_table_offset = sizeof_inode * inode_no;
          inode_sec_offset = inode_table_offset div 512;
          offset_in_sec = inode_table_offset mod 512;
          left_in_sec = 512 - offset_in_sec in
      Inr \<lparr>multi_sec = (if left_in_sec < sizeof_inode then False else True),
           sec_lba = table_lba + inode_sec_offset, off_size = offset_in_sec\<rparr>)"

definition inode_sync :: "addr \<Rightarrow> inode \<Rightarrow> u8 list \<Rightarrow> 'a fs_scheme \<Rightarrow> 'a fs_scheme res" where
  "inode_sync p inode io_buf s =
     (let inode_no = ucast (ucast (i_no inode) :: u8) in
      bindE (inode_locate p inode_no s) (\<lambda>pos.
      asserting (sec_lba pos \<le> start_lba (partitions s p) + sec_cnt (partitions s p))
      (let new_inode = inode\<lparr>i_open_cnt := 0, write_deny := False\<rparr>;
           sector_to_manipulate = (if multi_sec pos then 2 else 1);
           hdisk = my_disk (partitions s p) in
       bindE (ide_read hdisk (sec_lba pos) io_buf sector_to_manipulate s) (\<lambda>inode_buf.
       bindE (memcpy_at inode_buf (unat (off_size pos)) (inode_bytes new_inode) 76) (\<lambda>inode_buf.
         ide_write hdisk (sec_lba pos) inode_buf sector_to_manipulate s)))))"

definition inode_delete :: "addr \<Rightarrow> u32 \<Rightarrow> u8 list \<Rightarrow> 'a fs_scheme \<Rightarrow> 'a fs_scheme res" where
  "inode_delete p inode_no io_buf s =
     asserting (inode_no < 4096)
     (bindE (inode_locate p inode_no s) (\<lambda>pos.
      asserting (sec_lba pos \<le> start_lba (partitions s p) + sec_cnt (partitions s p))
      (let hdisk = my_disk (partitions s p) in
       if multi_sec pos then
         bindE (ide_read hdisk (sec_lba pos) io_buf 2 s) (\<lambda>inode_buf.
         bindE (memset_at inode_buf (unat (off_size pos)) 0 76) (\<lambda>inode_buf.
           ide_write hdisk (sec_lba pos) inode_buf 2 s))
       else
         bindE (ide_read hdisk (sec_lba pos) io_buf 1 s) (\<lambda>inode_buf.
         bindE (memset_at inode_buf (unat (off_size pos)) 0 76) (\<lambda>inode_buf.
           ide_write hdisk (sec_lba pos) inode_buf 1 s)))))"

definition inode_init :: "u32 \<Rightarrow> inode" where
  "inode_init inode_no =
     \<lparr>i_no = inode_no, i_size = 0, i_open_cnt = 0, write_deny = False, i_sectors = replicate 13 0\<rparr>"

section \<open>Open inodes\<close>

fun find_open :: "u32 \<Rightarrow> addr list \<Rightarrow> 'a fs_scheme \<Rightarrow> addr option res" where
  "find_open inode_no [] s = Inr None"
| "find_open inode_no (a # rest) s =
     bindE (inode_at a s) (\<lambda>i. if i_no i = inode_no then Inr (Some a) else find_open inode_no rest s)"

definition inode_load :: "addr \<Rightarrow> u32 \<Rightarrow> 'a fs_scheme \<Rightarrow> (addr \<times> 'a fs_scheme) res" where
  "inode_load p inode_no s =
     bindE (inode_locate p inode_no s) (\<lambda>pos.
     let bk = space s; s = set_pgdir NULL s in
     case kmalloc 76 s of (a, mem, s) \<Rightarrow>
     let s = set_pgdir bk s; n = (if multi_sec pos then 2 else 1) in
     case kmalloc (512 * n) s of (b, inode_buf, s) \<Rightarrow>
     bindE (ide_read (my_disk (partitions s p)) (sec_lba pos) inode_buf n s) (\<lambda>inode_buf.
     bindE (memcpy (ptr a mem) (Some (drop (unat (off_size pos)) inode_buf)) 76) (\<lambda>bytes.
     let s = set_inode a ((inode_of bytes)\<lparr>i_open_cnt := 1\<rparr>)
               (upd_part p (\<lambda>q. q\<lparr>open_inodes := a # open_inodes q\<rparr>) s) in
     bindE (kfree b s) (\<lambda>s. Inr (a, s)))))"

definition inode_open :: "addr \<Rightarrow> u32 \<Rightarrow> 'a fs_scheme \<Rightarrow> (addr \<times> 'a fs_scheme) res" where
  "inode_open p inode_no s =
     bindE (find_open inode_no (open_inodes (partitions s p)) s) (\<lambda>found.
     case found of
       Some a \<Rightarrow> bindE (inode_at a s) (\<lambda>i. Inr (a, set_inode a (i\<lparr>i_open_cnt := i_open_cnt i + 1\<rparr>) s))
     | None \<Rightarrow> inode_load p inode_no s)"

text \<open>Every inode is opened on the current partition, so its tag is in that list or in none.\<close>

definition inode_close :: "addr \<Rightarrow> 'a fs_scheme \<Rightarrow> 'a fs_scheme res" where
  "inode_close a s =
     (case intr_disable s of (old_status, s) \<Rightarrow>
      bindE (inode_at a s) (\<lambda>i.
      let cnt = i_open_cnt i - 1; s = set_inode a (i\<lparr>i_open_cnt := cnt\<rparr>) s;
          p = current_partition s in
      bindE
        (if cnt = 0 then
           if a \<in> set (open_inodes (partitions s p)) then
             let s = upd_part p (\<lambda>q. q\<lparr>open_inodes := remove1 a (open_inodes q)\<rparr>) s;
                 bk = space s in
             bindE (kfree a (set_pgdir NULL s)) (\<lambda>s. Inr (set_pgdir bk s))
           else Inl Bad_access
         else Inr s)
        (\<lambda>s. Inr (intr_set_status old_status s))))"

section \<open>Giving back the blocks of a file\<close>

definition all_blocks :: "addr \<Rightarrow> inode \<Rightarrow> 'a fs_scheme \<Rightarrow> u32 list res" where
  "all_blocks hdisk i s =
     (let direct = take 12 (i_sectors i) @ replicate 128 0 in
      if i_sectors i ! 12 \<noteq> 0 then ide_read_table hdisk (i_sectors i ! 12) direct s else Inr direct)"

definition release_block :: "addr \<Rightarrow> u32 \<Rightarrow> 'a fs_scheme \<Rightarrow> 'a fs_scheme res" where
  "release_block p lba s =
     (if lba \<noteq> 0 then
        let block_bitmap_idx = lba - data_start_lba (sb (partitions s p)) in
        asserting (block_bitmap_idx > 0)
        (bindE (bitmap_set (block_bitmap (partitions s p)) (unat block_bitmap_idx) 0) (\<lambda>b.
         bitmap_sync (current_partition s) block_bitmap_idx BLOCK_BITMAP
           (upd_part p (\<lambda>q. q\<lparr>block_bitmap := b\<rparr>) s)))
      else Inr s)"

definition inode_release :: "addr \<Rightarrow> u32 \<Rightarrow> 'a fs_scheme \<Rightarrow> 'a fs_scheme res" where
  "inode_release p inode_no s =
     bindE (inode_open p inode_no s) (\<lambda>(a, s).
     bindE (inode_at a s) (\<lambda>i.
     asserting (i_no i = inode_no)
     (bindE (all_blocks (my_disk (partitions s p)) i s) (\<lambda>blocks.
      bindE (if i_sectors i ! 12 \<noteq> 0 then release_block p (i_sectors i ! 12) s else Inr s) (\<lambda>s.
      let block_cnt = (if i_sectors i ! 12 \<noteq> 0 then 140 else 12) in
      bindE (foldE (release_block p) (take block_cnt blocks) s) (\<lambda>s.
      bindE (bitmap_set (inode_bitmap (partitions s p)) (unat inode_no) 0) (\<lambda>b.
      bindE (bitmap_sync (current_partition s) inode_no INODE_BITMAP
               (upd_part p (\<lambda>q. q\<lparr>inode_bitmap := b\<rparr>) s)) (\<lambda>s.
      case kmalloc 1024 s of (buf_addr, io_buf, s) \<Rightarrow>
      bindE (inode_delete p inode_no io_buf s) (\<lambda>s.
      bindE (kfree buf_addr s) (\<lambda>s. inode_close a s))))))))))"

section \<open>Sectors\<close>

text \<open>Every sector of the disk has its 512 bytes.\<close>

definition disk_ok :: "(u32 \<Rightarrow> u8 list) \<Rightarrow> bool" where
  "disk_ok d \<longleftrightarrow> (\<forall>l. length (d l) = 512)"

lemma disk_okD [simp]: "disk_ok d \<Longrightarrow> length (d l) = 512" by (simp add: disk_ok_def)

lemma sectors_Suc: "sectors d lba (Suc n) = d lba @ sectors d (lba + 1) n"
proof -
  have "[0..<Suc n] = 0 # List.map Suc [0..<n]" by (simp add: map_Suc_upt upt_conv_Cons del: upt_Suc)
  then show ?thesis by (simp add: sectors_def o_def add.assoc del: upt_Suc)
qed

lemma length_sectors [simp]: "disk_ok d \<Longrightarrow> length (sectors d lba n) = 512 * n"
  by (induction n arbitrary: lba) (simp_all add: sectors_Suc, simp add: sectors_def)

lemma nth_sectors:
  "disk_ok d \<Longrightarrow> k < 512 * n \<Longrightarrow> sectors d lba n ! k = d (lba + of_nat (k div 512)) ! (k mod 512)"
proof (induction n arbitrary: lba k)
  case (Suc n)
  show ?case
  proof (cases "k < 512")
    case False
    then have "k div 512 = Suc ((k - 512) div 512)" "k mod 512 = (k - 512) mod 512"
      by (simp_all add: le_div_geq le_mod_geq)
    then show ?thesis using Suc.IH [of "k - 512" "lba + 1"] Suc.prems False
      by (simp add: sectors_Suc nth_append add.assoc)
  qed (use Suc.prems in \<open>simp add: sectors_Suc nth_append\<close>)
qed simp

lemma sectors_1 [simp]: "sectors d lba (Suc 0) = d lba" by (simp add: sectors_def)

lemma put_sectors_1 [simp]: "put_sectors lba bytes (Suc 0) d = d(lba := take 512 bytes)" by simp

lemma put_sectors_other:
  "(\<And>j. j < n \<Longrightarrow> l \<noteq> lba + of_nat j) \<Longrightarrow> put_sectors lba bytes n d l = d l"
proof (induction n arbitrary: lba bytes d)
  case (Suc n)
  have "l \<noteq> lba + 1 + of_nat j" if "j < n" for j
    using Suc.prems [of "Suc j"] that by (simp add: add.assoc)
  then show ?case using Suc.IH [of "lba + 1"] Suc.prems [of 0] by simp
qed simp

lemma put_sectors_same:
  "j < n \<Longrightarrow> n \<le> 2 ^ 32 \<Longrightarrow> put_sectors lba bytes n d (lba + of_nat j) = take 512 (drop (512 * j) bytes)"
proof (induction n arbitrary: lba bytes d j)
  case (Suc n)
  show ?case
  proof (cases j)
    case 0
    have "lba \<noteq> lba + 1 + of_nat i" if "i < n" for i
    proof
      assume "lba = lba + 1 + of_nat i"
      then have "(of_nat (Suc i) :: u32) = 0" by (simp add: add.assoc)
      moreover have "Suc i < 2 ^ 32" using that Suc.prems(2) by simp
      ultimately show False by (simp add: word_of_nat_eq_0_iff dvd_imp_le nat_dvd_not_less del: of_nat_Suc)
    qed
    then show ?thesis using 0 put_sectors_other [of n lba "lba + 1" "drop 512 bytes"] by simp
  next
    case (Suc i)
    then show ?thesis using Suc.IH [of i "lba + 1" "drop 512 bytes" "d(lba := take 512 bytes)"] Suc.prems
      by (simp add: add.assoc fun_upd_def) (simp add: add.commute)
  qed
qed simp

lemma disk_ok_put: "disk_ok d \<Longrightarrow> 512 * n \<le> length bytes \<Longrightarrow> disk_ok (put_sectors lba bytes n d)"
  by (induction lba bytes n d rule: put_sectors.induct) (auto simp: disk_ok_def)

lemma commands_short: "0 < n \<Longrightarrow> n \<le> 256 \<Longrightarrow> commands lba n = [lba]"
proof -
  assume "0 < n" "n \<le> 256"
  then have "(n + 255) div 256 = 1" by (intro div_nat_eqI) auto
  then show ?thesis by (simp add: commands_def)
qed

lemma ide_read_short [simp]:
  assumes "0 < n" "n \<le> 256" "lba \<le> max_lba" "512 * n \<le> length mem" "disk_ok (disk s hdisk)"
  shows "ide_read hdisk lba mem n s = Inr (sectors (disk s hdisk) lba n @ drop (512 * n) mem)"
  using assms by (simp add: ide_read_def commands_short)

lemma ide_write_short [simp]:
  assumes "0 < n" "n \<le> 256" "lba \<le> max_lba" "512 * n \<le> length mem"
  shows "ide_write hdisk lba mem n s =
    Inr (s\<lparr>disk := (disk s)(hdisk := put_sectors lba mem n (disk s hdisk))\<rparr>)"
  using assms by (simp add: ide_write_def commands_short)

section \<open>The inode table\<close>

text \<open>Byte \<open>k\<close> of the inode table on disk.\<close>

definition table_byte :: "'a fs_scheme \<Rightarrow> addr \<Rightarrow> nat \<Rightarrow> u8" where
  "table_byte s p k = disk s (my_disk (partitions s p))
     (inode_table_lba (sb (partitions s p)) + of_nat (k div 512)) ! (k mod 512)"

text \<open>The inode table lies within the partition and the disk.\<close>

definition table_ok :: "'a fs_scheme \<Rightarrow> addr \<Rightarrow> bool" where
  "table_ok s p \<longleftrightarrow> (let q = partitions s p in
     disk_ok (disk s (my_disk q)) \<and>
     (\<forall>j \<le> 608. inode_table_lba (sb q) + of_nat j \<le> max_lba \<and>
                inode_table_lba (sb q) + of_nat j \<le> start_lba q + sec_cnt q))"

definition crosses :: "nat \<Rightarrow> bool" where "crosses n \<longleftrightarrow> 436 < 76 * n mod 512"

lemma inode_locate_eq:
  assumes "n < 4096"
  shows "inode_locate p (of_nat n) s =
    Inr \<lparr>multi_sec = (\<not> crosses n),
         sec_lba = inode_table_lba (sb (partitions s p)) + of_nat (76 * n div 512),
         off_size = of_nat (76 * n mod 512)\<rparr>"
proof -
  have n: "unat (of_nat n :: u32) = n" using assms by (simp add: unat_of_nat_small)
  have off: "unat (sizeof_inode * of_nat n) = 76 * n"
    using assms n by (simp add: sizeof_inode_def unat_word_ariths)
  have d: "sizeof_inode * of_nat n div 512 = (of_nat (76 * n div 512) :: u32)"
    by (simp only: word_unat_eq_iff) (use assms in \<open>simp add: unat_div off unat_of_nat_small\<close>)
  have m: "sizeof_inode * of_nat n mod 512 = (of_nat (76 * n mod 512) :: u32)"
    by (simp only: word_unat_eq_iff) (use assms in \<open>simp add: unat_mod off unat_of_nat_small\<close>)
  have lt: "(of_nat n :: u32) < 4096" using assms n by (simp add: word_less_nat_alt)
  have "unat (512 - of_nat (76 * n mod 512) :: u32) = 512 - 76 * n mod 512"
    by (subst unat_sub) (simp_all add: word_le_nat_alt unat_of_nat_small)
  then have "512 - of_nat (76 * n mod 512) < sizeof_inode \<longleftrightarrow> crosses n"
    using mod_less_divisor [of 512 "76 * n"] by (simp add: word_less_nat_alt sizeof_inode_def crosses_def) linarith
  then show ?thesis using lt by (simp add: inode_locate_def Let_def d m)
qed


lemma add_of_nat_eq:
  "a < 2 ^ 32 \<Longrightarrow> b < 2 ^ 32 \<Longrightarrow> (x :: u32) + of_nat a = x + of_nat b \<longleftrightarrow> a = b"
  by (metis add_left_cancel unat_of_nat_small)

text \<open>
  Reading \<open>m\<close> sectors from number \<open>j0\<close> of an area on, overwriting bytes of the first one in the buffer and
  writing the sectors back changes those bytes, as far as they were written back, and nothing else.
\<close>

lemma splice_sectors:
  fixes base :: u32
  assumes d: "disk_ok d" and m: "m = 1 \<or> m = 2 \<and> off + length xs \<le> 512" and sec: "sec + m \<le> 2 ^ 32"
    and off: "off < 512" "length xs \<le> 512 * m - off + length rest" and q: "q < 2 ^ 32" "r < 512"
  defines "X \<equiv> sectors d (base + of_nat sec) m @ rest"
  shows "put_sectors (base + of_nat sec) (take off X @ xs @ drop (off + length xs) X) m d (base + of_nat q) ! r =
    (if q = sec \<and> off \<le> r \<and> r < off + length xs then xs ! (r - off) else d (base + of_nat q) ! r)"
proof -
  let ?B = "take off X @ xs @ drop (off + length xs) X"
  let ?d = "put_sectors (base + of_nat sec) ?B m d"
  have lenX: "length X = 512 * m + length rest" using d by (simp add: X_def)
  have room: "off + length xs \<le> length X" using off m lenX by auto
  have nth: "?B ! b = (if off \<le> b \<and> b < off + length xs then xs ! (b - off) else X ! b)" if "b < length X" for b
    using that room by (auto simp: nth_append)
  have X: "X ! b = d (base + of_nat sec + of_nat (b div 512)) ! (b mod 512)" if "b < 512 * m" for b
    using that d by (simp add: X_def nth_append nth_sectors)
  have lenB: "length ?B = length X" using room by simp
  show ?thesis
  proof (cases "\<exists>j < m. q = sec + j")
    case True
    then obtain j where j: "j < m" "q = sec + j" by blast
    have l: "base + of_nat q = base + of_nat sec + of_nat j" using j by (simp add: add.assoc)
    have b: "512 * j + r < 512 * m" using j q by auto
    have "?d (base + of_nat q) = take 512 (drop (512 * j) ?B)"
      unfolding l using j sec by (intro put_sectors_same) auto
    moreover have "take 512 (drop a bs) ! r = bs ! (a + r)" if "a + r < length bs" for a and bs :: "u8 list"
      using that q(2) by simp
    moreover have "512 * j + r < length ?B" using b lenB lenX by linarith
    ultimately have "?d (base + of_nat q) ! r = ?B ! (512 * j + r)" by (simp only:)
    also have "\<dots> = (if off \<le> 512 * j + r \<and> 512 * j + r < off + length xs then xs ! (512 * j + r - off)
        else d (base + of_nat q) ! r)"
      using nth [of "512 * j + r"] X [OF b] b lenX q(2) by (simp add: l)
    also have "off \<le> 512 * j + r \<and> 512 * j + r < off + length xs \<longleftrightarrow> j = 0 \<and> off \<le> r \<and> r < off + length xs"
      using m j by (cases j) auto
    finally show ?thesis using j by auto
  next
    case False
    then have "base + of_nat q \<noteq> base + of_nat sec + of_nat j" if "j < m" for j
      using that add_of_nat_eq [of q "sec + j" base] q(1) sec by (simp add: add.assoc)
    then have "?d (base + of_nat q) = d (base + of_nat q)" by (rule put_sectors_other)
    moreover have "q \<noteq> sec" using False m by (auto dest: spec [of _ 0])
    ultimately show ?thesis by simp
  qed
qed

text \<open>The inode \<open>n\<close> as the table has it, and what \<open>inode_sync\<close> stores of an inode.\<close>

definition table_inode :: "'a fs_scheme \<Rightarrow> addr \<Rightarrow> nat \<Rightarrow> inode" where
  "table_inode s p n = inode_of (List.map (table_byte s p) [76 * n..<76 * n + 76])"

definition on_disk :: "inode \<Rightarrow> inode" where "on_disk i = i\<lparr>i_open_cnt := 0, write_deny := False\<rparr>"

lemma in_sector:
  assumes "\<not> crosses n" "j < 76"
  shows "(76 * n + j) div 512 = 76 * n div 512" "(76 * n + j) mod 512 = 76 * n mod 512 + j"
proof -
  have "(512 * i + x) div 512 = i \<and> (512 * i + x) mod 512 = x" if "x < 512" for i x :: nat using that by simp
  moreover have "76 * n + j = 512 * (76 * n div 512) + (76 * n mod 512 + j)" "76 * n mod 512 + j < 512"
    using mult_div_mod_eq [of 512 "76 * n"] assms unfolding crosses_def by linarith+
  ultimately show "(76 * n + j) div 512 = 76 * n div 512" "(76 * n + j) mod 512 = 76 * n mod 512 + j" by metis+
qed

text \<open>The call reads one or two sectors, overwrites the bytes of the inode and writes the sectors back.\<close>

lemma inode_sync_run:
  assumes ok: "table_ok s p" and len: "length (i_sectors i) = 13" "1024 \<le> length io_buf"
    and n: "n = unat (i_no i) mod 256" and m: "m = (if crosses n then 1 else 2)"
  defines "hdk \<equiv> my_disk (partitions s p)"
    and "base \<equiv> inode_table_lba (sb (partitions s p)) + of_nat (76 * n div 512)"
    and "off \<equiv> 76 * n mod 512"
  defines "X \<equiv> sectors (disk s hdk) base m @ drop (512 * m) io_buf"
  defines "B \<equiv> take off X @ inode_bytes (on_disk i) @ drop (off + 76) X"
  shows "inode_sync p i io_buf s = Inr (s\<lparr>disk := (disk s)(hdk := put_sectors base B m (disk s hdk))\<rparr>)"
    and "length B = length io_buf"
proof -
  have d: "disk_ok (disk s hdk)" using ok by (simp add: table_ok_def Let_def hdk_def)
  have n256: "n < 256" using n by simp
  have off: "off < 512" by (simp add: off_def)
  have no: "ucast (ucast (i_no i) :: u8) = (of_nat n :: u32)"
    by (simp add: word_unat_eq_iff n unat_of_nat_small unsigned_ucast_eq take_bit_eq_mod unat_mod)
  have loc: "inode_locate p (of_nat n) s = Inr \<lparr>multi_sec = (\<not> crosses n), sec_lba = base, off_size = of_nat off\<rparr>"
    using inode_locate_eq [of n p s] n256 by (simp add: base_def off_def)
  have "76 * n div 512 \<le> 608" using n256 by simp
  then have lba: "base \<le> max_lba" "base \<le> start_lba (partitions s p) + sec_cnt (partitions s p)"
    using ok by (auto simp: table_ok_def Let_def base_def)
  have m2: "0 < m" "m \<le> 2" by (auto simp: m)
  have ib: "length (inode_bytes (on_disk i)) = 76" using len by (simp add: on_disk_def)
  have lenX: "length X = length io_buf" using d m2 len(2) by (auto simp: X_def)
  then show lenB: "length B = length io_buf" using off len(2) ib by (auto simp: B_def)
  have uoff: "unat (of_nat off :: u32) = off" using off by (simp add: unat_of_nat_small)
  have rd: "ide_read hdk base io_buf m s = Inr X"
    unfolding X_def using lba d m2 len(2) by (intro ide_read_short) auto
  have cp: "memcpy_at X off (inode_bytes (on_disk i)) 76 = Inr B"
    using off lenX len(2) ib by (subst memcpy_at_eq) (auto simp: B_def)
  have wr: "ide_write hdk base B m s =
      Inr (s\<lparr>disk := (disk s)(hdk := put_sectors base B m (disk s hdk))\<rparr>)"
    using lba m2 lenB len(2) by (intro ide_write_short) auto
  have mm: "(if \<not> crosses n then 2 else 1) = m" by (simp add: m)
  show "inode_sync p i io_buf s = Inr (s\<lparr>disk := (disk s)(hdk := put_sectors base B m (disk s hdk))\<rparr>)"
    unfolding inode_sync_def Let_def no loc bindE_Inr inode_position.simps asserting_True [OF lba(2)] mm
      hdk_def [symmetric] rd uoff on_disk_def [symmetric] cp wr ..
qed

lemma byte_position:
  "k div 512 = 76 * n div 512 \<and> 76 * n mod 512 \<le> k mod 512 \<and> k mod 512 < 76 * n mod 512 + 76 \<longleftrightarrow>
     76 * n \<le> k \<and> k < 76 * n + 76 \<and> k div 512 = 76 * n div 512" (is "?l \<longleftrightarrow> ?r")
  "k div 512 = 76 * n div 512 \<Longrightarrow> k mod 512 - 76 * n mod 512 = k - 76 * (n :: nat)"
proof -
  note e = mult_div_mod_eq [of 512 k] mult_div_mod_eq [of 512 "76 * n"]
  show "?l \<longleftrightarrow> ?r"
  proof (cases "k div 512 = 76 * n div 512")
    case True
    with e have "76 * n mod 512 \<le> k mod 512 \<longleftrightarrow> 76 * n \<le> k"
      "k mod 512 < 76 * n mod 512 + 76 \<longleftrightarrow> k < 76 * n + 76" by linarith+
    then show ?thesis by blast
  qed simp
  show "k mod 512 - 76 * n mod 512 = k - 76 * n" if "k div 512 = 76 * n div 512"
    using e that by linarith
qed

text \<open>
  C10. \<open>inode_sync\<close> changes the bytes of the inode table that belong to the inode number modulo 256 (it
  keeps the number in 8 bits) and lie in the first sector of that inode, to the bytes of the inode with
  its count and lock cleared; no other byte of the table and nothing but the disk changes. An inode
  that does not cross into the next sector is then on disk in full.
\<close>

theorem inode_sync_exact:
  assumes ok: "table_ok s p" and len: "length (i_sectors i) = 13" "1024 \<le> length io_buf"
    and n: "n = unat (i_no i) mod 256"
  shows "\<exists>s'. inode_sync p i io_buf s = Inr s' \<and>
    (\<forall>k < 608 * 512. table_byte s' p k =
       (if 76 * n \<le> k \<and> k < 76 * n + 76 \<and> k div 512 = 76 * n div 512
        then inode_bytes (on_disk i) ! (k - 76 * n) else table_byte s p k)) \<and>
    (\<not> crosses n \<longrightarrow> table_inode s' p n = on_disk i) \<and> s' = s\<lparr>disk := disk s'\<rparr> \<and> table_ok s' p"
proof -
  let ?hd = "my_disk (partitions s p)"
  let ?d = "disk s ?hd" and ?T = "inode_table_lba (sb (partitions s p))"
  define m :: nat where "m = (if crosses n then 1 else 2)"
  define j where "j = 76 * n div 512"
  define off where "off = 76 * n mod 512"
  define B where "B = (let X = sectors ?d (?T + of_nat j) m @ drop (512 * m) io_buf
    in take off X @ inode_bytes (on_disk i) @ drop (off + 76) X)"
  define s' where "s' = s\<lparr>disk := (disk s)(?hd := put_sectors (?T + of_nat j) B m ?d)\<rparr>"
  have run: "inode_sync p i io_buf s = Inr s'" and lenB: "length B = length io_buf"
    using inode_sync_run [OF ok len n m_def] by (simp_all add: s'_def B_def j_def off_def Let_def)
  have d: "disk_ok ?d" using ok by (simp add: table_ok_def Let_def)
  have m: "m = 1 \<or> m = 2 \<and> off + 76 \<le> 512" "m \<le> 2" by (auto simp: m_def crosses_def off_def)
  have ib: "length (inode_bytes (on_disk i)) = 76" using len by (simp add: on_disk_def)
  have n256: "n < 256" using n by simp
  then have j: "j < 38" by (simp add: j_def)
  have off: "off < 512" by (simp add: off_def)
  have bytes: "table_byte s' p k =
      (if 76 * n \<le> k \<and> k < 76 * n + 76 \<and> k div 512 = 76 * n div 512
       then inode_bytes (on_disk i) ! (k - 76 * n) else table_byte s p k)" if k: "k < 608 * 512" for k
  proof -
    have "put_sectors (?T + of_nat j) B m ?d (?T + of_nat (k div 512)) ! (k mod 512) =
        (if k div 512 = j \<and> off \<le> k mod 512 \<and> k mod 512 < off + 76
         then inode_bytes (on_disk i) ! (k mod 512 - off) else ?d (?T + of_nat (k div 512)) ! (k mod 512))"
      using splice_sectors [OF d, where m = m and off = off and xs = "inode_bytes (on_disk i)"
          and sec = j and rest = "drop (512 * m) io_buf" and q = "k div 512" and r = "k mod 512" and base = ?T]
        m ib k len(2) j off by (simp add: B_def Let_def m_def)
    then have "table_byte s' p k = (if k div 512 = j \<and> off \<le> k mod 512 \<and> k mod 512 < off + 76
         then inode_bytes (on_disk i) ! (k mod 512 - off) else table_byte s p k)"
      by (simp add: table_byte_def s'_def)
    then show ?thesis unfolding j_def off_def byte_position(1) using byte_position(2) [of k n] by simp
  qed
  moreover have "table_inode s' p n = on_disk i" if "\<not> crosses n"
  proof -
    have "table_byte s' p (76 * n + b) = inode_bytes (on_disk i) ! b" if "b < 76" for b
      using bytes [of "76 * n + b"] in_sector [OF \<open>\<not> crosses n\<close> that] that n256 by simp
    then have "List.map (table_byte s' p) [76 * n..<76 * n + 76] = inode_bytes (on_disk i)"
      using ib by (intro nth_equalityI) simp_all
    then show ?thesis using inode_of_bytes [of "on_disk i" "[]"] len by (simp add: table_inode_def on_disk_def)
  qed
  moreover have "s' = s\<lparr>disk := disk s'\<rparr>" by (simp add: s'_def)
  moreover have "table_ok s' p"
    using ok disk_ok_put [OF d] lenB len(2) m by (auto simp: table_ok_def Let_def s'_def)
  ultimately show ?thesis using run by blast
qed

section \<open>Reference counts\<close>

lemma read_inode:
  assumes ok: "table_ok s p" and n: "n < 4096" "\<not> crosses n" and len: "1024 \<le> length mem"
  shows "take 76 (drop (76 * n mod 512) (sectors (disk s (my_disk (partitions s p)))
      (inode_table_lba (sb (partitions s p)) + of_nat (76 * n div 512)) 2)) =
    List.map (table_byte s p) [76 * n..<76 * n + 76]" (is "take 76 (drop ?o ?X) = ?T")
proof (rule nth_equalityI)
  let ?d = "disk s (my_disk (partitions s p))" and ?base = "inode_table_lba (sb (partitions s p))"
  have d: "disk_ok ?d" using ok by (simp add: table_ok_def Let_def)
  have o: "?o + 76 \<le> 512" using n(2) by (simp add: crosses_def)
  then show "length (take 76 (drop ?o ?X)) = length ?T" using d by simp
  fix k assume "k < length (take 76 (drop ?o ?X))"
  then have k: "k < 76" by simp
  then show "take 76 (drop ?o ?X) ! k = ?T ! k"
    using in_sector [OF n(2) k] o d by (simp add: nth_sectors table_byte_def)
qed

text \<open>The open inodes: each in memory with its count, in a block of the kernel heap, and once only.\<close>

definition opens_ok :: "'a fs_scheme \<Rightarrow> bool" where
  "opens_ok s \<longleftrightarrow> (let os = open_inodes (partitions s (current_partition s)) in
     distinct os \<and> (\<forall>a \<in> set os. a \<noteq> NULL \<and> (\<exists>i. inodes s a = Some i \<and> i_open_cnt i \<noteq> 0)))"

definition open_as :: "'a fs_scheme \<Rightarrow> u32 \<Rightarrow> addr option" where
  "open_as s n = List.find (\<lambda>a. i_no (the (inodes s a)) = n) (open_inodes (partitions s (current_partition s)))"

lemma find_open_eq:
  assumes "\<forall>a \<in> set as. \<exists>i. inodes s a = Some i"
  shows "find_open n as s = Inr (List.find (\<lambda>a. i_no (the (inodes s a)) = n) as)"
  using assms by (induction as) (auto simp: inode_at_def)

text \<open>The address is new to the heap and to the tables of objects.\<close>

definition fresh :: "addr \<Rightarrow> 'a fs_scheme \<Rightarrow> bool" where
  "fresh a s \<longleftrightarrow> a \<noteq> NULL \<and> inodes s a = None \<and> dirs s a = None \<and> (\<forall>d. (d, a) \<notin> set (live s))"

lemma set_pgdir_simps [simp]:
  "inodes (set_pgdir d s) = inodes s" "dirs (set_pgdir d s) = dirs s" "live (set_pgdir d s) = live s"
  "heap_next (set_pgdir d s) = heap_next s" "partitions (set_pgdir d s) = partitions s"
  "current_partition (set_pgdir d s) = current_partition s" "disk (set_pgdir d s) = disk s"
  "space (set_pgdir d s) = d" "cur (set_pgdir d s) = cur s"
  by (simp_all add: set_pgdir_def upd_tcb_def space_def running_thread_def)

lemma set_pgdir_id [simp]: "set_pgdir (space s) s = s" "set_pgdir d (set_pgdir e s) = set_pgdir d s"
  by (simp_all add: set_pgdir_def upd_tcb_def space_def running_thread_def)

lemma space_cong [simp]:
  "space (s\<lparr>heap_next := x\<rparr>) = space s" "space (s\<lparr>live := y\<rparr>) = space s"
  "space (s\<lparr>inodes := z\<rparr>) = space s" "space (s\<lparr>dirs := w\<rparr>) = space s"
  "space (s\<lparr>partitions := v\<rparr>) = space s" "space (s\<lparr>if_flag := f\<rparr>) = space s" "space (s\<lparr>disk := d\<rparr>) = space s"
  by (simp_all add: space_def running_thread_def)

lemma set_pgdir_swap [simp]:
  "set_pgdir d (s\<lparr>heap_next := x\<rparr>) = (set_pgdir d s)\<lparr>heap_next := x\<rparr>"
  "set_pgdir d (s\<lparr>live := y\<rparr>) = (set_pgdir d s)\<lparr>live := y\<rparr>"
  "set_pgdir d (s\<lparr>inodes := z\<rparr>) = (set_pgdir d s)\<lparr>inodes := z\<rparr>"
  "set_pgdir d (s\<lparr>dirs := w\<rparr>) = (set_pgdir d s)\<lparr>dirs := w\<rparr>"
  "set_pgdir d (s\<lparr>partitions := v\<rparr>) = (set_pgdir d s)\<lparr>partitions := v\<rparr>"
  "set_pgdir d (s\<lparr>if_flag := f\<rparr>) = (set_pgdir d s)\<lparr>if_flag := f\<rparr>"
  "set_pgdir d (s\<lparr>disk := k\<rparr>) = (set_pgdir d s)\<lparr>disk := k\<rparr>"
  by (simp_all add: set_pgdir_def upd_tcb_def running_thread_def)

definition load_state :: "addr \<Rightarrow> nat \<Rightarrow> 'a fs_scheme \<Rightarrow> 'a fs_scheme" where
  "load_state a n s = s\<lparr>heap_next := drop 2 (heap_next s), live := (NULL, a) # live s,
     inodes := (inodes s)(a \<mapsto> (table_inode s (current_partition s) n)\<lparr>i_open_cnt := 1\<rparr>),
     partitions := (partitions s)(current_partition s := (partitions s (current_partition s))
       \<lparr>open_inodes := a # open_inodes (partitions s (current_partition s))\<rparr>)\<rparr>"

lemma inode_load_eq:
  assumes ok: "table_ok s p" "p = current_partition s" and n: "n < 4096" "\<not> crosses n"
    and heap: "heap_next s = a # b # rest" "fresh a s" "fresh b s" "a \<noteq> b"
  shows "inode_load p (of_nat n) s = Inr (a, load_state a n s)"
proof -
  let ?q = "partitions s p"
  let ?L = "inode_table_lba (sb ?q) + of_nat (76 * n div 512)"
  have d: "disk_ok (disk s (my_disk ?q))" using ok(1) by (simp add: table_ok_def Let_def)
  have "76 * n div 512 \<le> 608" using n(1) by (simp add: div_le_mono [of "76 * n" "76 * 4095" 512, simplified])
  then have L: "?L \<le> max_lba" using ok(1) by (auto simp: table_ok_def Let_def)
  have u: "unat (of_nat (76 * n mod 512) :: u32) = 76 * n mod 512" by (simp add: unat_of_nat_small)
  have o: "76 * n mod 512 + 76 \<le> 1024" using n(2) by (simp add: crosses_def)
  have ab: "a \<noteq> NULL" "b \<noteq> NULL" "inodes s b = None" "dirs s b = None" "dirs s a = None"
    using heap(2,3) by (simp_all add: fresh_def)
  have k1: "kmalloc 76 (set_pgdir NULL s) =
      (a, replicate 76 0, set_pgdir NULL (s\<lparr>heap_next := b # rest, live := (NULL, a) # live s\<rparr>))"
    using heap(1) ab by (simp add: kmalloc_def)
  define s1 where "s1 = s\<lparr>heap_next := b # rest, live := (NULL, a) # live s\<rparr>"
  have bk: "set_pgdir (space s) (set_pgdir NULL s1) = s1"
    using set_pgdir_id(1) [of s1] by (simp add: s1_def)
  have k2: "kmalloc (512 * 2) s1 = (b, replicate (512 * 2) 0,
      s1\<lparr>heap_next := rest, live := (space s, b) # live s1\<rparr>)"
    using ab by (simp add: kmalloc_def s1_def)
  define s2 where "s2 = s1\<lparr>heap_next := rest, live := (space s, b) # live s1\<rparr>"
  have same: "disk s2 = disk s" "partitions s2 = partitions s" "space s2 = space s" "inodes s2 = inodes s" "dirs s2 = dirs s"
    by (simp_all add: s2_def s1_def)
  have rd: "ide_read (my_disk (partitions s2 p)) ?L (replicate (512 * 2) 0) 2 s2 = Inr (sectors (disk s (my_disk ?q)) ?L 2)"
    using L d same by (subst ide_read_short) simp_all
  have T: "take 76 (drop (76 * n mod 512) (sectors (disk s (my_disk ?q)) ?L 2)) = List.map (table_byte s p) [76 * n..<76 * n + 76]"
    by (rule read_inode [OF ok(1) n, where mem = "replicate 1024 0"]) simp
  have cp: "memcpy (ptr a (replicate 76 0)) (Some (drop (76 * n mod 512) (sectors (disk s (my_disk ?q)) ?L 2))) 76 =
      Inr (List.map (table_byte s p) [76 * n..<76 * n + 76])"
    using T o d ab by (simp add: ptr_def)
  have fin: "kfree b (set_inode a ((inode_of (List.map (table_byte s p) [76 * n..<76 * n + 76]))\<lparr>i_open_cnt := 1\<rparr>)
        (upd_part p (\<lambda>q. q\<lparr>open_inodes := a # open_inodes q\<rparr>) s2)) = Inr (load_state a n s)"
  proof -
    have "(inodes s)(a \<mapsto> x, b := None) = (inodes s)(a \<mapsto> x)" for x
      using ab(3) heap(4) by (auto simp: fun_eq_iff)
    moreover have "(dirs s)(b := None) = dirs s" using ab(4) by (simp add: fun_upd_idem)
    ultimately show ?thesis
      using ab heap(1,4) ok(2)
      by (simp add: kfree_def set_inode_def upd_part_def s2_def s1_def load_state_def table_inode_def)
  qed
  show ?thesis
    unfolding inode_load_def inode_locate_eq [OF n(1)] bindE_Inr Let_def k1 s1_def [symmetric] prod.case
      inode_position.simps if_not_P [OF n(2)] if_P [OF n(2)] bk k2 s2_def [symmetric] rd u cp fin ..
qed

lemma restore_intr [simp]:
  "intr_set_status (intr_get_status s) (s'\<lparr>if_flag := False\<rparr>) = s'\<lparr>if_flag := if_flag s\<rparr>"
  by (simp add: intr_set_status_eq)

lemma inode_close_shared:
  assumes "inodes s a = Some i" "i_open_cnt i \<noteq> 1"
  shows "inode_close a s = Inr (set_inode a (i\<lparr>i_open_cnt := i_open_cnt i - 1\<rparr>) s)"
  using assms by (simp add: inode_close_def intr_disable_eq inode_at_def Let_def set_inode_def intr_set_status_eq)

lemma inode_close_last:
  assumes "inodes s a = Some i" "i_open_cnt i = 1" "a \<noteq> NULL" "(NULL, a) \<in> set (live s)"
    and "a \<in> set (open_inodes (partitions s (current_partition s)))"
  shows "inode_close a s = Inr (s\<lparr>live := remove1 (NULL, a) (live s), inodes := (inodes s)(a := None), dirs := (dirs s)(a := None),
     partitions := (partitions s)(current_partition s := (partitions s (current_partition s))
       \<lparr>open_inodes := remove1 a (open_inodes (partitions s (current_partition s)))\<rparr>)\<rparr>)"
proof -
  have "set_pgdir (space s) (set_pgdir NULL s) = s" for s :: "'a fs_scheme" by simp
  then show ?thesis
    using assms by (simp add: inode_close_def intr_disable_eq inode_at_def Let_def set_inode_def upd_part_def
        kfree_def intr_set_status_eq)
qed

lemma find_open_as:
  "opens_ok s \<Longrightarrow> find_open n (open_inodes (partitions s (current_partition s))) s = Inr (open_as s n)"
  by (subst find_open_eq) (auto simp: opens_ok_def Let_def open_as_def)

lemma open_as_Some:
  assumes "opens_ok s" "open_as s n = Some c"
  obtains i where "inodes s c = Some i" "i_no i = n" "i_open_cnt i \<noteq> 0" "c \<noteq> NULL"
proof -
  have "c \<in> set (open_inodes (partitions s (current_partition s)))" "i_no (the (inodes s c)) = n"
    using assms(2) by (auto simp: open_as_def find_Some_iff)
  then show ?thesis using assms(1) that by (fastforce simp: opens_ok_def Let_def)
qed

text \<open>
  C12. Opening an inode answers the one in memory, with its count one higher, or else a new one with the
  content of the inode table and count 1; closing it again gives the state before, but for the
  addresses the heap hands out next. (An inode that crosses a sector boundary is not read in full.)
\<close>

theorem inode_open_close:
  assumes ok: "table_ok s (current_partition s)" "opens_ok s" and n: "n < 4096" "\<not> crosses n"
    and heap: "heap_next s = a # b # rest" "fresh a s" "fresh b s" "a \<noteq> b"
  shows "\<exists>c i s1. inode_open (current_partition s) (of_nat n) s = Inr (c, s1) \<and> inodes s1 c = Some i \<and>
    (case open_as s (of_nat n) of
       Some c' \<Rightarrow> c = c' \<and> i = (the (inodes s c'))\<lparr>i_open_cnt := i_open_cnt (the (inodes s c')) + 1\<rparr>
     | None \<Rightarrow> c = a \<and> i = (table_inode s (current_partition s) n)\<lparr>i_open_cnt := 1\<rparr>) \<and>
    (\<exists>s2. inode_close c s1 = Inr s2 \<and> s2 = s\<lparr>heap_next := heap_next s2\<rparr>)"
proof (cases "open_as s (of_nat n)")
  case None
  let ?s1 = "load_state a n s"
  have run: "inode_open (current_partition s) (of_nat n) s = Inr (a, ?s1)"
    by (simp add: inode_open_def find_open_as [OF ok(2)] None inode_load_eq [OF ok(1) refl n heap])
  have i: "inodes ?s1 a = Some ((table_inode s (current_partition s) n)\<lparr>i_open_cnt := 1\<rparr>)"
    by (simp add: load_state_def)
  have a: "inodes s a = None" "dirs s a = None" "a \<noteq> NULL" using heap(2) by (simp_all add: fresh_def)
  then have "(inodes s)(a := None) = inodes s" "(dirs s)(a := None) = dirs s" by (simp_all add: fun_upd_idem)
  then have "inode_close a ?s1 = Inr (s\<lparr>heap_next := drop 2 (heap_next s)\<rparr>)"
    using a by (subst inode_close_last [OF i]) (simp_all add: load_state_def)
  with run i None show ?thesis by (intro exI [of _ a] exI [of _ "?s1"]) simp
next
  case (Some c)
  from open_as_Some [OF ok(2) Some] obtain i where i: "inodes s c = Some i" "i_open_cnt i \<noteq> 0" by metis
  let ?i = "i\<lparr>i_open_cnt := i_open_cnt i + 1\<rparr>"
  have run: "inode_open (current_partition s) (of_nat n) s = Inr (c, set_inode c ?i s)"
    using i by (simp add: inode_open_def find_open_as [OF ok(2)] Some inode_at_def)
  have "i_open_cnt i + 1 \<noteq> 1" using i(2) by simp
  then have "inode_close c (set_inode c ?i s) = Inr s"
    using i by (subst inode_close_shared [where i = ?i]) (simp_all add: set_inode_def fun_upd_idem)
  with run i Some show ?thesis by (intro exI [of _ c] exI [of _ ?i] exI [of _ "set_inode c ?i s"]) (simp add: set_inode_def)
qed
section \<open>A small file system\<close>

definition tiny_part :: partition where
  "tiny_part = \<lparr>start_lba = 1, sec_cnt = 5000, my_disk = 7, part_name = lit ''sdb1'',
     sb = \<lparr>magic = 0x20010107, sb_sec_cnt = 5000, inode_cnt = 4096, partition_lba_base = 1, block_bitmap_lba = 3,
       block_bitmap_sects = 1, inode_bitmap_lba = 4, inode_bitmap_sects = 1, inode_table_lba = 5,
       inode_table_sects = 608, data_start_lba = 613, root_inode_no = 0, dir_entry_size = 24, pad = []\<rparr>,
     block_bitmap = \<lparr>btmp_byte_len = 512, bits = 7 # replicate 511 0\<rparr>,
     inode_bitmap = \<lparr>btmp_byte_len = 512, bits = 3 # replicate 511 0\<rparr>, open_inodes = [64]\<rparr>"

definition tiny_fs :: fs where
  "tiny_fs = terminal.extend (threads.extend boot_threads (terminal.fields mutex_init []))
     (fs.fields (\<lambda>_ l. if l = 5 then take 512 (inode_bytes (inode_init 0) @ inode_bytes (inode_init 1) @ replicate 360 0) else replicate 512 0)
       (\<lambda>_. tiny_part) 1 [64 \<mapsto> (inode_init 0)\<lparr>i_open_cnt := 1, i_size := 48\<rparr>] (\<lambda>_. None) 2
       (replicate 32 \<lparr>fd_pos = 0, fd_flag = 0, fd_inode = NULL\<rparr>) (\<lambda>_. None)
       \<lparr>ctrl_status = False, shift_status = False, alt_status = False, capslock_status = False,
        ext_scancode = False, kbd_buf = ioqueue_init (replicate 64 0)\<rparr>
       [128, 192, 256, 320] [(NULL, 64)] 1 (\<lambda>_ _. 7) (\<lambda>_ _. 1) (\<lambda>_. []) [1] 0 0 0 (\<lambda>_. 0))"

lemma tiny_simps [simp]:
  "disk tiny_fs = (\<lambda>_ l. if l = 5 then take 512 (inode_bytes (inode_init 0) @ inode_bytes (inode_init 1) @ replicate 360 0) else replicate 512 0)"
  "partitions tiny_fs = (\<lambda>_. tiny_part)" "current_partition tiny_fs = 1"
  "inodes tiny_fs = [64 \<mapsto> (inode_init 0)\<lparr>i_open_cnt := 1, i_size := 48\<rparr>]" "dirs tiny_fs = (\<lambda>_. None)"
  "heap_next tiny_fs = [128, 192, 256, 320]" "live tiny_fs = [(NULL, 64)]"
  by (simp_all add: tiny_fs_def fs.defs terminal.defs)

lemma tiny_table: "table_ok tiny_fs 1"
proof -
  have "5 + of_nat j \<le> (2000 :: u32)" if "j \<le> 608" for j
    using that by (simp add: word_le_nat_alt unat_word_ariths unat_of_nat)
  then have "5 + of_nat j \<le> max_lba \<and> 5 + of_nat j \<le> (5001 :: u32)" if "j \<le> 608" for j
    using that order_trans [of "5 + of_nat j" 2000 max_lba] order_trans [of "5 + of_nat j" 2000 "5001 :: u32"]
    by (simp add: max_lba_def)
  then show ?thesis
    by (simp add: table_ok_def Let_def tiny_part_def disk_ok_def inode_init_def)
qed

lemma tiny_opens: "opens_ok tiny_fs"
  by (simp add: opens_ok_def tiny_part_def Let_def)

lemma inode_open_close_witness:
  "\<exists>c i s1. inode_open 1 1 tiny_fs = Inr (c, s1) \<and> inodes s1 c = Some i \<and> c = 128 \<and> i_open_cnt i = 1 \<and>
    (\<exists>s2. inode_close c s1 = Inr s2 \<and> s2 = tiny_fs\<lparr>heap_next := heap_next s2\<rparr>)"
proof -
  have "open_as tiny_fs 1 = None" by (simp add: open_as_def tiny_part_def inode_init_def)
  moreover have "fresh 128 tiny_fs" "fresh 192 tiny_fs" by (simp_all add: fresh_def)
  ultimately obtain s1 i where "inode_open 1 1 tiny_fs = Inr (128, s1)" "inodes s1 128 = Some i"
      "i_open_cnt i = 1" "\<exists>s2. inode_close 128 s1 = Inr s2 \<and> s2 = tiny_fs\<lparr>heap_next := heap_next s2\<rparr>"
    using inode_open_close [of tiny_fs 1 128 192 "[256, 320]"] tiny_table tiny_opens
    by (auto simp: crosses_def)
  then show ?thesis by blast
qed

lemma inode_sync_exact_witness:
  "\<exists>s'. inode_sync 1 ((inode_init 1)\<lparr>i_size := 5\<rparr>) (replicate 1024 0) tiny_fs = Inr s' \<and>
    table_byte s' 1 80 = 5 \<and> table_byte s' 1 0 = table_byte tiny_fs 1 0"
proof -
  let ?i = "(inode_init 1)\<lparr>i_size := 5\<rparr>"
  have "inode_bytes (on_disk ?i) ! 4 = 5"
    by (simp add: inode_bytes_def on_disk_def inode_init_def le32_def)
  then show ?thesis
    using inode_sync_exact [of tiny_fs 1 ?i "replicate 1024 0" 1] tiny_table
    by (auto simp: inode_init_def)
qed

end
