(* ===== verification/Directory.thy ===== *)
theory Directory
  imports Inode Paths
begin

text \<open>
  \<open>fs/dir.c\<close>: opening and closing directories, and searching, adding, deleting and reading the
  entries in their blocks. An entry in a sector buffer is its index; strings in a buffer are the
  bytes from there to the end of the buffer, as the C string functions see them.
\<close>

section \<open>Opening and closing\<close>

definition open_root_dir :: "addr \<Rightarrow> 'a fs_scheme \<Rightarrow> 'a fs_scheme res" where
  "open_root_dir p s =
     bindE (inode_open p (root_inode_no (sb (partitions s p))) s) (\<lambda>(a, s).
     bindE (dir_at (root_dir s) s) (\<lambda>d.
       Inr (set_dir (root_dir s) (d\<lparr>dir_inode := a, dir_pos := 0\<rparr>) s)))"

definition dir_open :: "addr \<Rightarrow> u32 \<Rightarrow> 'a fs_scheme \<Rightarrow> (addr \<times> 'a fs_scheme) res" where
  "dir_open p inode_no s =
     (case kmalloc 520 s of (pdir, _, s) \<Rightarrow>
      bindE (inode_open p inode_no s) (\<lambda>(a, s).
        if pdir = NULL then Inl Bad_access
        else Inr (pdir, set_dir pdir \<lparr>dir_inode = a, dir_pos = 0, dir_buf = replicate 512 0\<rparr> s)))"

definition dir_close :: "addr \<Rightarrow> 'a fs_scheme \<Rightarrow> 'a fs_scheme res" where
  "dir_close d s =
     (if d = root_dir s then Inr s
      else bindE (dir_at d s) (\<lambda>dir. bindE (inode_close (dir_inode dir) s) (kfree d)))"

section \<open>Entries\<close>

text \<open>The bytes \<open>de\<close> points to, with the new fields.\<close>

definition create_dir_entry :: "u8 list \<Rightarrow> u32 \<Rightarrow> u32 \<Rightarrow> u8 list \<Rightarrow> u8 list res" where
  "create_dir_entry fname inode_no file_type de =
     bindE (strlen (Some fname)) (\<lambda>n.
     asserting (n \<le> MAX_FILE_NAME_LEN)
     (bindE (memcpy (Some de) (Some fname) n) (\<lambda>de.
      bindE (memcpy_at de 16 (le32 inode_no) 4) (\<lambda>de. memcpy_at de 20 (le32 (file_type AND 0xFF)) 4))))"

definition entry_at :: "u8 list \<Rightarrow> nat \<Rightarrow> dir_entry res" where
  "entry_at mem k = (if 24 * k + 24 \<le> length mem then Inr (dir_entry_of (drop (24 * k) mem)) else Inl Bad_access)"

text \<open>\<open>SECTOR_SIZE / dir_entry_size\<close>; a division by 0 ends in the exception handler.\<close>

definition dir_entry_per_sec :: "u32 \<Rightarrow> nat res" where
  "dir_entry_per_sec entry_size = (if entry_size = 0 then Inl Panicked else Inr (SECTOR_SIZE div unat entry_size))"

definition entry_size :: "addr \<Rightarrow> 'a fs_scheme \<Rightarrow> u32" where
  "entry_size p s = dir_entry_size (sb (partitions s p))"

section \<open>Deleting an entry\<close>

text \<open>
  The loop over the entries of one block: the entry found, the entries counted up to there, and
  whether \<open>.\<close> was among them.
\<close>

fun delete_scan :: "u32 \<Rightarrow> u8 list \<Rightarrow> nat \<Rightarrow> nat \<Rightarrow> nat \<Rightarrow> bool \<Rightarrow> (nat option \<times> nat \<times> bool) res" where
  "delete_scan inode_no mem 0 idx cnt is_first = Inr (None, cnt, is_first)"
| "delete_scan inode_no mem (Suc n) idx cnt is_first =
     bindE (entry_at mem idx) (\<lambda>de.
     if f_type de \<noteq> FT_UNKNOW then
       bindE (strcmp (Some (drop (24 * idx) mem)) (Some (lit ''.''))) (\<lambda>dot.
       if dot = 0 then delete_scan inode_no mem n (Suc idx) cnt True
       else bindE (strcmp (Some (drop (24 * idx) mem)) (Some (lit ''..''))) (\<lambda>dots.
         if dots \<noteq> 0 then
           if de_i_no de = inode_no then Inr (Some idx, Suc cnt, is_first)
           else delete_scan inode_no mem n (Suc idx) (Suc cnt) is_first
         else delete_scan inode_no mem n (Suc idx) cnt is_first))
     else delete_scan inode_no mem n (Suc idx) cnt is_first)"

text \<open>
  The loop that is meant to count the blocks of the indirect table: it moves on at a block in use
  without counting it, and stays for ever at the first free one.
\<close>

fun count_indirect :: "u32 list \<Rightarrow> nat res" where
  "count_indirect [] = Inr 0"
| "count_indirect (lba # rest) = (if lba \<noteq> 0 then count_indirect rest else Inl No_return)"

definition delete_block ::
  "addr \<Rightarrow> addr \<Rightarrow> u32 list \<Rightarrow> nat \<Rightarrow> 'a fs_scheme \<Rightarrow> 'a fs_scheme res" where
  "delete_block p di blocks block_idx s =
     (let bitmap_idx = blocks ! block_idx - block_bitmap_lba (sb (partitions s p)) in
      bindE (bitmap_set (block_bitmap (partitions s p)) (unat bitmap_idx) 0) (\<lambda>b.
      bindE (bitmap_sync (current_partition s) bitmap_idx BLOCK_BITMAP
               (upd_part p (\<lambda>q. q\<lparr>block_bitmap := b\<rparr>) s)) (\<lambda>s.
      bindE (inode_at di s) (\<lambda>i.
      if block_idx < 12 then Inr (set_inode di (i\<lparr>i_sectors := (i_sectors i)[block_idx := 0]\<rparr>) s)
      else bindE (count_indirect (drop 12 blocks)) (\<lambda>indirect_blocks.
        asserting (indirect_blocks \<ge> 1)
        (if indirect_blocks > 1 then
           ide_write_table (my_disk (partitions s p)) (i_sectors i ! 12) (blocks[block_idx := 0]) s
         else
           let bitmap_idx = i_sectors i ! 12 - data_start_lba (sb (partitions s p)) in
           bindE (bitmap_set (block_bitmap (partitions s p)) (unat bitmap_idx) 0) (\<lambda>b.
           bindE (bitmap_sync p bitmap_idx BLOCK_BITMAP (upd_part p (\<lambda>q. q\<lparr>block_bitmap := b\<rparr>) s)) (\<lambda>s.
             Inr (set_inode di (i\<lparr>i_sectors := (i_sectors i)[12 := 0]\<rparr>) s)))))))))"

text \<open>What follows once the entry \<open>k\<close> of the block \<open>block_idx\<close> is found.\<close>

definition delete_found ::
  "addr \<Rightarrow> addr \<Rightarrow> u32 list \<Rightarrow> nat \<Rightarrow> u8 list \<Rightarrow> nat \<Rightarrow> nat \<Rightarrow> bool \<Rightarrow> 'a fs_scheme \<Rightarrow> 'a fs_scheme res" where
  "delete_found p di blocks block_idx mem k cnt is_first s =
     asserting (cnt \<ge> 1)
     (bindE
       (if cnt = 1 \<and> \<not> is_first then delete_block p di blocks block_idx s
        else bindE (memset_at mem (24 * k) 0 (unat (entry_size p s))) (\<lambda>mem.
          ide_write (my_disk (partitions s p)) (blocks ! block_idx) mem 1 s)) (\<lambda>s.
      bindE (inode_at di s) (\<lambda>i.
      asserting (i_size i \<ge> entry_size p s)
      (let i = i\<lparr>i_size := i_size i - entry_size p s\<rparr>; s = set_inode di i s in
       bindE (memset (Some mem) 0 (SECTOR_SIZE * 2)) (\<lambda>mem. inode_sync p i mem s)))))"

fun delete_blocks ::
  "addr \<Rightarrow> addr \<Rightarrow> u32 \<Rightarrow> nat \<Rightarrow> u32 list \<Rightarrow> nat \<Rightarrow> nat \<Rightarrow> u8 list \<Rightarrow> 'a fs_scheme \<Rightarrow> (bool \<times> 'a fs_scheme) res" where
  "delete_blocks p di inode_no per_sec blocks 0 block_idx mem s = Inr (False, s)"
| "delete_blocks p di inode_no per_sec blocks (Suc n) block_idx mem s =
     (if blocks ! block_idx = 0 then delete_blocks p di inode_no per_sec blocks n (Suc block_idx) mem s
      else
        bindE (memset (Some mem) 0 SECTOR_SIZE) (\<lambda>mem.
        bindE (ide_read (my_disk (partitions s p)) (blocks ! block_idx) mem 1 s) (\<lambda>mem.
        bindE (delete_scan inode_no mem per_sec 0 0 False) (\<lambda>(found, cnt, is_first).
        case found of
          None \<Rightarrow> delete_blocks p di inode_no per_sec blocks n (Suc block_idx) mem s
        | Some k \<Rightarrow>
            bindE (delete_found p di blocks block_idx mem k cnt is_first s) (\<lambda>s. Inr (True, s))))))"

definition delete_dir_entry ::
  "addr \<Rightarrow> addr \<Rightarrow> u32 \<Rightarrow> u8 list \<Rightarrow> 'a fs_scheme \<Rightarrow> (bool \<times> 'a fs_scheme) res" where
  "delete_dir_entry p d inode_no io_buf s =
     bindE (dir_at d s) (\<lambda>dir.
     bindE (inode_at (dir_inode dir) s) (\<lambda>i.
     bindE (all_blocks (my_disk (partitions s p)) i s) (\<lambda>blocks.
     bindE (dir_entry_per_sec (entry_size p s)) (\<lambda>per_sec.
       delete_blocks p (dir_inode dir) inode_no per_sec blocks 140 0 io_buf s))))"

section \<open>Searching an entry\<close>

text \<open>The index of the first entry of a block with the name.\<close>

fun search_entries :: "u8 list \<Rightarrow> u8 list \<Rightarrow> nat \<Rightarrow> nat \<Rightarrow> nat option res" where
  "search_entries fname mem 0 idx = Inr None"
| "search_entries fname mem (Suc n) idx =
     bindE (strcmp (Some (drop (24 * idx) mem)) (Some fname)) (\<lambda>r.
     if r = 0 then Inr (Some idx) else search_entries fname mem n (Suc idx))"

fun search_blocks ::
  "addr \<Rightarrow> u8 list \<Rightarrow> nat \<Rightarrow> u32 list \<Rightarrow> u8 list \<Rightarrow> 'a fs_scheme \<Rightarrow> (u8 list \<times> nat) option res" where
  "search_blocks hdisk fname per_sec [] mem s = Inr None"
| "search_blocks hdisk fname per_sec (lba # rest) mem s =
     (if lba = 0 then search_blocks hdisk fname per_sec rest mem s
      else
        bindE (ide_read hdisk lba mem 1 s) (\<lambda>mem.
        bindE (search_entries fname mem per_sec 0) (\<lambda>r.
        case r of
          Some k \<Rightarrow> Inr (Some (mem, k))
        | None \<Rightarrow> bindE (memset (Some mem) 0 SECTOR_SIZE) (\<lambda>mem.
            search_blocks hdisk fname per_sec rest mem s))))"

text \<open>The entry found is copied to \<open>dir_e\<close>.\<close>

definition search_dir_entry ::
  "addr \<Rightarrow> addr \<Rightarrow> u8 list \<Rightarrow> u8 list \<Rightarrow> 'a fs_scheme \<Rightarrow> (bool \<times> u8 list \<times> 'a fs_scheme) res" where
  "search_dir_entry p d fname dir_e s =
     (case kmalloc (48 + 512) s of (lbas, mem, s) \<Rightarrow>
      bindE (memset (ptr lbas mem) 0 (48 + 512)) (\<lambda>_.
      bindE (dir_at d s) (\<lambda>dir.
      bindE (inode_at (dir_inode dir) s) (\<lambda>i.
      bindE (all_blocks (my_disk (partitions s p)) i s) (\<lambda>blocks.
      case kmalloc SECTOR_SIZE s of (b, mem, s) \<Rightarrow>
      bindE (dir_entry_per_sec (entry_size p s)) (\<lambda>per_sec.
      bindE (search_blocks (my_disk (partitions s p)) fname per_sec blocks mem s) (\<lambda>r.
      bindE (case r of
          None \<Rightarrow> Inr (False, dir_e)
        | Some (mem, k) \<Rightarrow>
            bindE (memcpy (Some dir_e) (Some (drop (24 * k) mem)) (unat (entry_size p s)))
              (\<lambda>dir_e. Inr (True, dir_e))) (\<lambda>(found, dir_e).
      bindE (kfree b s) (\<lambda>s. bindE (kfree lbas s) (\<lambda>s. Inr (found, dir_e, s)))))))))))"

section \<open>Adding an entry\<close>

definition grow_dir :: "addr \<Rightarrow> 'a fs_scheme \<Rightarrow> 'a fs_scheme res" where
  "grow_dir di s =
     bindE (inode_at di s) (\<lambda>i.
       Inr (set_inode di (i\<lparr>i_size := i_size i + entry_size (current_partition s) s\<rparr>) s))"

text \<open>A block for the directory, and where its number is kept; \<open>None\<close> if the disk is full.\<close>

definition add_block ::
  "addr \<Rightarrow> u32 list \<Rightarrow> nat \<Rightarrow> u32 \<Rightarrow> 'a fs_scheme \<Rightarrow> (u32 list option \<times> 'a fs_scheme) res" where
  "add_block di blocks block_idx lba s =
     (let p = current_partition s; data_start = data_start_lba (sb (partitions s p));
          hdisk = my_disk (partitions s p) in
      bindE (inode_at di s) (\<lambda>i.
      if block_idx < 12 then
        Inr (Some (blocks[block_idx := lba]), set_inode di (i\<lparr>i_sectors := (i_sectors i)[block_idx := lba]\<rparr>) s)
      else if block_idx = 12 then
        let s = set_inode di (i\<lparr>i_sectors := (i_sectors i)[12 := lba]\<rparr>) s in
        bindE (block_bitmap_alloc p s) (\<lambda>(lba2, s).
        if lba2 = - 1 then
          bindE (bitmap_set (block_bitmap (partitions s p)) (unat (lba - data_start)) 0) (\<lambda>b.
            Inr (None, set_inode di (i\<lparr>i_sectors := (i_sectors i)[12 := 0]\<rparr>)
                         (upd_part p (\<lambda>q. q\<lparr>block_bitmap := b\<rparr>) s)))
        else
          asserting (lba2 - data_start \<noteq> - 1)
          (bindE (bitmap_sync p (lba2 - data_start) BLOCK_BITMAP s) (\<lambda>s.
           bindE (ide_write_table hdisk lba (blocks[12 := lba2]) s) (\<lambda>s.
             Inr (Some (blocks[12 := lba2]), s)))))
      else
        bindE (ide_write_table hdisk (i_sectors i ! 12) (blocks[block_idx := lba]) s) (\<lambda>s.
          Inr (Some (blocks[block_idx := lba]), s))))"

definition sync_new_block ::
  "addr \<Rightarrow> u8 list \<Rightarrow> u32 list \<Rightarrow> nat \<Rightarrow> u8 list \<Rightarrow> 'a fs_scheme \<Rightarrow> (bool \<times> 'a fs_scheme) res" where
  "sync_new_block di de blocks block_idx io_buf s =
     (let p = current_partition s; data_start = data_start_lba (sb (partitions s p)) in
      bindE (block_bitmap_alloc p s) (\<lambda>(lba, s).
      if lba = - 1 then Inr (False, s)
      else
        asserting (lba - data_start \<noteq> - 1)
        (bindE (bitmap_sync p (lba - data_start) BLOCK_BITMAP s) (\<lambda>s.
         bindE (add_block di blocks block_idx lba s) (\<lambda>(r, s).
         case r of
           None \<Rightarrow> Inr (False, s)
         | Some blocks \<Rightarrow>
             bindE (memset (Some io_buf) 0 512) (\<lambda>io_buf.
             bindE (memcpy (Some io_buf) (Some de) (unat (entry_size p s))) (\<lambda>io_buf.
             bindE (ide_write (my_disk (partitions s p)) (blocks ! block_idx) io_buf 1 s) (\<lambda>s.
             bindE (grow_dir di s) (\<lambda>s. Inr (True, s))))))))))"

fun free_slot :: "u8 list \<Rightarrow> nat \<Rightarrow> nat \<Rightarrow> nat option res" where
  "free_slot mem 0 idx = Inr None"
| "free_slot mem (Suc n) idx =
     bindE (entry_at mem idx) (\<lambda>de. if f_type de = FT_UNKNOW then Inr (Some idx) else free_slot mem n (Suc idx))"

fun sync_blocks ::
  "addr \<Rightarrow> u8 list \<Rightarrow> nat \<Rightarrow> u32 list \<Rightarrow> nat \<Rightarrow> nat \<Rightarrow> u8 list \<Rightarrow> 'a fs_scheme \<Rightarrow> (bool \<times> 'a fs_scheme) res" where
  "sync_blocks di de per_sec blocks 0 block_idx io_buf s = Inr (False, s)"
| "sync_blocks di de per_sec blocks (Suc n) block_idx io_buf s =
     (let p = current_partition s; hdisk = my_disk (partitions s p) in
      if blocks ! block_idx = 0 then sync_new_block di de blocks block_idx io_buf s
      else
        bindE (ide_read hdisk (blocks ! block_idx) io_buf 1 s) (\<lambda>io_buf.
        bindE (free_slot io_buf per_sec 0) (\<lambda>r.
        case r of
          Some k \<Rightarrow>
            bindE (memcpy_at io_buf (24 * k) de (unat (entry_size p s))) (\<lambda>io_buf.
            bindE (ide_write hdisk (blocks ! block_idx) io_buf 1 s) (\<lambda>s.
            bindE (grow_dir di s) (\<lambda>s. Inr (True, s))))
        | None \<Rightarrow> sync_blocks di de per_sec blocks n (Suc block_idx) io_buf s)))"

text \<open>The direct blocks only: the indirect table is not read here.\<close>

definition sync_dir_entry ::
  "addr \<Rightarrow> u8 list \<Rightarrow> u8 list \<Rightarrow> 'a fs_scheme \<Rightarrow> (bool \<times> 'a fs_scheme) res" where
  "sync_dir_entry d de io_buf s =
     bindE (dir_at d s) (\<lambda>dir.
     bindE (inode_at (dir_inode dir) s) (\<lambda>i.
     bindE (dir_entry_per_sec (entry_size (current_partition s) s)) (\<lambda>per_sec.
     asserting (i_size i mod entry_size (current_partition s) s = 0)
     (sync_blocks (dir_inode dir) de per_sec (take 12 (i_sectors i) @ replicate 128 0) 140 0 io_buf s))))"

section \<open>Reading a directory\<close>

fun read_entries :: "u32 \<Rightarrow> u32 \<Rightarrow> u8 list \<Rightarrow> nat \<Rightarrow> nat \<Rightarrow> u32 \<Rightarrow> (nat option \<times> u32) res" where
  "read_entries esize dpos mem 0 idx cur_pos = Inr (None, cur_pos)"
| "read_entries esize dpos mem (Suc n) idx cur_pos =
     bindE (entry_at mem idx) (\<lambda>de.
     if f_type de \<noteq> FT_UNKNOW then
       if cur_pos < dpos then read_entries esize dpos mem n (Suc idx) (cur_pos + esize)
       else asserting (cur_pos = dpos) (Inr (Some idx, cur_pos))
     else read_entries esize dpos mem n (Suc idx) cur_pos)"

text \<open>The index of the entry in \<open>dir_buf\<close>. The loop does not stop behind the last of its 140 blocks.\<close>

fun read_blocks ::
  "addr \<Rightarrow> nat \<Rightarrow> u32 list \<Rightarrow> u32 \<Rightarrow> 'a fs_scheme \<Rightarrow> (nat option \<times> 'a fs_scheme) res" where
  "read_blocks d per_sec [] cur_pos s = Inl Bad_access"
| "read_blocks d per_sec (lba # rest) cur_pos s =
     (let p = current_partition s in
      if lba = 0 then read_blocks d per_sec rest cur_pos s
      else
        bindE (dir_at d s) (\<lambda>dir.
        bindE (memset (Some (dir_buf dir)) 0 SECTOR_SIZE) (\<lambda>mem.
        bindE (ide_read (my_disk (partitions s p)) lba mem 1 s) (\<lambda>mem.
        let dir = dir\<lparr>dir_buf := mem\<rparr>; s = set_dir d dir s in
        bindE (read_entries (entry_size p s) (dir_pos dir) mem per_sec 0 cur_pos) (\<lambda>(r, cur_pos).
        case r of
          Some k \<Rightarrow> Inr (Some k, set_dir d (dir\<lparr>dir_pos := dir_pos dir + entry_size p s\<rparr>) s)
        | None \<Rightarrow> read_blocks d per_sec rest cur_pos s)))))"

definition dir_read :: "addr \<Rightarrow> 'a fs_scheme \<Rightarrow> (nat option \<times> 'a fs_scheme) res" where
  "dir_read d s =
     bindE (dir_at d s) (\<lambda>dir.
     bindE (inode_at (dir_inode dir) s) (\<lambda>i.
     bindE (all_blocks (my_disk (partitions s (current_partition s))) i s) (\<lambda>blocks.
     bindE (dir_entry_per_sec (entry_size (current_partition s) s)) (\<lambda>per_sec.
       if dir_pos dir < i_size i then read_blocks d per_sec blocks 0 s else Inr (None, s)))))"

section \<open>Removing a directory\<close>

definition dir_is_empty :: "addr \<Rightarrow> 'a fs_scheme \<Rightarrow> bool res" where
  "dir_is_empty d s =
     bindE (dir_at d s) (\<lambda>dir.
     bindE (inode_at (dir_inode dir) s) (\<lambda>i. Inr (i_size i = entry_size (current_partition s) s * 2)))"

definition dir_remove :: "addr \<Rightarrow> addr \<Rightarrow> 'a fs_scheme \<Rightarrow> (int \<times> 'a fs_scheme) res" where
  "dir_remove parent_dir child_dir s =
     bindE (dir_at child_dir s) (\<lambda>child.
     bindE (inode_at (dir_inode child) s) (\<lambda>i.
     asserting (\<forall>lba \<in> set (take 11 (drop 1 (i_sectors i))). lba = 0)
     (case kmalloc (SECTOR_SIZE * 2) s of (b, io_buf, s) \<Rightarrow>
      if b = NULL then Inr (- 1, s)
      else
        bindE (delete_dir_entry (current_partition s) parent_dir (i_no i) io_buf s) (\<lambda>(_, s).
        bindE (inode_release (current_partition s) (i_no i) s) (\<lambda>s.
        bindE (kfree b s) (\<lambda>s. Inr (0, s)))))))"

end
