(* ===== verification/File_Ops.thy ===== *)
theory File_Ops
  imports Directory
begin

text \<open>
  The rest of \<open>fs/file.c\<close>: descriptors, creating, opening and closing files, and reading and
  writing their bytes. A pointer to an entry of \<open>file_table\<close> is its index.
\<close>

definition O_RDONLY :: u8 where "O_RDONLY = 0"
definition O_WRONLY :: u8 where "O_WRONLY = 1"
definition O_RDWD :: u8 where "O_RDWD = 2"
definition O_CREAT :: u8 where "O_CREAT = 4"

section \<open>Descriptors\<close>

fun first_free :: "nat \<Rightarrow> nat \<Rightarrow> file_desc list \<Rightarrow> nat res" where
  "first_free 0 fd_idx fds = Inr fd_idx"
| "first_free (Suc n) fd_idx fds =
     bindE (read_at fds fd_idx) (\<lambda>fd. if fd_inode fd = NULL then Inr fd_idx else first_free n (Suc fd_idx) fds)"

text \<open>The index, or \<open>-1\<close>.\<close>

definition get_free_slot_in_global :: "'a fs_scheme \<Rightarrow> int res" where
  "get_free_slot_in_global s =
     bindE (first_free (MAX_FILE_OPEN - 3) 3 (file_table s)) (\<lambda>fd_idx.
       Inr (if fd_idx = MAX_FILE_OPEN then - 1 else int fd_idx))"

fun first_minus1 :: "nat \<Rightarrow> nat \<Rightarrow> int list \<Rightarrow> nat res" where
  "first_minus1 0 i fds = Inr i"
| "first_minus1 (Suc n) i fds =
     bindE (read_at fds i) (\<lambda>fd. if fd = - 1 then Inr i else first_minus1 n (Suc i) fds)"

definition pcb_fd_install :: "int \<Rightarrow> 'a fs_scheme \<Rightarrow> (int \<times> 'a fs_scheme) res" where
  "pcb_fd_install globa_fd_idx s =
     (let cur = running_thread s in
      bindE (first_minus1 (MAX_FILE_OPEN_PER_PROC - 3) 3 (fd_table (tcbs s cur))) (\<lambda>local_fd_idx.
      if local_fd_idx = MAX_FILE_OPEN_PER_PROC then Inr (- 1, s)
      else Inr (int local_fd_idx,
        upd_tcb cur (\<lambda>t. t\<lparr>fd_table := (fd_table t)[local_fd_idx := globa_fd_idx]\<rparr>) s)))"

definition set_fd :: "nat \<Rightarrow> file_desc \<Rightarrow> 'a fs_scheme \<Rightarrow> 'a fs_scheme res" where
  "set_fd g fd s = bindE (write_at (file_table s) g fd) (\<lambda>fds. Inr (s\<lparr>file_table := fds\<rparr>))"

section \<open>Creating and opening\<close>

text \<open>
  The \<open>switch\<close> at \<open>rollback\<close>: step 3 falls through to 2 and 1. Step 1 alone leaves \<open>cur->pgdir\<close>
  at \<open>NULL\<close>, as \<open>file_create\<close> has not put it back then.
\<close>

definition create_rollback ::
  "nat \<Rightarrow> nat \<Rightarrow> addr \<Rightarrow> u32 \<Rightarrow> addr \<Rightarrow> addr \<Rightarrow> 'a fs_scheme \<Rightarrow> (int \<times> 'a fs_scheme) res" where
  "create_rollback step g node inode_no bk io_addr s =
     bindE (if step = 3 then set_fd g \<lparr>fd_pos = 0, fd_flag = 0, fd_inode = NULL\<rparr> s else Inr s) (\<lambda>s.
     bindE (if step \<ge> 2 then bindE (kfree node (set_pgdir NULL s)) (\<lambda>s. Inr (set_pgdir bk s))
            else Inr s) (\<lambda>s.
     bindE (bitmap_set (inode_bitmap (partitions s (current_partition s))) (unat inode_no) 0) (\<lambda>b.
     bindE (kfree io_addr (upd_part (current_partition s) (\<lambda>q. q\<lparr>inode_bitmap := b\<rparr>) s)) (\<lambda>s.
       Inr (- 1, s)))))"

text \<open>From the directory entry on: it is on disk, and the inodes and the descriptor follow.\<close>

definition create_finish ::
  "addr \<Rightarrow> nat \<Rightarrow> addr \<Rightarrow> u32 \<Rightarrow> addr \<Rightarrow> 'a fs_scheme \<Rightarrow> (int \<times> 'a fs_scheme) res" where
  "create_finish parent_dir g node inode_no io_addr s =
     (let p = current_partition s in
      bindE (dir_at parent_dir s) (\<lambda>dir.
      bindE (inode_at (dir_inode dir) s) (\<lambda>pi.
      bindE (inode_sync p pi (replicate 1024 0) s) (\<lambda>s.
      bindE (inode_at node s) (\<lambda>i.
      bindE (inode_sync p i (replicate 1024 0) s) (\<lambda>s.
      bindE (bitmap_sync p inode_no INODE_BITMAP s) (\<lambda>s.
      let s = set_inode node (i\<lparr>i_open_cnt := 1\<rparr>) (upd_part p (\<lambda>q. q\<lparr>open_inodes := node # open_inodes q\<rparr>) s) in
      bindE (kfree io_addr s) (\<lambda>s. pcb_fd_install (int g) s))))))))"

definition file_create ::
  "addr \<Rightarrow> u8 list \<Rightarrow> u8 \<Rightarrow> 'a fs_scheme \<Rightarrow> (int \<times> 'a fs_scheme) res" where
  "file_create parent_dir fname flag s =
     (case kmalloc 1024 s of (io_addr, io_buf, s) \<Rightarrow>
      if io_addr = NULL then Inr (- 1, s)
      else bindE (inode_bitmap_alloc (current_partition s) s) (\<lambda>(inode_no, s).
      if inode_no = - 1 then Inr (- 1, s)
      else
        let bk = space s in
        case kmalloc 76 (set_pgdir NULL s) of (node, _, s) \<Rightarrow>
        if node = NULL then create_rollback 1 0 node inode_no bk io_addr s
        else
          let s = set_pgdir bk (set_inode node (inode_init inode_no) s) in
          bindE (get_free_slot_in_global s) (\<lambda>global_fd_idx.
          if global_fd_idx = - 1 then create_rollback 2 0 node inode_no bk io_addr s
          else
            let g = nat global_fd_idx in
            bindE (set_fd g \<lparr>fd_pos = 0, fd_flag = ucast flag, fd_inode = node\<rparr> s) (\<lambda>s.
            bindE (create_dir_entry fname inode_no FT_REGULAR (replicate 24 0)) (\<lambda>de.
            bindE (sync_dir_entry parent_dir de io_buf s) (\<lambda>(synced, s).
            if \<not> synced then create_rollback 3 g node inode_no bk io_addr s
            else create_finish parent_dir g node inode_no io_addr s))))))"

definition file_open :: "u32 \<Rightarrow> u8 \<Rightarrow> 'a fs_scheme \<Rightarrow> (int \<times> 'a fs_scheme) res" where
  "file_open inode_no flag s =
     bindE (get_free_slot_in_global s) (\<lambda>fd_idx.
     if fd_idx = - 1 then Inr (- 1, s)
     else bindE (inode_open (current_partition s) inode_no s) (\<lambda>(a, s).
     bindE (set_fd (nat fd_idx) \<lparr>fd_pos = 0, fd_flag = ucast flag, fd_inode = a\<rparr> s) (\<lambda>s.
     if flag AND O_WRONLY \<noteq> 0 \<or> flag AND O_RDWD \<noteq> 0 then
       case intr_disable s of (old_status, s) \<Rightarrow>
       bindE (inode_at a s) (\<lambda>i.
       if \<not> write_deny i then
         pcb_fd_install fd_idx (intr_set_status old_status (set_inode a (i\<lparr>write_deny := True\<rparr>) s))
       else Inr (- 1, intr_set_status old_status s))
     else pcb_fd_install fd_idx s)))"

definition file_close :: "nat \<Rightarrow> 'a fs_scheme \<Rightarrow> (int \<times> 'a fs_scheme) res" where
  "file_close g s =
     bindE (read_at (file_table s) g) (\<lambda>fd.
     bindE (inode_at (fd_inode fd) s) (\<lambda>i.
     bindE (inode_close (fd_inode fd) (set_inode (fd_inode fd) (i\<lparr>write_deny := False\<rparr>) s)) (\<lambda>s.
     bindE (set_fd g (fd\<lparr>fd_inode := NULL\<rparr>) s) (\<lambda>s. Inr (0, s)))))"

section \<open>Writing\<close>

text \<open>A new block, with its bit on disk; \<open>None\<close> if there is none.\<close>

definition take_new_block :: "'a fs_scheme \<Rightarrow> (u32 option \<times> 'a fs_scheme) res" where
  "take_new_block s =
     (let p = current_partition s in
      bindE (block_bitmap_alloc p s) (\<lambda>(lba, s).
      if lba = - 1 then Inr (None, s)
      else bindE (bitmap_sync p (lba - data_start_lba (sb (partitions s p))) BLOCK_BITMAP s) (\<lambda>s.
        Inr (Some lba, s))))"

text \<open>
  The three loops that add blocks to a file. Each ends early with \<open>None\<close> when the disk is full. The
  second tests the number of the new block, not its place in the file, against 12.
\<close>

fun add_direct :: "nat \<Rightarrow> nat \<Rightarrow> addr \<Rightarrow> u32 list \<Rightarrow> 'a fs_scheme \<Rightarrow> (u32 list option \<times> 'a fs_scheme) res" where
  "add_direct 0 block_idx a blocks s = Inr (Some blocks, s)"
| "add_direct (Suc n) block_idx a blocks s =
     bindE (take_new_block s) (\<lambda>(r, s).
     case r of
       None \<Rightarrow> Inr (None, s)
     | Some lba \<Rightarrow>
         bindE (inode_at a s) (\<lambda>i.
         asserting (i_sectors i ! block_idx = 0)
         (add_direct n (Suc block_idx) a (blocks[block_idx := lba])
            (set_inode a (i\<lparr>i_sectors := (i_sectors i)[block_idx := lba]\<rparr>) s))))"

fun add_mixed :: "nat \<Rightarrow> nat \<Rightarrow> addr \<Rightarrow> u32 list \<Rightarrow> 'a fs_scheme \<Rightarrow> (u32 list option \<times> 'a fs_scheme) res" where
  "add_mixed 0 block_idx a blocks s = Inr (Some blocks, s)"
| "add_mixed (Suc n) block_idx a blocks s =
     (let p = current_partition s in
      bindE (block_bitmap_alloc p s) (\<lambda>(lba, s).
      if lba = - 1 then Inr (None, s)
      else
        bindE
          (if sint lba < 12 then
             bindE (inode_at a s) (\<lambda>i.
             bindE (read_at (i_sectors i) block_idx) (\<lambda>old.
             asserting (old = 0) (Inr (set_inode a (i\<lparr>i_sectors := (i_sectors i)[block_idx := lba]\<rparr>) s))))
           else Inr s) (\<lambda>s.
        bindE (bitmap_sync p (lba - data_start_lba (sb (partitions s p))) BLOCK_BITMAP s) (\<lambda>s.
          add_mixed n (Suc block_idx) a (blocks[block_idx := lba]) s))))"

fun add_indirect :: "nat \<Rightarrow> nat \<Rightarrow> u32 list \<Rightarrow> 'a fs_scheme \<Rightarrow> (u32 list option \<times> 'a fs_scheme) res" where
  "add_indirect 0 block_idx blocks s = Inr (Some blocks, s)"
| "add_indirect (Suc n) block_idx blocks s =
     bindE (take_new_block s) (\<lambda>(r, s).
     case r of
       None \<Rightarrow> Inr (None, s)
     | Some lba \<Rightarrow> add_indirect n (Suc block_idx) (blocks[block_idx := lba]) s)"

text \<open>
  \<open>all_blocks_lba\<close> for a write to the file with inode \<open>a\<close>, which uses \<open>used\<close> blocks and is going to
  use \<open>will\<close>. The array comes cleared from the heap.
\<close>

definition blocks_for_write ::
  "addr \<Rightarrow> nat \<Rightarrow> nat \<Rightarrow> 'a fs_scheme \<Rightarrow> (u32 list option \<times> 'a fs_scheme) res" where
  "blocks_for_write a used will s =
     (let p = current_partition s; hdisk = my_disk (partitions s p); blocks = replicate 140 0;
          add_blocks = (of_nat will - of_nat used :: u32) in
      bindE (inode_at a s) (\<lambda>i.
      if add_blocks = 0 then
        if will \<le> 12 then Inr (Some (blocks[used - 1 := i_sectors i ! (used - 1)]), s)
        else
          asserting (i_sectors i ! 12 \<noteq> 0)
          (bindE (ide_read_table hdisk (i_sectors i ! 12) blocks s) (\<lambda>blocks. Inr (Some blocks, s)))
      else if will \<le> 12 then
        bindE (read_at (i_sectors i) (used - 1)) (\<lambda>lba.
        asserting (lba \<noteq> 0)
        (add_direct (will - used) used a (blocks[used - 1 := lba]) s))
      else if used \<le> 12 then
        let blocks = blocks[used - 1 := i_sectors i ! (used - 1)] in
        bindE (block_bitmap_alloc p s) (\<lambda>(lba, s).
        if lba = - 1 then Inr (None, s)
        else
          asserting (i_sectors i ! 12 = 0)
          (bindE (add_mixed (will - used) used a blocks
                    (set_inode a (i\<lparr>i_sectors := (i_sectors i)[12 := lba]\<rparr>) s)) (\<lambda>(r, s).
           case r of
             None \<Rightarrow> Inr (None, s)
           | Some blocks \<Rightarrow> bindE (ide_write_table hdisk lba blocks s) (\<lambda>s. Inr (Some blocks, s))))
      )
      else
        asserting (i_sectors i ! 12 \<noteq> 0)
        (bindE (ide_read_table hdisk (i_sectors i ! 12) blocks s) (\<lambda>blocks.
         bindE (add_indirect (will - used) used blocks s) (\<lambda>(r, s).
         case r of
           None \<Rightarrow> Inr (None, s)
         | Some blocks \<Rightarrow>
             bindE (ide_write_table hdisk (i_sectors i ! 12) blocks s) (\<lambda>s. Inr (Some blocks, s)))))))"

text \<open>The loop that writes the bytes, block by block; the first block is read before.\<close>

function write_loop ::
  "nat \<Rightarrow> u32 list \<Rightarrow> u8 list \<Rightarrow> nat \<Rightarrow> bool \<Rightarrow> u8 list \<Rightarrow> 'a fs_scheme \<Rightarrow> 'a fs_scheme res" where
  "write_loop g blocks src size_left is_first io_buf s =
     (if size_left = 0 then Inr s
      else
        bindE (read_at (file_table s) g) (\<lambda>fd.
        bindE (inode_at (fd_inode fd) s) (\<lambda>i.
        bindE (memset (Some io_buf) 0 BLOCK_SIZE) (\<lambda>io_buf.
        let sec_off_bytes = unat (i_size i) mod BLOCK_SIZE;
            sec_left_bytes = BLOCK_SIZE - sec_off_bytes;
            chunk_size = (if size_left < sec_left_bytes then size_left else sec_left_bytes);
            hdisk = my_disk (partitions s (current_partition s)) in
        bindE (read_at blocks (unat (i_size i) div BLOCK_SIZE)) (\<lambda>lba.
        bindE (if is_first then ide_read hdisk lba io_buf 1 s else Inr io_buf) (\<lambda>io_buf.
        bindE (memcpy_at io_buf sec_off_bytes src chunk_size) (\<lambda>io_buf.
        bindE (ide_write hdisk lba io_buf 1 s) (\<lambda>s.
        bindE (set_fd g (fd\<lparr>fd_pos := fd_pos fd + of_nat chunk_size\<rparr>)
                 (set_inode (fd_inode fd) (i\<lparr>i_size := i_size i + of_nat chunk_size\<rparr>) s)) (\<lambda>s.
          write_loop g blocks (drop chunk_size src) (size_left - chunk_size) False io_buf s)))))))))"
  by pat_completeness auto
termination
  by (relation "measure (\<lambda>(g, blocks, src, size_left, _). size_left)") (auto simp: SECTOR_SIZE_def)

declare write_loop.simps [simp del]

definition write_data ::
  "nat \<Rightarrow> u8 list \<Rightarrow> u32 \<Rightarrow> addr \<Rightarrow> addr \<Rightarrow> u8 list \<Rightarrow> u32 list \<Rightarrow> 'a fs_scheme \<Rightarrow> (int \<times> 'a fs_scheme) res" where
  "write_data g src cnt io_addr lbas io_buf blocks s =
     bindE (read_at (file_table s) g) (\<lambda>fd.
     bindE (inode_at (fd_inode fd) s) (\<lambda>i.
     bindE (set_fd g (fd\<lparr>fd_pos := i_size i - 1\<rparr>) s) (\<lambda>s.
     bindE (write_loop g blocks src (unat cnt) True io_buf s) (\<lambda>s.
     case kmalloc (BLOCK_SIZE * 2) s of (b, inode_buf, s) \<Rightarrow>
     bindE
       (if b = NULL then Inr s
        else bindE (inode_at (fd_inode fd) s) (\<lambda>i.
          bindE (inode_sync (current_partition s) i inode_buf s) (kfree b))) (\<lambda>s.
     bindE (kfree lbas s) (\<lambda>s. bindE (kfree io_addr s) (\<lambda>s. Inr (sint cnt, s))))))))"

text \<open>An empty file gets its first block; \<open>False\<close> if there is none.\<close>

definition take_first_block :: "addr \<Rightarrow> inode \<Rightarrow> 'a fs_scheme \<Rightarrow> (bool \<times> 'a fs_scheme) res" where
  "take_first_block a i s =
     (if i_sectors i ! 0 = 0 then
        let p = current_partition s in
        bindE (block_bitmap_alloc p s) (\<lambda>(lba, s).
        if lba = - 1 then Inr (False, s)
        else
          let bitmap_idx = lba - data_start_lba (sb (partitions s p)) in
          asserting (bitmap_idx \<noteq> 0)
          (bindE (bitmap_sync p bitmap_idx BLOCK_BITMAP
             (set_inode a (i\<lparr>i_sectors := (i_sectors i)[0 := lba]\<rparr>) s)) (\<lambda>s. Inr (True, s))))
      else Inr (True, s))"

definition file_write ::
  "nat \<Rightarrow> u8 list \<Rightarrow> u32 \<Rightarrow> 'a fs_scheme \<Rightarrow> (int \<times> 'a fs_scheme) res" where
  "file_write g src cnt s =
     bindE (read_at (file_table s) g) (\<lambda>fd.
     bindE (inode_at (fd_inode fd) s) (\<lambda>i.
     if i_size i + cnt > (12 + 512 div 4) * 512 then Inr (- 1, s)
     else case kmalloc BLOCK_SIZE s of (io_addr, io_buf, s) \<Rightarrow>
     if io_addr = NULL then Inr (- 1, s)
     else case kmalloc (BLOCK_SIZE + 48) s of (lbas, _, s) \<Rightarrow>
     if lbas = NULL then Inr (- 1, s)
     else
       bindE (take_first_block (fd_inode fd) i s) (\<lambda>(go_on, s).
       if \<not> go_on then Inr (- 1, s)
       else
         let used = unat (i_size i div 512 + 1); will = unat ((i_size i + cnt) div 512 + 1) in
         asserting (will \<le> 140)
         (bindE (blocks_for_write (fd_inode fd) used will s) (\<lambda>(r, s).
          case r of
            None \<Rightarrow> Inr (- 1, s)
          | Some blocks \<Rightarrow> write_data g src cnt io_addr lbas io_buf blocks s)))))"

section \<open>Reading\<close>

text \<open>
  \<open>all_blocks_lba\<close> for reading the blocks \<open>start_idx\<close> to \<open>end_idx\<close>. When there are several and all are
  behind the direct blocks, no case applies and the array stays cleared.
\<close>

definition blocks_for_read :: "inode \<Rightarrow> nat \<Rightarrow> nat \<Rightarrow> 'a fs_scheme \<Rightarrow> u32 list res" where
  "blocks_for_read i start_idx end_idx s =
     (let hdisk = my_disk (partitions s (current_partition s)); blocks = replicate 140 0;
          direct = (\<lambda>m. take start_idx blocks @ take (m - start_idx) (drop start_idx (i_sectors i)) @ drop m blocks) in
      if end_idx = start_idx then
        if end_idx < 12 then Inr (blocks[end_idx := i_sectors i ! end_idx])
        else ide_read_table hdisk (i_sectors i ! 12) blocks s
      else if end_idx \<le> 12 then Inr (direct (end_idx + 1))
      else if start_idx < 12 then
        asserting (i_sectors i ! 12 \<noteq> 0) (ide_read_table hdisk (i_sectors i ! 12) (direct 12) s)
      else Inr blocks)"

function read_loop ::
  "nat \<Rightarrow> u32 list \<Rightarrow> u8 list \<Rightarrow> nat \<Rightarrow> nat \<Rightarrow> u8 list \<Rightarrow> 'a fs_scheme \<Rightarrow> (u8 list \<times> 'a fs_scheme) res" where
  "read_loop g blocks dst bytes_read size_left io_buf s =
     (if size_left = 0 then Inr (dst, s)
      else
        bindE (read_at (file_table s) g) (\<lambda>fd.
        let sec_off_bytes = unat (fd_pos fd) mod BLOCK_SIZE;
            sec_left_bytes = BLOCK_SIZE - sec_off_bytes;
            chunk_size = (if size_left < sec_left_bytes then size_left else sec_left_bytes);
            hdisk = my_disk (partitions s (current_partition s)) in
        bindE (read_at blocks (unat (fd_pos fd) div BLOCK_SIZE)) (\<lambda>lba.
        bindE (memset (Some io_buf) 0 BLOCK_SIZE) (\<lambda>io_buf.
        bindE (ide_read hdisk lba io_buf 1 s) (\<lambda>io_buf.
        bindE (memcpy_at dst bytes_read (drop sec_off_bytes io_buf) chunk_size) (\<lambda>dst.
        bindE (set_fd g (fd\<lparr>fd_pos := fd_pos fd + of_nat chunk_size\<rparr>) s) (\<lambda>s.
          read_loop g blocks dst (bytes_read + chunk_size) (size_left - chunk_size) io_buf s)))))))"
  by pat_completeness auto
termination
  by (relation "measure (\<lambda>(g, blocks, dst, bytes_read, size_left, _). size_left)") (auto simp: SECTOR_SIZE_def)

declare read_loop.simps [simp del]

text \<open>The result, and the memory at \<open>dst\<close> after the call.\<close>

definition file_read ::
  "nat \<Rightarrow> u8 list \<Rightarrow> u32 \<Rightarrow> 'a fs_scheme \<Rightarrow> (int \<times> u8 list \<times> 'a fs_scheme) res" where
  "file_read g dst cnt s =
     bindE (read_at (file_table s) g) (\<lambda>fd.
     bindE (inode_at (fd_inode fd) s) (\<lambda>i.
     let n = (if fd_pos fd + cnt > i_size i then i_size i - fd_pos fd else cnt) in
     if fd_pos fd + cnt > i_size i \<and> n = 0 then Inr (- 1, dst, s)
     else case kmalloc BLOCK_SIZE s of (io_addr, io_buf, s) \<Rightarrow>
     if io_addr = NULL then Inr (- 1, dst, s)
     else case kmalloc (BLOCK_SIZE + 48) s of (lbas, _, s) \<Rightarrow>
     if lbas = NULL then Inr (- 1, dst, s)
     else
       let start_idx = unat (fd_pos fd div 512); end_idx = unat ((fd_pos fd + n) div 512) in
       asserting (start_idx < 139 \<and> end_idx < 139)
       (bindE (blocks_for_read i start_idx end_idx s) (\<lambda>blocks.
        bindE (read_loop g blocks dst 0 (unat n) io_buf s) (\<lambda>(dst, s).
        bindE (kfree lbas s) (\<lambda>s. bindE (kfree io_addr s) (\<lambda>s. Inr (sint n, dst, s))))))))"

end
