(* ===== verification/File_Data.thy ===== *)
theory File_Data
  imports File_Ops
begin

text \<open>
  What \<open>file_write\<close> and \<open>file_read\<close> do to the bytes of a file (\<open>fs/file.c\<close>), for files whose bytes are
  in the twelve direct blocks. \<open>layout_ok\<close> is the invariant of a mounted partition: its areas lie one
  behind the other on the disk, and the block bitmap on disk is the one in memory. \<open>direct_ok\<close>
  says that the blocks of an inode are different blocks of the data area, in use in the bitmap.
\<close>

section \<open>The areas of a partition\<close>

abbreviation this_part :: "'a fs_scheme \<Rightarrow> partition" where
  "this_part s \<equiv> partitions s (current_partition s)"

abbreviation this_disk :: "'a fs_scheme \<Rightarrow> u32 \<Rightarrow> u8 list" where
  "this_disk s \<equiv> disk s (my_disk (this_part s))"

abbreviation data_start :: "'a fs_scheme \<Rightarrow> u32" where
  "data_start s \<equiv> data_start_lba (sb (this_part s))"

definition data_lba :: "'a fs_scheme \<Rightarrow> nat \<Rightarrow> u32" where "data_lba s b = data_start s + of_nat b"

definition block_no :: "'a fs_scheme \<Rightarrow> u32 \<Rightarrow> nat" where "block_no s l = unat (l - data_start s)"

text \<open>The bits of the block bitmap that are 0.\<close>

definition free_blocks :: "'a fs_scheme \<Rightarrow> nat set" where
  "free_blocks s = {b. b < bit_cnt (block_bitmap (this_part s)) \<and> \<not> taken (block_bitmap (this_part s)) b}"

text \<open>The block bitmap of the partition is on disk.\<close>

definition bitmap_on_disk :: "'a fs_scheme \<Rightarrow> bool" where
  "bitmap_on_disk s \<longleftrightarrow> (let bs = bits (block_bitmap (this_part s)) in
     \<forall>k < length bs div 512. this_disk s (block_bitmap_lba (sb (this_part s)) + of_nat k) = take 512 (drop (512 * k) bs))"

definition layout_ok :: "'a fs_scheme \<Rightarrow> bool" where
  "layout_ok s \<longleftrightarrow> (let q = this_part s; b = block_bitmap q in
     table_ok s (current_partition s) \<and> bitmap_on_disk s \<and>
     btmp_byte_len b = length (bits b) \<and> 512 dvd length (bits b) \<and>
     unat (block_bitmap_lba (sb q)) + length (bits b) div 512 \<le> unat (inode_table_lba (sb q)) \<and>
     unat (inode_table_lba (sb q)) + 608 \<le> unat (data_start s) \<and>
     0 \<notin> free_blocks s \<and> (\<forall>k \<in> free_blocks s. unat (data_start s) + k \<le> unat max_lba))"

lemma layout_okD:
  assumes "layout_ok s"
  shows "table_ok s (current_partition s)" "disk_ok (this_disk s)" "bitmap_on_disk s"
    "btmp_byte_len (block_bitmap (this_part s)) = length (bits (block_bitmap (this_part s)))"
    "512 dvd length (bits (block_bitmap (this_part s)))"
    "unat (block_bitmap_lba (sb (this_part s))) + length (bits (block_bitmap (this_part s))) div 512
       \<le> unat (inode_table_lba (sb (this_part s)))"
    "unat (inode_table_lba (sb (this_part s))) + 608 \<le> unat (data_start s)"
    "0 \<notin> free_blocks s" "\<And>k. k \<in> free_blocks s \<Longrightarrow> unat (data_start s) + k \<le> unat max_lba"
    "unat (inode_table_lba (sb (this_part s))) \<le> unat max_lba"
  using assms by (auto simp: layout_ok_def table_ok_def Let_def word_le_nat_alt dest: spec [of _ 0])

section \<open>Taking a block\<close>

text \<open>The bitmap with bit \<open>b\<close> set, and the state after that block was taken and its bit written.\<close>

definition with_bit :: "bitmap \<Rightarrow> nat \<Rightarrow> bitmap" where
  "with_bit m b = m\<lparr>bits := (bits m)[b div 8 := bits m ! (b div 8) OR push_bit (b mod 8) 1]\<rparr>"

definition take_block_no :: "nat \<Rightarrow> 'a fs_scheme \<Rightarrow> 'a fs_scheme" where
  "take_block_no b s = (let p = current_partition s; q = partitions s p; m = with_bit (block_bitmap q) b in
     s\<lparr>partitions := (partitions s)(p := q\<lparr>block_bitmap := m\<rparr>),
       disk := (disk s)(my_disk q := (this_disk s)
         (block_bitmap_lba (sb q) + of_nat (b div 4096) := take 512 (drop (512 * (b div 4096)) (bits m))))\<rparr>)"

lemma bitmap_set_with_bit:
  "b < 8 * length (bits m) \<Longrightarrow> bitmap_set m b 1 = Inr (with_bit m b)"
  by (simp add: bitmap_set_def with_bit_def Let_def BITMAP_MASK_def)

lemma with_bit_simps [simp]:
  "length (bits (with_bit m b)) = length (bits m)" "btmp_byte_len (with_bit m b) = btmp_byte_len m"
  "bit_cnt (with_bit m b) = bit_cnt m"
  by (simp_all add: with_bit_def bit_cnt_def)

lemma taken_with_bit:
  assumes "b < 8 * length (bits m)" "j < 8 * length (bits m)"
  shows "taken (with_bit m b) j \<longleftrightarrow> j = b \<or> taken m j"
  using bitmap_set_eq [OF assms(1), of 1] assms by (auto simp: bitmap_set_with_bit)

lemma take_block_no_simps [simp]:
  "current_partition (take_block_no b s) = current_partition s" "inodes (take_block_no b s) = inodes s"
  "file_table (take_block_no b s) = file_table s" "heap_next (take_block_no b s) = heap_next s"
  "live (take_block_no b s) = live s" "dirs (take_block_no b s) = dirs s"
  "partitions (take_block_no b s) (current_partition s) = (this_part s)\<lparr>block_bitmap := with_bit (block_bitmap (this_part s)) b\<rparr>"
  by (simp_all add: take_block_no_def Let_def)

lemma bit_sector:
  assumes "layout_ok s" "b < bit_cnt (block_bitmap (this_part s))"
  shows "b div 4096 < length (bits (block_bitmap (this_part s))) div 512" "b < 2 ^ 32"
    "unat (block_bitmap_lba (sb (this_part s)) + of_nat (b div 4096)) =
       unat (block_bitmap_lba (sb (this_part s))) + b div 4096"
proof -
  note L = layout_okD [OF assms(1)]
  let ?n = "length (bits (block_bitmap (this_part s))) div 512"
  have "length (bits (block_bitmap (this_part s))) = 512 * ?n" using L(5) by simp
  then have "b < 4096 * ?n" using assms(2) L(4) by (simp add: bit_cnt_def)
  then show lt: "b div 4096 < ?n" by (metis less_mult_imp_div_less mult.commute)
  have "?n \<le> 163839" using L(6,10) by (simp add: max_lba_def)
  with \<open>b < 4096 * ?n\<close> have "b < 4294967296" by linarith
  then show "b < 2 ^ 32" by simp
  have "unat (block_bitmap_lba (sb (this_part s))) + b div 4096 \<le> 163839"
    using L(6,10) lt by (simp add: max_lba_def)
  then show "unat (block_bitmap_lba (sb (this_part s)) + of_nat (b div 4096)) =
      unat (block_bitmap_lba (sb (this_part s))) + b div 4096"
    by (simp add: unat_word_ariths unat_of_nat_small)
qed

lemma block_alloc:
  assumes "layout_ok s" "free_blocks s \<noteq> {}"
  obtains b where "b \<in> free_blocks s" "data_lba s b \<noteq> - 1"
    "block_bitmap_alloc (current_partition s) s = Inr (data_lba s b,
       upd_part (current_partition s) (\<lambda>q. q\<lparr>block_bitmap := with_bit (block_bitmap q) b\<rparr>) s)"
proof -
  note L = layout_okD [OF assms(1)]
  let ?m = "block_bitmap (this_part s)"
  have "wf_bitmap ?m" "has_free ?m"
    using L(4) assms(2) by (auto simp: wf_bitmap_def has_free_def free_blocks_def)
  then obtain b where b: "bitmap_scan ?m 1 = Inr (int b)" "b < bit_cnt ?m" "\<not> taken ?m b"
    using bitmap_scan_from_first [of ?m] by (metis (full_types))
  then have free: "b \<in> free_blocks s" by (simp add: free_blocks_def)
  have "unat (data_lba s b) = unat (data_start s) + b"
    using L(9) [OF free] by (simp add: data_lba_def unat_word_ariths unat_of_nat_small max_lba_def)
  then have "unat (data_lba s b) \<le> 163839" using L(9) [OF free] by (simp add: max_lba_def)
  moreover have "unat (- 1 :: u32) = 4294967295" by (simp add: unsigned_minus_1_eq_mask mask_eq_exp_minus_1)
  ultimately have "data_lba s b \<noteq> - 1" by auto
  moreover have "block_bitmap_alloc (current_partition s) s = Inr (data_lba s b,
       upd_part (current_partition s) (\<lambda>q. q\<lparr>block_bitmap := with_bit (block_bitmap q) b\<rparr>) s)"
    using b L(4) by (simp add: block_bitmap_alloc_def bitmap_set_with_bit bit_cnt_def data_lba_def upd_part_def)
  ultimately show thesis using free that by blast
qed

lemma block_sync:
  assumes "layout_ok s" "b \<in> free_blocks s"
  shows "bitmap_sync (current_partition s) (data_lba s b - data_start s) BLOCK_BITMAP
      (upd_part (current_partition s) (\<lambda>q. q\<lparr>block_bitmap := with_bit (block_bitmap q) b\<rparr>) s) = Inr (take_block_no b s)"
proof -
  note L = layout_okD [OF assms(1)]
  let ?q = "this_part s" and ?k = "b div 4096" and ?n = "length (bits (block_bitmap (this_part s)))"
  have b: "b < bit_cnt (block_bitmap ?q)" using assms(2) by (simp add: free_blocks_def)
  note K = bit_sector [OF assms(1) b]
  have ub: "unat (of_nat b :: u32) = b" using K(2) by (rule unat_of_nat_small)
  have d: "of_nat b div 4096 = (of_nat ?k :: u32)"
    by (simp only: word_unat_eq_iff) (use K(2) in \<open>simp add: unat_div ub unat_of_nat_small\<close>)
  have uk: "unat (of_nat ?k :: u32) = ?k" using K(2) by (intro unat_of_nat_small) (simp add: div_less_dividend)
  have lba: "block_bitmap_lba (sb ?q) + of_nat ?k \<le> max_lba"
    using K(1,3) L(6,10) by (simp add: word_le_nat_alt)
  have room: "512 \<le> ?n - 512 * ?k"
  proof -
    have "?n = 512 * (?n div 512)" using L(5) by simp
    then show ?thesis using K(1) by linarith
  qed
  show ?thesis
    using lba room by (simp add: bitmap_sync_def Let_def data_lba_def d uk INODE_BITMAP_def BLOCK_BITMAP_def SECTOR_SIZE_def
        upd_part_def take_block_no_def mult.commute)
qed

lemma free_after_take:
  assumes "layout_ok s" "b \<in> free_blocks s"
  shows "free_blocks (take_block_no b s) = free_blocks s - {b}"
  using assms(2) layout_okD(4) [OF assms(1)]
  by (auto simp: free_blocks_def taken_with_bit bit_cnt_def)

text \<open>The sectors behind the bitmap and the other disks are as before.\<close>

lemma disk_after_take:
  assumes "layout_ok s" "b \<in> free_blocks s"
  shows "\<And>l. inode_table_lba (sb (this_part s)) \<le> l \<Longrightarrow> this_disk (take_block_no b s) l = this_disk s l"
    and "\<And>h. h \<noteq> my_disk (this_part s) \<Longrightarrow> disk (take_block_no b s) h = disk s h"
    and "disk_ok (this_disk (take_block_no b s))" and "bitmap_on_disk (take_block_no b s)"
proof -
  note L = layout_okD [OF assms(1)]
  let ?q = "this_part s" and ?k = "b div 4096" and ?m = "block_bitmap (this_part s)"
  let ?n = "length (bits ?m)"
  have b: "b < bit_cnt ?m" using assms(2) by (simp add: free_blocks_def)
  note K = bit_sector [OF assms(1) b]
  have n: "?n = 512 * (?n div 512)" using L(5) by simp
  have len: "length (take 512 (drop (512 * ?k) (bits (with_bit ?m b)))) = 512" using K(1) n by simp
  show other: "this_disk (take_block_no b s) l = this_disk s l" if "inode_table_lba (sb ?q) \<le> l" for l
  proof -
    have "block_bitmap_lba (sb ?q) + of_nat ?k \<noteq> l" using that K(1,3) L(6) by (auto simp: word_le_nat_alt)
    then show ?thesis by (simp add: take_block_no_def Let_def)
  qed
  show "disk (take_block_no b s) h = disk s h" if "h \<noteq> my_disk ?q" for h
    using that by (simp add: take_block_no_def Let_def)
  show "disk_ok (this_disk (take_block_no b s))"
    using L(2) len by (simp add: take_block_no_def Let_def disk_ok_def)
  show "bitmap_on_disk (take_block_no b s)"
    unfolding bitmap_on_disk_def Let_def
  proof (intro allI impI)
    fix k assume "k < length (bits (block_bitmap (this_part (take_block_no b s)))) div 512"
    then have k: "k < ?n div 512" by simp
    have bm: "this_disk s (block_bitmap_lba (sb ?q) + of_nat k) = take 512 (drop (512 * k) (bits ?m))"
      using L(3) k by (simp add: bitmap_on_disk_def Let_def)
    have "block_bitmap_lba (sb ?q) + of_nat k = block_bitmap_lba (sb ?q) + of_nat ?k \<longleftrightarrow> k = ?k"
      using k K(1) L(6,10) by (intro add_of_nat_eq) (simp_all add: max_lba_def)
    moreover have "take 512 (drop (512 * k) (bits (with_bit ?m b))) = take 512 (drop (512 * k) (bits ?m))" if "k \<noteq> ?k"
    proof -
      have "k < ?k \<or> ?k < k" using that by linarith
      then have "b div 8 < 512 * k \<or> 512 * k + 512 \<le> b div 8" using div_mult2_eq [of b 8 512] by auto
      then show ?thesis by (auto simp: with_bit_def drop_update_cancel drop_update_swap take_update_cancel)
    qed
    ultimately show "this_disk (take_block_no b s) (block_bitmap_lba (sb (this_part (take_block_no b s))) + of_nat k) =
        take 512 (drop (512 * k) (bits (block_bitmap (this_part (take_block_no b s)))))"
      using bm by (auto simp: take_block_no_def Let_def)
  qed
qed

lemma layout_after_take:
  assumes "layout_ok s" "b \<in> free_blocks s"
  shows "layout_ok (take_block_no b s)"
proof -
  note L = layout_okD [OF assms(1)]
  have "table_ok (take_block_no b s) (current_partition s)"
    using L(1) disk_after_take(3) [OF assms] by (simp add: table_ok_def Let_def)
  then show ?thesis
    using L disk_after_take(4) [OF assms] free_after_take [OF assms] by (simp add: layout_ok_def Let_def)
qed

section \<open>The blocks of a file\<close>

text \<open>A sector of the data area whose block is in use.\<close>

definition used_block :: "'a fs_scheme \<Rightarrow> u32 \<Rightarrow> bool" where
  "used_block s l \<longleftrightarrow> data_start s \<le> l \<and> l \<le> max_lba \<and>
     block_no s l < bit_cnt (block_bitmap (this_part s)) \<and> block_no s l \<notin> free_blocks s"

text \<open>The first \<open>n\<close> direct blocks of the inode are there, the other entries are 0.\<close>

definition direct_ok :: "'a fs_scheme \<Rightarrow> inode \<Rightarrow> nat \<Rightarrow> bool" where
  "direct_ok s i n \<longleftrightarrow> n \<le> 12 \<and> length (i_sectors i) = 13 \<and> distinct (take n (i_sectors i)) \<and>
     (\<forall>l \<in> set (take n (i_sectors i)). used_block s l) \<and> (\<forall>k. n \<le> k \<and> k < 13 \<longrightarrow> i_sectors i ! k = 0)"

text \<open>
  From \<open>s\<close> to \<open>s'\<close> the inode at \<open>a\<close> grew from \<open>n\<close> to \<open>n'\<close> blocks: it kept its old blocks, the new ones
  were free, and but for the inode, the block bitmap in memory and on disk the states are the same.
\<close>

definition grown :: "addr \<Rightarrow> 'a fs_scheme \<Rightarrow> inode \<Rightarrow> nat \<Rightarrow> 'a fs_scheme \<Rightarrow> inode \<Rightarrow> nat \<Rightarrow> bool" where
  "grown a s i n s' i' n' \<longleftrightarrow> n \<le> n' \<and> layout_ok s' \<and> direct_ok s' i' n' \<and>
     i' = i\<lparr>i_sectors := i_sectors i'\<rparr> \<and> take n (i_sectors i') = take n (i_sectors i) \<and>
     block_no s ` set (drop n (take n' (i_sectors i'))) \<subseteq> free_blocks s \<and>
     free_blocks s' = free_blocks s - block_no s ` set (drop n (take n' (i_sectors i'))) \<and>
     card (free_blocks s') + n' = card (free_blocks s) + n \<and>
     (\<exists>m d. bit_cnt m = bit_cnt (block_bitmap (this_part s)) \<and>
        (\<forall>l. inode_table_lba (sb (this_part s)) \<le> l \<longrightarrow> d l = this_disk s l) \<and>
        s' = s\<lparr>partitions := (partitions s)(current_partition s := (this_part s)\<lparr>block_bitmap := m\<rparr>),
               disk := (disk s)(my_disk (this_part s) := d), inodes := (inodes s)(a \<mapsto> i')\<rparr>)"

lemma free_finite [simp]: "finite (free_blocks s)"
  by (rule finite_subset [of _ "{..<bit_cnt (block_bitmap (this_part s))}"]) (auto simp: free_blocks_def)

lemma grown_refl: "layout_ok s \<Longrightarrow> direct_ok s i n \<Longrightarrow> inodes s a = Some i \<Longrightarrow> grown a s i n s i n"
  unfolding grown_def by (auto simp: fun_upd_idem intro!: exI [of _ "block_bitmap (this_part s)"] exI [of _ "this_disk s"])

lemma grown_trans:
  assumes g: "grown a s i n s1 i1 n1" and h: "grown a s1 i1 n1 s2 i2 n2"
  shows "grown a s i n s2 i2 n2"
proof -
  have n: "n \<le> n1" "n1 \<le> n2" using g h by (auto simp: grown_def)
  have bn: "block_no s1 = block_no s" using g by (auto simp: grown_def block_no_def fun_eq_iff)
  have t: "take n1 (i_sectors i2) = take n1 (i_sectors i1)" using h by (simp add: grown_def)
  have "take n (i_sectors i2) = take n (take n1 (i_sectors i2))" using n by simp
  also have "\<dots> = take n (take n1 (i_sectors i1))" by (simp only: t)
  finally have tn: "take n (i_sectors i2) = take n (i_sectors i)" using g n by (simp add: grown_def)
  have "take n2 (i_sectors i2) = take n1 (i_sectors i2) @ drop n1 (take n2 (i_sectors i2))"
    using n by (metis append_take_drop_id min.absorb1 take_take)
  then have e: "take n2 (i_sectors i2) = take n1 (i_sectors i1) @ drop n1 (take n2 (i_sectors i2))" by (simp only: t)
  have l: "length (take n1 (i_sectors i1)) = n1" using g by (auto simp: grown_def direct_ok_def)
  have d: "drop n (take n2 (i_sectors i2)) =
      drop n (take n1 (i_sectors i1)) @ drop n1 (take n2 (i_sectors i2))"
    using arg_cong [OF e, of "drop n"] by (simp only: drop_append l diff_is_0_eq' [OF n(1)] drop_0)
  have i: "i2 = i\<lparr>i_sectors := i_sectors i2\<rparr>" using g h by (cases i, cases i1, cases i2) (simp add: grown_def)
  have F: "block_no s ` set (drop n (take n2 (i_sectors i2))) \<subseteq> free_blocks s"
    "free_blocks s2 = free_blocks s - block_no s ` set (drop n (take n2 (i_sectors i2)))"
    "card (free_blocks s2) + n2 = card (free_blocks s) + n"
    using g h unfolding d by (auto simp: grown_def bn)
  from g obtain m d where s1: "bit_cnt m = bit_cnt (block_bitmap (this_part s))"
      "\<forall>l. inode_table_lba (sb (this_part s)) \<le> l \<longrightarrow> d l = this_disk s l"
      "s1 = s\<lparr>partitions := (partitions s)(current_partition s := (this_part s)\<lparr>block_bitmap := m\<rparr>),
               disk := (disk s)(my_disk (this_part s) := d), inodes := (inodes s)(a \<mapsto> i1)\<rparr>"
    by (auto simp: grown_def)
  from h obtain m' d' where s2: "bit_cnt m' = bit_cnt (block_bitmap (this_part s1))"
      "\<forall>l. inode_table_lba (sb (this_part s1)) \<le> l \<longrightarrow> d' l = this_disk s1 l"
      "s2 = s1\<lparr>partitions := (partitions s1)(current_partition s1 := (this_part s1)\<lparr>block_bitmap := m'\<rparr>),
               disk := (disk s1)(my_disk (this_part s1) := d'), inodes := (inodes s1)(a \<mapsto> i2)\<rparr>"
    by (auto simp: grown_def)
  have s1': "partitions s1 = (partitions s)(current_partition s := (this_part s)\<lparr>block_bitmap := m\<rparr>)"
    "current_partition s1 = current_partition s" "disk s1 = (disk s)(my_disk (this_part s) := d)"
    "inodes s1 = (inodes s)(a \<mapsto> i1)"
    "s1\<lparr>partitions := P, disk := D, inodes := I\<rparr> = s\<lparr>partitions := P, disk := D, inodes := I\<rparr>" for P D I
    by (subst s1(3), simp)+
  have "s2 = s\<lparr>partitions := (partitions s)(current_partition s := (this_part s)\<lparr>block_bitmap := m'\<rparr>),
               disk := (disk s)(my_disk (this_part s) := d'), inodes := (inodes s)(a \<mapsto> i2)\<rparr>"
    using s2(3) by (simp add: s1')
  moreover have "bit_cnt m' = bit_cnt (block_bitmap (this_part s))"
    "\<forall>l. inode_table_lba (sb (this_part s)) \<le> l \<longrightarrow> d' l = this_disk s l"
    using s1(1,2) s2(1,2) by (simp_all add: s1')
  ultimately have ex: "\<exists>m d. bit_cnt m = bit_cnt (block_bitmap (this_part s)) \<and>
      (\<forall>l. inode_table_lba (sb (this_part s)) \<le> l \<longrightarrow> d l = this_disk s l) \<and>
      s2 = s\<lparr>partitions := (partitions s)(current_partition s := (this_part s)\<lparr>block_bitmap := m\<rparr>),
               disk := (disk s)(my_disk (this_part s) := d), inodes := (inodes s)(a \<mapsto> i2)\<rparr>"
    by blast
  have "layout_ok s2" "direct_ok s2 i2 n2" using h by (simp_all add: grown_def)
  then show ?thesis unfolding grown_def using n by (intro conjI i tn F ex) simp_all
qed

lemma set_inode_simps [simp]:
  "partitions (set_inode a i s) = partitions s" "current_partition (set_inode a i s) = current_partition s"
  "disk (set_inode a i s) = disk s" "inodes (set_inode a i s) = (inodes s)(a \<mapsto> i)"
  "file_table (set_inode a i s) = file_table s" "heap_next (set_inode a i s) = heap_next s"
  "live (set_inode a i s) = live s" "dirs (set_inode a i s) = dirs s"
  by (simp_all add: set_inode_def)

lemma layout_ok_cong:
  assumes "partitions s' = partitions s" "current_partition s' = current_partition s"
  shows "free_blocks s' = free_blocks s" "block_no s' = block_no s" "used_block s' = used_block s"
    "direct_ok s' i n = direct_ok s i n" "data_lba s' = data_lba s"
    and "disk s' = disk s \<Longrightarrow> layout_ok s' = layout_ok s"
proof -
  show f: "free_blocks s' = free_blocks s" and b: "block_no s' = block_no s" and "data_lba s' = data_lba s"
    unfolding free_blocks_def block_no_def data_lba_def fun_eq_iff assms by simp_all
  show u: "used_block s' = used_block s" unfolding used_block_def fun_eq_iff assms f b by simp
  show "direct_ok s' i n = direct_ok s i n" unfolding direct_ok_def u by simp
  assume d: "disk s' = disk s"
  show "layout_ok s' = layout_ok s" unfolding layout_ok_def table_ok_def bitmap_on_disk_def Let_def assms d f ..
qed

lemma set_inode_layout [simp]:
  "layout_ok (set_inode a i s) = layout_ok s" "free_blocks (set_inode a i s) = free_blocks s"
  "block_no (set_inode a i s) = block_no s" "used_block (set_inode a i s) = used_block s"
  "direct_ok (set_inode a i s) j n = direct_ok s j n"
  by (intro layout_ok_cong; simp)+

lemma data_lba_free:
  assumes "layout_ok s" "b \<in> free_blocks s"
  shows "block_no s (data_lba s b) = b" "data_start s \<le> data_lba s b" "data_lba s b \<le> max_lba" "0 < data_lba s b"
    "inode_table_lba (sb (this_part s)) \<le> data_lba s b"
proof -
  note L = layout_okD [OF assms(1)]
  have b: "unat (data_start s) + b \<le> 163839" using L(9) [OF assms(2)] by (simp add: max_lba_def)
  then have u: "unat (data_lba s b) = unat (data_start s) + b"
    by (simp add: data_lba_def unat_word_ariths unat_of_nat_small)
  from b show "block_no s (data_lba s b) = b" by (simp add: block_no_def data_lba_def unat_of_nat_small)
  show "data_start s \<le> data_lba s b" by (simp add: word_le_nat_alt u)
  show "data_lba s b \<le> max_lba" using b by (simp add: word_le_nat_alt u max_lba_def)
  show "inode_table_lba (sb (this_part s)) \<le> data_lba s b" using L(7) by (simp add: word_le_nat_alt u)
  have "0 < unat (data_lba s b)" using L(7) by (simp only: u)
  then show "0 < data_lba s b" by (simp only: word_less_nat_alt unat_0)
qed

text \<open>One more block for the inode.\<close>

definition extend_inode :: "'a fs_scheme \<Rightarrow> nat \<Rightarrow> nat \<Rightarrow> inode \<Rightarrow> inode" where
  "extend_inode s n b i = i\<lparr>i_sectors := (i_sectors i)[n := data_lba s b]\<rparr>"

lemma grown_step:
  assumes ok: "layout_ok s" "direct_ok s i n" and n: "n < 12" and b: "b \<in> free_blocks s"
  shows "grown a s i n (set_inode a (extend_inode s n b i) (take_block_no b s)) (extend_inode s n b i) (Suc n)"
proof -
  let ?t = "take_block_no b s" and ?l = "data_lba s b" and ?i = "extend_inode s n b i"
  note D = data_lba_free [OF ok(1) b] and F = free_after_take [OF ok(1) b]
  have len: "length (i_sectors i) = 13" and old: "\<forall>l \<in> set (take n (i_sectors i)). used_block s l"
    and dist: "distinct (take n (i_sectors i))" and rest: "\<forall>k. n \<le> k \<and> k < 13 \<longrightarrow> i_sectors i ! k = 0"
    using ok(2) by (auto simp: direct_ok_def)
  have tk: "take (Suc n) (i_sectors ?i) = take n (i_sectors i) @ [?l]"
    using len n by (simp add: extend_inode_def take_Suc_conv_app_nth)
  have bn: "block_no ?t = block_no s" by (simp add: block_no_def fun_eq_iff)
  have new: "?l \<notin> set (take n (i_sectors i))" using old b D(1) by (auto simp: used_block_def)
  have used: "used_block ?t l" if "used_block s l \<or> l = ?l" for l
  proof -
    have "b < bit_cnt (block_bitmap (this_part s))" using b by (simp add: free_blocks_def)
    with that D(1-3) show ?thesis unfolding used_block_def bn F by auto
  qed
  have blk: "direct_ok ?t ?i (Suc n)"
    unfolding direct_ok_def tk using n len dist new old used rest by (auto simp: extend_inode_def)
  have same: "?i = i\<lparr>i_sectors := i_sectors ?i\<rparr>" by (simp add: extend_inode_def)
  have dr: "drop n (take (Suc n) (i_sectors ?i)) = [?l]" unfolding tk using len n by simp
  have card: "card (free_blocks ?t) + Suc n = card (free_blocks s) + n"
    using F card_Suc_Diff1 [OF free_finite b] by simp
  have "set_inode a ?i ?t = s\<lparr>partitions := (partitions s)(current_partition s :=
        (this_part s)\<lparr>block_bitmap := with_bit (block_bitmap (this_part s)) b\<rparr>),
      disk := (disk s)(my_disk (this_part s) := this_disk ?t), inodes := (inodes s)(a \<mapsto> ?i)\<rparr>"
    by (simp add: set_inode_def take_block_no_def Let_def)
  moreover have "\<forall>l. inode_table_lba (sb (this_part s)) \<le> l \<longrightarrow> this_disk ?t l = this_disk s l"
    using disk_after_take(1) [OF ok(1) b] by blast
  moreover have "bit_cnt (with_bit (block_bitmap (this_part s)) b) = bit_cnt (block_bitmap (this_part s))" by simp
  ultimately have ex: "\<exists>m d. bit_cnt m = bit_cnt (block_bitmap (this_part s)) \<and>
      (\<forall>l. inode_table_lba (sb (this_part s)) \<le> l \<longrightarrow> d l = this_disk s l) \<and>
      set_inode a ?i ?t = s\<lparr>partitions := (partitions s)(current_partition s := (this_part s)\<lparr>block_bitmap := m\<rparr>),
               disk := (disk s)(my_disk (this_part s) := d), inodes := (inodes s)(a \<mapsto> ?i)\<rparr>"
    by blast
  show ?thesis
    unfolding grown_def set_inode_layout dr list.set image_insert image_empty D(1)
    by (intro conjI blk same layout_after_take [OF ok(1) b] F card ex refl) (simp_all add: extend_inode_def b)
qed

text \<open>The loop that adds direct blocks.\<close>

lemma take_new_block_eq:
  assumes "layout_ok s" "free_blocks s \<noteq> {}"
  obtains b where "b \<in> free_blocks s" "take_new_block s = Inr (Some (data_lba s b), take_block_no b s)"
proof -
  obtain b where b: "b \<in> free_blocks s" "data_lba s b \<noteq> - 1"
    "block_bitmap_alloc (current_partition s) s = Inr (data_lba s b,
       upd_part (current_partition s) (\<lambda>q. q\<lparr>block_bitmap := with_bit (block_bitmap q) b\<rparr>) s)"
    by (rule block_alloc [OF assms])
  have d: "data_start_lba (sb (partitions (upd_part (current_partition s) (\<lambda>q. q\<lparr>block_bitmap := with_bit (block_bitmap q) b\<rparr>) s)
      (current_partition s))) = data_start s" by (simp add: upd_part_def)
  have "take_new_block s = Inr (Some (data_lba s b), take_block_no b s)"
    unfolding take_new_block_def Let_def b(3) bindE_Inr prod.case if_not_P [OF b(2)] d block_sync [OF assms(1) b(1)] ..
  with b(1) show thesis by (rule that)
qed

lemma add_direct_grows:
  assumes "layout_ok s" "direct_ok s i k" "inodes s a = Some i" "k + n \<le> 12" "n \<le> card (free_blocks s)"
  shows "\<exists>s' i'. add_direct n k a blocks s =
      Inr (Some (foldl (\<lambda>bs j. bs[j := i_sectors i' ! j]) blocks [k..<k + n]), s') \<and> grown a s i k s' i' (k + n)"
  using assms
proof (induction n arbitrary: k i s blocks)
  case 0
  then show ?case using grown_refl [OF 0(1,2,3)] by auto
next
  case (Suc n)
  then have ne: "free_blocks s \<noteq> {}" by auto
  from take_new_block_eq [OF Suc.prems(1) ne] obtain b where b: "b \<in> free_blocks s"
    and run: "take_new_block s = Inr (Some (data_lba s b), take_block_no b s)" .
  let ?i = "extend_inode s k b i"
  let ?s = "set_inode a ?i (take_block_no b s)"
  have k: "k < 12" and zero: "i_sectors i ! k = 0" and len: "length (i_sectors i) = 13"
    using Suc.prems(2,4) by (auto simp: direct_ok_def)
  have g: "grown a s i k ?s ?i (Suc k)" using grown_step [OF Suc.prems(1,2) k b] .
  then have "layout_ok ?s" "direct_ok ?s ?i (Suc k)" "n \<le> card (free_blocks ?s)"
    using Suc.prems(5) by (auto simp: grown_def)
  from Suc.IH [OF this(1,2) _ _ this(3), of "blocks[k := data_lba s b]"] Suc.prems(4)
  obtain s' i' where rest: "add_direct n (Suc k) a (blocks[k := data_lba s b]) ?s =
      Inr (Some (foldl (\<lambda>bs j. bs[j := i_sectors i' ! j]) (blocks[k := data_lba s b]) [Suc k..<Suc k + n]), s')"
    and g': "grown a ?s ?i (Suc k) s' i' (Suc k + n)" by auto
  have "take (Suc k) (i_sectors i') = take (Suc k) (i_sectors ?i)" using g' by (simp add: grown_def)
  then have "take (Suc k) (i_sectors i') ! k = take (Suc k) (i_sectors ?i) ! k" by (simp only:)
  then have "i_sectors i' ! k = data_lba s b" using len k by (simp add: extend_inode_def)
  moreover have "[k..<k + Suc n] = k # [Suc k..<Suc k + n]" by (simp add: upt_conv_Cons)
  ultimately have "add_direct (Suc n) k a blocks s =
      Inr (Some (foldl (\<lambda>bs j. bs[j := i_sectors i' ! j]) blocks [k..<k + Suc n]), s')"
    using run rest Suc.prems(3) zero by (simp add: inode_at_def extend_inode_def del: upt_Suc)
  moreover have "grown a s i k s' i' (k + Suc n)" using grown_trans [OF g g'] by simp
  ultimately show ?case by blast
qed

lemma foldl_update_nth:
  "k < length xs \<Longrightarrow> foldl (\<lambda>bs j. bs[j := f j]) xs [a..<b] ! k = (if a \<le> k \<and> k < b then f k else xs ! k)"
  "length (foldl (\<lambda>bs j. bs[j := f j]) xs js) = length xs"
proof -
  show l: "length (foldl (\<lambda>bs j. bs[j := f j]) xs js) = length xs" for js
    by (induction js arbitrary: xs) simp_all
  show "foldl (\<lambda>bs j. bs[j := f j]) xs [a..<b] ! k = (if a \<le> k \<and> k < b then f k else xs ! k)"
    if "k < length xs"
  proof (induction b)
    case (Suc b)
    then show ?case using that l [of "[a..<b]"] by (cases "k = b") auto
  qed simp
qed

lemma blocks_for_write_grows:
  assumes "layout_ok s" "direct_ok s i used" "inodes s a = Some i" "0 < used" "used \<le> will" "will \<le> 12"
    and "will - used \<le> card (free_blocks s)"
  obtains s' i' blocks where "blocks_for_write a used will s = Inr (Some blocks, s')" "grown a s i used s' i' will"
    "length blocks = 140" "\<And>k. used - 1 \<le> k \<Longrightarrow> k < will \<Longrightarrow> blocks ! k = i_sectors i' ! k"
proof -
  have len: "length (i_sectors i) = 13" using assms(2) by (simp add: direct_ok_def)
  have at: "inode_at a s = Inr i" using assms(3) by (simp add: inode_at_def)
  show thesis
  proof (cases "used = will")
    case True
    have "blocks_for_write a used will s = Inr (Some ((replicate 140 0)[used - 1 := i_sectors i ! (used - 1)]), s)"
      using assms(6) True by (simp add: blocks_for_write_def at Let_def)
    moreover have "(replicate 140 0)[used - 1 := i_sectors i ! (used - 1)] ! k = i_sectors i ! k"
      if "used - 1 \<le> k" "k < will" for k
    proof -
      have "k = used - 1" using that True by simp
      then show ?thesis using True assms(6) by simp
    qed
    ultimately show thesis using grown_refl [OF assms(1-3)] True
      by (intro that [of "(replicate 140 0)[used - 1 := i_sectors i ! (used - 1)]" s i]) auto
  next
    case False
    have "unat (of_nat will :: u32) = will" "unat (of_nat used :: u32) = used"
      using assms(5,6) by (simp_all add: unat_of_nat_small)
    with False have ne: "(of_nat will - of_nat used :: u32) \<noteq> 0" by (metis right_minus_eq)
    have "i_sectors i ! (used - 1) \<in> set (take used (i_sectors i))"
      using assms(4,5,6) len by (auto simp: in_set_conv_nth intro!: exI [of _ "used - 1"])
    then have nz: "i_sectors i ! (used - 1) \<noteq> 0"
      using assms(2) layout_okD(7) [OF assms(1)] by (auto simp: direct_ok_def used_block_def word_le_nat_alt)
    let ?bs = "(replicate 140 0)[used - 1 := i_sectors i ! (used - 1)]"
    from add_direct_grows [OF assms(1-3), of "will - used" ?bs] assms(5-7) obtain s' i' where
      run: "add_direct (will - used) used a ?bs s =
        Inr (Some (foldl (\<lambda>bs j. bs[j := i_sectors i' ! j]) ?bs [used..<will]), s')"
      and g: "grown a s i used s' i' will" by auto
    have "take used (i_sectors i') ! (used - 1) = take used (i_sectors i) ! (used - 1)"
      using g by (simp add: grown_def)
    then have last: "i_sectors i' ! (used - 1) = i_sectors i ! (used - 1)" using assms(4) by simp
    have "blocks_for_write a used will s = Inr (Some (foldl (\<lambda>bs j. bs[j := i_sectors i' ! j]) ?bs [used..<will]), s')"
      using assms(4,5,6) ne nz len run by (simp add: blocks_for_write_def at Let_def)
    then show thesis
      by (rule that) (use g last assms(4-6) in \<open>auto simp: foldl_update_nth nth_list_update\<close>)
  qed
qed

section \<open>Writing the bytes\<close>

text \<open>Byte \<open>k\<close> of the file with inode \<open>i\<close>.\<close>

definition file_byte :: "(u32 \<Rightarrow> u8 list) \<Rightarrow> inode \<Rightarrow> nat \<Rightarrow> u8" where
  "file_byte d i k = d (i_sectors i ! (k div 512)) ! (k mod 512)"

definition written :: "nat \<Rightarrow> file_desc \<Rightarrow> inode \<Rightarrow> nat \<Rightarrow> (u32 \<Rightarrow> u8 list) \<Rightarrow> 'a fs_scheme \<Rightarrow> 'a fs_scheme" where
  "written g fd i n d s = s\<lparr>disk := (disk s)(my_disk (this_part s) := d),
     file_table := (file_table s)[g := fd\<lparr>fd_pos := fd_pos fd + of_nat n\<rparr>],
     inodes := (inodes s)(fd_inode fd \<mapsto> i\<lparr>i_size := i_size i + of_nat n\<rparr>)\<rparr>"

lemma written_simps [simp]:
  "partitions (written g fd i n d s) = partitions s" "current_partition (written g fd i n d s) = current_partition s"
  "disk (written g fd i n d s) = (disk s)(my_disk (this_part s) := d)"
  "inodes (written g fd i n d s) = (inodes s)(fd_inode fd \<mapsto> i\<lparr>i_size := i_size i + of_nat n\<rparr>)"
  "file_table (written g fd i n d s) = (file_table s)[g := fd\<lparr>fd_pos := fd_pos fd + of_nat n\<rparr>]"
  "heap_next (written g fd i n d s) = heap_next s" "live (written g fd i n d s) = live s" "dirs (written g fd i n d s) = dirs s"
  by (simp_all add: written_def)

lemma written_written:
  "written g (fd\<lparr>fd_pos := fd_pos fd + of_nat m\<rparr>) (i\<lparr>i_size := i_size i + of_nat m\<rparr>) n d' (written g fd i m d s) =
   written g fd i (m + n) d' s"
  by (simp add: written_def add.assoc)

lemma written_0: "file_table s ! g = fd \<Longrightarrow> inodes s (fd_inode fd) = Some i \<Longrightarrow> written g fd i 0 (this_disk s) s = s"
  by (auto simp: written_def fun_upd_idem)

text \<open>Writing \<open>c\<close> bytes into the block of the end of the file.\<close>

lemma chunk_bytes:
  fixes N c :: nat
  assumes d: "disk_ok d" "length io = 512" and c: "0 < c" "N mod 512 + c \<le> 512" "c \<le> length src"
    and old: "N mod 512 = 0 \<or> io = d (i_sectors i ! (N div 512))"
    and inj: "inj_on (\<lambda>k. i_sectors i ! k) K" "N div 512 \<in> K" "j div 512 \<in> K" and j: "j < N + c"
  shows "file_byte (d(i_sectors i ! (N div 512) := take (N mod 512) io @ take c src @ drop (N mod 512 + c) io)) i j =
    (if j < N then file_byte d i j else src ! (j - N))"
proof (cases "j div 512 = N div 512")
  case True
  note e = mult_div_mod_eq [of 512 j] mult_div_mod_eq [of 512 N]
  have lt: "j mod 512 < N mod 512 \<longleftrightarrow> j < N" "j mod 512 < N mod 512 + c" "j mod 512 - N mod 512 = j - N" "j - N < c"
    using True e j c(1) by linarith+
  have "length (take (N mod 512) io) = N mod 512" "length (take c src) = c" using d c by simp_all
  then show ?thesis
    using True lt old c(3) by (auto simp: file_byte_def nth_append)
next
  case False
  then have "i_sectors i ! (j div 512) \<noteq> i_sectors i ! (N div 512)" using inj by (metis inj_onD)
  moreover have "j < N"
  proof (rule ccontr)
    assume "\<not> j < N"
    then have "N div 512 \<le> j div 512" by (simp add: div_le_mono)
    moreover have "j div 512 \<le> N div 512"
    proof -
      have "j < 512 * (N div 512) + 512" using j c(2) mult_div_mod_eq [of 512 N] by linarith
      then have "j < (N div 512 + 1) * 512" by simp
      then have "j div 512 < N div 512 + 1" by (rule less_mult_imp_div_less)
      then show ?thesis by simp
    qed
    ultimately show False using False by simp
  qed
  ultimately show ?thesis by (simp add: file_byte_def)
qed

lemma write_loop_writes:
  assumes "g < length (file_table s)" "file_table s ! g = fd" "inodes s (fd_inode fd) = Some i"
    and "unat (i_size i) = N" "N + n < 6144" "is_first \<or> N mod 512 = 0 \<or> n = 0"
    and "length blocks = 140" "\<And>k. N div 512 \<le> k \<Longrightarrow> 512 * k < N + n \<Longrightarrow> blocks ! k = i_sectors i ! k \<and> i_sectors i ! k \<le> max_lba"
    and "inj_on (\<lambda>k. i_sectors i ! k) {k. 512 * k < N + n}"
    and "n \<le> length src" "length io_buf = 512" "disk_ok (this_disk s)"
  shows "\<exists>d. write_loop g blocks src n is_first io_buf s = Inr (written g fd i n d s) \<and> disk_ok d \<and>
    (\<forall>l. (\<forall>k. N div 512 \<le> k \<and> 512 * k < N + n \<longrightarrow> l \<noteq> i_sectors i ! k) \<longrightarrow> d l = this_disk s l) \<and>
    (\<forall>j < N + n. file_byte d i j = (if j < N then file_byte (this_disk s) i j else src ! (j - N)))"
  using assms
proof (induction n arbitrary: s fd i N src io_buf is_first rule: less_induct)
  case (less n)
  note P = less.prems
  show ?case
  proof (cases "n = 0")
    case True
    have "write_loop g blocks src n is_first io_buf s = Inr (written g fd i n (this_disk s) s)"
      using True written_0 [OF P(2,3)] by (subst write_loop.simps) simp
    then show ?thesis using True P(12) by auto
  next
    case False
    let ?K = "{k. 512 * k < N + n}" and ?q = "N div 512" and ?off = "N mod 512"
    define c where "c = min n (512 - ?off)"
    let ?sec = "i_sectors i ! ?q"
    define io where "io = (if is_first then this_disk s ?sec else replicate 512 0)"
    define d1 where "d1 = (this_disk s)(?sec := take ?off io @ take c src @ drop (?off + c) io)"
    have q: "512 * ?q \<le> N" by simp
    have c: "0 < c" "c \<le> n" "?off + c \<le> 512" "c = n \<or> ?off + c = 512" using False by (auto simp: c_def min_def)
    have sec: "blocks ! ?q = ?sec" "?sec \<le> max_lba" using P(8) [of ?q] q False by auto
    have qK: "?q \<in> ?K" using q False by simp
    have q140: "?q < 140" using P(5) by simp
    have io: "length io = 512" using P(12) by (simp add: io_def)
    have ok1: "disk_ok d1" using P(10,12) io c by (auto simp: disk_ok_def d1_def)
    let ?s1 = "written g fd i c d1 s"
    let ?fd1 = "fd\<lparr>fd_pos := fd_pos fd + of_nat c\<rparr>" and ?i1 = "i\<lparr>i_size := i_size i + of_nat c\<rparr>"
    have chunk: "(if n < 512 - ?off then n else 512 - ?off) = c" by (simp add: c_def min_def)
    have rd: "(if is_first then ide_read (my_disk (this_part s)) ?sec (replicate 512 0) 1 s else Inr (replicate 512 0)) = Inr io"
      using sec(2) P(12) by (simp add: io_def)
    have wr: "ide_write (my_disk (this_part s)) ?sec (take ?off io @ take c src @ drop (?off + c) io) 1 s =
        Inr (s\<lparr>disk := (disk s)(my_disk (this_part s) := d1)\<rparr>)"
      using sec(2) io c P(10) by (simp add: d1_def)
    have fd: "set_fd g ?fd1 (set_inode (fd_inode fd) ?i1 (s\<lparr>disk := (disk s)(my_disk (this_part s) := d1)\<rparr>)) = Inr ?s1"
      using P(1) by (simp add: set_fd_def set_inode_def written_def)
    have cp: "memcpy_at io ?off src c = Inr (take ?off io @ take c src @ drop (?off + c) io)"
      using io c P(10) by (subst memcpy_at_eq) auto
    have mem: "memset (Some io_buf) 0 512 = Inr (replicate 512 0)" using P(11) by simp
    have at: "read_at (file_table s) g = Inr fd" "inode_at (fd_inode fd) s = Inr i" "read_at blocks ?q = Inr ?sec"
      using P(1,2,3,7) q140 sec(1) by (simp_all add: inode_at_def)
    have step: "write_loop g blocks src n is_first io_buf s =
        write_loop g blocks (drop c src) (n - c) False (take ?off io @ take c src @ drop (?off + c) io) ?s1"
      by (subst write_loop.simps) (unfold if_not_P [OF False] at bindE_Inr SECTOR_SIZE_def mem Let_def P(4) chunk rd cp wr fd, rule refl)
    have u: "unat (i_size ?i1) = N + c" using P(4,5) c by (simp add: unat_word_ariths unat_of_nat_small)
    have full: "N + c = 512 * ?q + 512" if "c \<noteq> n" using that c(4) mult_div_mod_eq [of 512 N] by linarith
    have mono: "?q \<le> (N + c) div 512" by (simp add: div_le_mono)
    have nc: "N + c + (n - c) = N + n" using c by simp
    have "\<exists>d. write_loop g blocks (drop c src) (n - c) False (take ?off io @ take c src @ drop (?off + c) io) ?s1 =
        Inr (written g ?fd1 ?i1 (n - c) d ?s1) \<and> disk_ok d \<and>
      (\<forall>l. (\<forall>k. (N + c) div 512 \<le> k \<and> 512 * k < N + c + (n - c) \<longrightarrow> l \<noteq> i_sectors ?i1 ! k) \<longrightarrow> d l = this_disk ?s1 l) \<and>
      (\<forall>j < N + c + (n - c). file_byte d ?i1 j = (if j < N + c then file_byte (this_disk ?s1) ?i1 j else drop c src ! (j - (N + c))))"
    proof (rule less.IH)
      show "n - c < n" using c by simp
      show "unat (i_size ?i1) = N + c" by (rule u)
      show "False \<or> (N + c) mod 512 = 0 \<or> n - c = 0" 
        using full by (cases "c = n") simp_all
      show "blocks ! k = i_sectors ?i1 ! k \<and> i_sectors ?i1 ! k \<le> max_lba"
        if "(N + c) div 512 \<le> k" "512 * k < N + c + (n - c)" for k
        using P(8) [of k] that mono nc by simp
      show "inj_on (\<lambda>k. i_sectors ?i1 ! k) {k. 512 * k < N + c + (n - c)}" using P(9) nc by simp
    qed (use P c io nc ok1 in auto)
    then obtain d where d: "write_loop g blocks src n is_first io_buf s = Inr (written g fd i n d s)" "disk_ok d"
      "\<And>l. (\<And>k. (N + c) div 512 \<le> k \<Longrightarrow> 512 * k < N + n \<Longrightarrow> l \<noteq> i_sectors i ! k) \<Longrightarrow> d l = d1 l"
      "\<And>j. j < N + n \<Longrightarrow> file_byte d ?i1 j = (if j < N + c then file_byte d1 ?i1 j else drop c src ! (j - (N + c)))"
      unfolding step written_written using c nc by auto
    have "d l = this_disk s l" if l: "\<forall>k. ?q \<le> k \<and> 512 * k < N + n \<longrightarrow> l \<noteq> i_sectors i ! k" for l
    proof -
      have "d l = d1 l" using l mono by (intro d(3)) auto
      moreover have "l \<noteq> ?sec" using l qK by auto
      ultimately show ?thesis by (simp add: d1_def)
    qed
    moreover have "file_byte d i j = (if j < N then file_byte (this_disk s) i j else src ! (j - N))" if j: "j < N + n" for j
    proof (cases "j < N + c")
      case True
      have jK: "j div 512 \<in> ?K" using j by (auto intro: le_less_trans [OF div_times_less_eq_dividend])
      have "file_byte d i j = file_byte d1 i j" using d(4) [OF j] True by (simp add: file_byte_def)
      also have "\<dots> = (if j < N then file_byte (this_disk s) i j else src ! (j - N))"
        unfolding d1_def
        by (rule chunk_bytes [OF P(12) io c(1,3) _ _ P(9) qK jK True]) (use P(6,10) False c in \<open>auto simp: io_def\<close>)
      finally show ?thesis .
    next
      case F: False
      have "file_byte d i j = drop c src ! (j - (N + c))" using d(4) [OF j] F by (simp add: file_byte_def)
      also have "\<dots> = src ! (j - N)" using F P(10) c j by simp
      finally show ?thesis using F by simp
    qed
    ultimately show ?thesis using d(1,2) by blast
  qed
qed

section \<open>Changes of the disk that keep the layout\<close>

lemma bitmap_sector_lba:
  assumes "layout_ok s" "k < length (bits (block_bitmap (this_part s))) div 512"
  shows "block_bitmap_lba (sb (this_part s)) + of_nat k < inode_table_lba (sb (this_part s))"
proof -
  note L = layout_okD [OF assms(1)]
  have "512 * (length (bits (block_bitmap (this_part s))) div 512) = length (bits (block_bitmap (this_part s)))"
    using L(5) by simp
  then have b: "4096 * k < bit_cnt (block_bitmap (this_part s))" using assms(2) L(4) by (simp add: bit_cnt_def)
  then show ?thesis using bit_sector(3) [OF assms(1) b] L(6) assms(2) by (simp add: word_less_nat_alt)
qed

lemma layout_with_disk:
  assumes "layout_ok s" "disk_ok d" "\<And>l. l < inode_table_lba (sb (this_part s)) \<Longrightarrow> d l = this_disk s l"
    and "partitions s' = partitions s" "current_partition s' = current_partition s" "disk s' = (disk s)(my_disk (this_part s) := d)"
  shows "layout_ok s'"
proof -
  have "bitmap_on_disk s'"
    using assms(3) bitmap_sector_lba [OF assms(1)] layout_okD(3) [OF assms(1)]
    unfolding bitmap_on_disk_def Let_def assms(4-6) by simp
  moreover have "table_ok s' (current_partition s')"
    using layout_okD(1) [OF assms(1)] assms(2) unfolding table_ok_def Let_def assms(4-6) by simp
  moreover have "free_blocks s' = free_blocks s" using assms(4,5) by (rule layout_ok_cong)
  ultimately show ?thesis using assms(1) unfolding layout_ok_def Let_def assms(4,5) by simp
qed

lemma inode_sync_layout:
  assumes "layout_ok s" "length (i_sectors i) = 13" "1024 \<le> length mem"
  obtains d where "inode_sync (current_partition s) i mem s = Inr (s\<lparr>disk := (disk s)(my_disk (this_part s) := d)\<rparr>)"
    "disk_ok d" "\<And>l. l < inode_table_lba (sb (this_part s)) \<or> data_start s \<le> l \<Longrightarrow> d l = this_disk s l"
proof -
  note L = layout_okD [OF assms(1)]
  define n where "n = unat (i_no i) mod 256"
  define m :: nat where "m = (if crosses n then 1 else 2)"
  let ?T = "inode_table_lba (sb (this_part s))"
  define r where "r = 76 * n div 512"
  let ?base = "?T + of_nat r"
  obtain B where run: "inode_sync (current_partition s) i mem s =
      Inr (s\<lparr>disk := (disk s)(my_disk (this_part s) := put_sectors ?base B m (this_disk s))\<rparr>)" "length B = length mem"
    using inode_sync_run [OF L(1) assms(2,3) n_def m_def] unfolding r_def by blast
  have m: "m \<le> 2" by (simp add: m_def)
  have "r \<le> 37" by (simp add: r_def n_def div_le_mono [of _ "76 * 255" 512, simplified])
  then have at: "unat (?base + of_nat j) = unat ?T + r + j" "unat ?T + r + j < unat (data_start s)" if "j < m" for j
    using that m L(7,10) by (auto simp: unat_word_ariths unat_of_nat_small max_lba_def)
  show thesis
  proof (rule that [OF run(1)])
    show "disk_ok (put_sectors ?base B m (this_disk s))" using L(2) run(2) m assms(3) by (intro disk_ok_put) auto
    show "put_sectors ?base B m (this_disk s) l = this_disk s l" if "l < ?T \<or> data_start s \<le> l" for l
    proof (rule put_sectors_other)
      fix j assume "j < m"
      from at [OF this] that show "l \<noteq> ?base + of_nat j" by (auto simp: word_less_nat_alt word_le_nat_alt)
    qed
  qed
qed

lemma bitmap_sync_set_inode:
  "bitmap_sync p x t s = Inr s' \<Longrightarrow> bitmap_sync p x t (set_inode a j s) = Inr (set_inode a j s')"
  by (auto simp: bitmap_sync_def ide_write_def asserting_def set_inode_def Let_def split: if_splits)

lemma kfree_top:
  assumes "live s = (space s, b) # bs" "b \<noteq> NULL" "inodes s b = None" "dirs s b = None"
  shows "kfree b s = Inr (s\<lparr>live := bs\<rparr>)"
  using assms by (simp add: kfree_def fun_upd_idem)

lemma sint_small: "unat (w :: u32) < 2 ^ 31 \<Longrightarrow> sint w = int (unat w)"
proof -
  assume "unat w < 2 ^ 31"
  then have "int (unat w) < int (2 ^ 31)" by (simp only: of_nat_less_iff)
  then have "int (unat w) < 2 ^ 31" by (simp only: of_nat_power of_nat_numeral)
  moreover have "- (2 ^ 31) \<le> int (unat w)" by (rule order_trans [of _ 0]) simp_all
  ultimately have "signed_take_bit 31 (int (unat w)) = int (unat w)" by (rule signed_take_bit_int_eq_self [rotated])
  then show ?thesis unfolding sint_uint uint_nat by simp
qed

lemma space_written [simp]:
  "space (written g fd i n d s) = space s" "space (s\<lparr>file_table := f\<rparr>) = space s"
  by (simp_all add: space_def running_thread_def written_def)

text \<open>Where block \<open>k\<close> of the file is: from 12 on the table in the indirect block says.\<close>

definition block_lba :: "'a fs_scheme \<Rightarrow> inode \<Rightarrow> nat \<Rightarrow> u32" where
  "block_lba s i k = (if k < 12 then i_sectors i ! k else word_at (this_disk s (i_sectors i ! 12)) (4 * (k - 12)))"

definition stored_byte :: "'a fs_scheme \<Rightarrow> inode \<Rightarrow> nat \<Rightarrow> u8" where
  "stored_byte s i k = this_disk s (block_lba s i (k div 512)) ! (k mod 512)"

lemma stored_byte_direct: "k < 6144 \<Longrightarrow> stored_byte s i k = file_byte (this_disk s) i k"
  by (simp add: stored_byte_def block_lba_def file_byte_def less_mult_imp_div_less)

text \<open>The bytes of a file, the abstract view of \<open>file_write\<close> and \<open>file_read\<close>.\<close>

definition file_text :: "'a fs_scheme \<Rightarrow> inode \<Rightarrow> u8 list" where
  "file_text s i = List.map (stored_byte s i) [0..<unat (i_size i)]"

lemma slice_text:
  "a + n \<le> unat (i_size i) \<Longrightarrow> List.map (stored_byte s i) [a..<a + n] = take n (drop a (file_text s i))"
  by (simp add: file_text_def drop_map take_map drop_upt take_upt)

section \<open>Appending to a file\<close>

definition file_blocks :: "inode \<Rightarrow> nat" where
  "file_blocks i = (if i_sectors i ! 0 = 0 then 0 else unat (i_size i) div 512 + 1)"

text \<open>A file that fits into its direct blocks.\<close>

definition file_ok :: "'a fs_scheme \<Rightarrow> inode \<Rightarrow> bool" where
  "file_ok s i \<longleftrightarrow> unat (i_size i) < 6144 \<and> (i_sectors i ! 0 = 0 \<longrightarrow> i_size i = 0) \<and> direct_ok s i (file_blocks i)"

lemma first_block:
  assumes "layout_ok s" "file_ok s i" "inodes s a = Some i" "0 < file_blocks i \<or> free_blocks s \<noteq> {}"
  obtains s' i' where "take_first_block a i s = Inr (True, s')"
    "grown a s i (file_blocks i) s' i' (unat (i_size i) div 512 + 1)" "inodes s' a = Some i'"
proof (cases "i_sectors i ! 0 = 0")
  case True
  then have n: "file_blocks i = 0" "unat (i_size i) div 512 + 1 = Suc 0" using assms(2) by (simp_all add: file_blocks_def file_ok_def)
  then have ne: "free_blocks s \<noteq> {}" using assms(4) by simp
  let ?p = "current_partition s"
  obtain b where b: "b \<in> free_blocks s" "data_lba s b \<noteq> - 1"
    "block_bitmap_alloc ?p s = Inr (data_lba s b, upd_part ?p (\<lambda>q. q\<lparr>block_bitmap := with_bit (block_bitmap q) b\<rparr>) s)"
    by (rule block_alloc [OF assms(1) ne])
  let ?u = "upd_part ?p (\<lambda>q. q\<lparr>block_bitmap := with_bit (block_bitmap q) b\<rparr>) s"
  have ds: "data_start_lba (sb (partitions ?u ?p)) = data_start s" by (simp add: upd_part_def)
  have "b < 2 ^ 32" using layout_okD(9) [OF assms(1) b(1)] by (simp add: max_lba_def)
  moreover have "b \<noteq> 0" using layout_okD(8) [OF assms(1)] b(1) by metis
  ultimately have nz: "data_lba s b - data_start s \<noteq> 0"
    using data_lba_free(1) [OF assms(1) b(1)] by (auto simp: block_no_def)
  note sync = bitmap_sync_set_inode [OF block_sync [OF assms(1) b(1)], of a "extend_inode s 0 b i"]
  have e: "i\<lparr>i_sectors := (i_sectors i)[0 := data_lba s b]\<rparr> = extend_inode s 0 b i" by (simp add: extend_inode_def)
  show thesis
    by (rule that [of "set_inode a (extend_inode s 0 b i) (take_block_no b s)" "extend_inode s 0 b i"],
        unfold take_first_block_def if_P [OF True] Let_def b(3) bindE_Inr prod.case if_not_P [OF b(2)] ds e sync n)
      (use nz grown_step [OF assms(1) _ _ b(1), of i 0 a] assms(2) n in \<open>simp_all add: file_ok_def\<close>)
next
  case False
  then show thesis
    using that [of s i] grown_refl [OF assms(1) _ assms(3)] assms(2,3)
    by (simp add: take_first_block_def file_ok_def file_blocks_def)
qed

text \<open>The state after the bytes are written, and the heap is as before but for the addresses it hands out next.\<close>

definition appended :: "nat \<Rightarrow> file_desc \<Rightarrow> inode \<Rightarrow> u32 \<Rightarrow> (u32 \<Rightarrow> u8 list) \<Rightarrow> addr list \<Rightarrow> (addr \<times> addr) list \<Rightarrow>
    'a fs_scheme \<Rightarrow> 'a fs_scheme" where
  "appended g fd i cnt d hs bs s = s\<lparr>disk := (disk s)(my_disk (this_part s) := d),
     file_table := (file_table s)[g := fd\<lparr>fd_pos := i_size i - 1 + cnt\<rparr>],
     inodes := (inodes s)(fd_inode fd \<mapsto> i\<lparr>i_size := i_size i + cnt\<rparr>), heap_next := hs, live := bs\<rparr>"

text \<open>The blocks below the end of a file in direct blocks: they are in use, and each occurs once.\<close>

lemma direct_blocks:
  assumes "direct_ok s i will" "will = m div 512 + 1"
  shows "512 * k < m \<Longrightarrow> k < will"
    "k < will \<Longrightarrow> i_sectors i ! k \<in> set (take will (i_sectors i)) \<and> data_start s \<le> i_sectors i ! k \<and> i_sectors i ! k \<le> max_lba"
    "inj_on (\<lambda>k. i_sectors i ! k) {k. 512 * k < m}"
proof -
  have len: "length (i_sectors i) = 13" "will \<le> 12" using assms(1) by (simp_all add: direct_ok_def)
  show "i_sectors i ! k \<in> set (take will (i_sectors i)) \<and> data_start s \<le> i_sectors i ! k \<and> i_sectors i ! k \<le> max_lba"
    if "k < will"
  proof -
    have "i_sectors i ! k \<in> set (take will (i_sectors i))"
      using that len by (auto simp: in_set_conv_nth intro!: exI [of _ k])
    then show ?thesis using assms(1) by (auto simp: direct_ok_def used_block_def)
  qed
  have below: "k < will" if "512 * k < m" for k
  proof -
    have "k * 512 \<le> m" using that by simp
    then show ?thesis by (simp add: assms(2) less_eq_div_iff_mult_less_eq less_Suc_eq_le)
  qed
  then show "512 * k < m \<Longrightarrow> k < will" .
  show "inj_on (\<lambda>k. i_sectors i ! k) {k. 512 * k < m}"
  proof (rule inj_onI)
    fix x y assume xy: "x \<in> {k. 512 * k < m}" "y \<in> {k. 512 * k < m}" "i_sectors i ! x = i_sectors i ! y"
    then have "x < will" "y < will" using below by auto
    moreover have "distinct (take will (i_sectors i))" using assms(1) by (simp add: direct_ok_def)
    ultimately show "x = y" using xy(3) len nth_eq_iff_index_eq [of "take will (i_sectors i)" x y] by simp
  qed
qed

lemma write_data_appends:
  assumes lay: "layout_ok s" "direct_ok s i will"
    and fd: "g < length (file_table s)" "file_table s ! g = fd" "inodes s (fd_inode fd) = Some i"
    and N: "unat (i_size i) + unat cnt < 6144" "will = (unat (i_size i) + unat cnt) div 512 + 1"
    and bl: "length blocks = 140" "\<And>k. unat (i_size i) div 512 \<le> k \<Longrightarrow> k < will \<Longrightarrow> blocks ! k = i_sectors i ! k"
    and src: "unat cnt \<le> length src" "length io_buf = 512"
    and heap: "heap_next s = ib # hs" "live s = (space s, lb) # (space s, io) # bs"
    and new: "\<And>b. b \<in> {ib, lb, io} \<Longrightarrow> b \<noteq> NULL \<and> inodes s b = None \<and> dirs s b = None"
  shows "\<exists>d. write_data g src cnt io lb io_buf blocks s = Inr (int (unat cnt), appended g fd i cnt d hs bs s) \<and>
    disk_ok d \<and> layout_ok (appended g fd i cnt d hs bs s) \<and>
    (\<forall>l. data_start s \<le> l \<and> l \<notin> set (take will (i_sectors i)) \<longrightarrow> d l = this_disk s l) \<and>
    (\<forall>j < unat (i_size i) + unat cnt. file_byte d i j =
       (if j < unat (i_size i) then file_byte (this_disk s) i j else src ! (j - unat (i_size i))))"
proof -
  let ?N = "unat (i_size i)" and ?n = "unat cnt" and ?a = "fd_inode fd"
  let ?fd = "fd\<lparr>fd_pos := i_size i - 1\<rparr>"
  let ?s0 = "s\<lparr>file_table := (file_table s)[g := ?fd]\<rparr>"
  note L = layout_okD [OF lay(1)]
  have len: "length (i_sectors i) = 13" using lay(2) by (simp add: direct_ok_def)
  note blocks = direct_blocks [OF lay(2) N(2)]
  obtain d1 where loop: "write_loop g blocks src ?n True io_buf ?s0 = Inr (written g ?fd i ?n d1 ?s0)" "disk_ok d1"
      "\<And>l. (\<And>k. ?N div 512 \<le> k \<Longrightarrow> 512 * k < ?N + ?n \<Longrightarrow> l \<noteq> i_sectors i ! k) \<Longrightarrow> d1 l = this_disk s l"
      "\<And>j. j < ?N + ?n \<Longrightarrow> file_byte d1 i j = (if j < ?N then file_byte (this_disk s) i j else src ! (j - ?N))"
    using write_loop_writes [of g ?s0 ?fd i ?N ?n True blocks src io_buf] fd N bl blocks src L(2) by auto
  define s1 where "s1 = written g ?fd i ?n d1 ?s0"
  let ?i = "i\<lparr>i_size := i_size i + cnt\<rparr>"
  have p1: "partitions s1 = partitions s" "current_partition s1 = current_partition s"
    "disk s1 = (disk s)(my_disk (this_part s) := d1)" "inodes s1 = (inodes s)(?a \<mapsto> ?i)" "heap_next s1 = ib # hs"
    "live s1 = (space s, lb) # (space s, io) # bs" "space s1 = space s" "dirs s1 = dirs s"
    using heap by (simp_all add: s1_def)
  have far: "l \<noteq> i_sectors i ! k" if "l < inode_table_lba (sb (this_part s))" "512 * k < ?N + ?n" for l k
    using blocks(2) [OF blocks(1) [OF that(2)]] that(1) L(7) by (auto simp: word_less_nat_alt word_le_nat_alt)
  have lay1: "layout_ok s1"
    by (rule layout_with_disk [OF lay(1) loop(2) _ p1(1-3)]) (use loop(3) far in blast)
  define s2 where "s2 = s1\<lparr>heap_next := hs, live := (space s, ib) # live s1\<rparr>"
  have k: "kmalloc (512 * 2) s1 = (ib, replicate (512 * 2) 0, s2)"
    using p1 new [of ib] by (simp add: kmalloc_def s2_def)
  have p2: "partitions s2 = partitions s" "current_partition s2 = current_partition s" "inodes s2 = inodes s1" "dirs s2 = dirs s"
    "space s2 = space s" "disk s2 = disk s1"
    using p1 by (simp_all add: s2_def)
  have lay2: "layout_ok s2" using lay1 layout_ok_cong(6) [of s2 s1] p1 p2 by simp
  have leni: "length (i_sectors ?i) = 13" using len by simp
  obtain d where sync: "inode_sync (current_partition s2) ?i (replicate (512 * 2) 0) s2 =
      Inr (s2\<lparr>disk := (disk s2)(my_disk (this_part s2) := d)\<rparr>)" "disk_ok d"
    "\<And>l. l < inode_table_lba (sb (this_part s2)) \<or> data_start s2 \<le> l \<Longrightarrow> d l = this_disk s2 l"
    by (rule inode_sync_layout [OF lay2 leni, of "replicate (512 * 2) 0"]) simp_all
  have same: "d l = d1 l" if "l < inode_table_lba (sb (this_part s)) \<or> data_start s \<le> l" for l
    using sync(3) that p1 p2 by simp
  define s3 where "s3 = s2\<lparr>disk := (disk s2)(my_disk (this_part s2) := d)\<rparr>"
  have p3: "live s3 = (space s3, ib) # (space s, lb) # (space s, io) # bs" "space s3 = space s"
    "inodes s3 = (inodes s)(?a \<mapsto> ?i)" "dirs s3 = dirs s"
    using p1 p2 by (simp_all add: s3_def) (simp add: s2_def p1)
  have ne: "b \<noteq> ?a" if "b \<in> {ib, lb, io}" for b using new [OF that] fd(3) by auto
  have f1: "kfree ib s3 = Inr (s3\<lparr>live := (space s, lb) # (space s, io) # bs\<rparr>)"
    using p3 new [of ib] ne [of ib] by (intro kfree_top) auto
  have f2: "kfree lb (s3\<lparr>live := (space s, lb) # (space s, io) # bs\<rparr>) = Inr (s3\<lparr>live := (space s, io) # bs\<rparr>)"
    using p3 new [of lb] ne [of lb] by (subst kfree_top [where bs = "(space s, io) # bs"]) auto
  have f3: "kfree io (s3\<lparr>live := (space s, io) # bs\<rparr>) = Inr (s3\<lparr>live := bs\<rparr>)"
    using p3 new [of io] ne [of io] by (subst kfree_top [where bs = bs]) auto
  have fin: "s3\<lparr>live := bs\<rparr> = appended g fd i cnt d hs bs s"
    using fd(1) by (simp add: s3_def s2_def s1_def written_def appended_def)
  have at: "inode_at ?a s = Inr i" "inode_at ?a s2 = Inr ?i" using fd(3) p1 p2 by (simp_all add: inode_at_def)
  have set0: "set_fd g ?fd s = Inr ?s0" and rd: "read_at (file_table s) g = Inr fd"
    using fd by (simp_all add: set_fd_def)
  have sc: "sint cnt = int ?n" using N(1) by (intro sint_small) simp
  have ibn: "ib \<noteq> NULL" using new [of ib] by simp
  have "write_data g src cnt io lb io_buf blocks s = Inr (int ?n, appended g fd i cnt d hs bs s)"
    unfolding write_data_def rd bindE_Inr at set0 loop(1) s1_def [symmetric] SECTOR_SIZE_def k prod.case
      if_not_P [OF ibn] sync(1) s3_def [symmetric] f1 f2 f3 sc fin ..
  moreover have "layout_ok (appended g fd i cnt d hs bs s)"
  proof (rule layout_with_disk [OF lay(1) sync(2)])
    show "d l = this_disk s l" if "l < inode_table_lba (sb (this_part s))" for l
      using same [of l] loop(3) [of l] far that by auto
  qed (simp_all add: appended_def)
  moreover have "d l = this_disk s l" if "data_start s \<le> l" "l \<notin> set (take will (i_sectors i))" for l
    using same [of l] loop(3) [of l] that by (auto dest!: blocks(1) dest: blocks(2))
  moreover have "file_byte d i j = (if j < ?N then file_byte (this_disk s) i j else src ! (j - ?N))" if j: "j < ?N + ?n" for j
  proof -
    have "512 * (j div 512) < ?N + ?n" using j by (intro le_less_trans [OF _ j]) simp
    then have "data_start s \<le> i_sectors i ! (j div 512)" using blocks(1,2) by blast
    then have "file_byte d i j = file_byte d1 i j" using same by (simp add: file_byte_def)
    then show ?thesis using loop(4) [OF j] by simp
  qed
  ultimately show ?thesis using sync(2) by blast
qed

lemma grownD:
  assumes "grown a s i n s' i' n'"
  shows "n \<le> n'" "layout_ok s'" "direct_ok s' i' n'" "take n (i_sectors i') = take n (i_sectors i)"
    "block_no s ` set (drop n (take n' (i_sectors i'))) \<subseteq> free_blocks s"
    "free_blocks s' = free_blocks s - block_no s ` set (drop n (take n' (i_sectors i')))"
    "card (free_blocks s') + n' = card (free_blocks s) + n"
  using assms unfolding grown_def by - (elim conjE, assumption)+

lemma grown_fields:
  assumes "grown a s i n s' i' n'"
  shows "file_table s' = file_table s" "heap_next s' = heap_next s" "live s' = live s" "dirs s' = dirs s"
    "space s' = space s" "current_partition s' = current_partition s" "inodes s' = (inodes s)(a \<mapsto> i')"
    "my_disk (this_part s') = my_disk (this_part s)" "data_start s' = data_start s" "i_size i' = i_size i"
    "inode_table_lba (sb (this_part s')) = inode_table_lba (sb (this_part s))"
    and "\<And>l. inode_table_lba (sb (this_part s)) \<le> l \<Longrightarrow> this_disk s' l = this_disk s l"
proof -
  from assms obtain m d where s': "\<forall>l. inode_table_lba (sb (this_part s)) \<le> l \<longrightarrow> d l = this_disk s l"
      "s' = s\<lparr>partitions := (partitions s)(current_partition s := (this_part s)\<lparr>block_bitmap := m\<rparr>),
               disk := (disk s)(my_disk (this_part s) := d), inodes := (inodes s)(a \<mapsto> i')\<rparr>"
    by (auto simp: grown_def)
  show "file_table s' = file_table s" "heap_next s' = heap_next s" "live s' = live s" "dirs s' = dirs s"
    "space s' = space s" "current_partition s' = current_partition s" "inodes s' = (inodes s)(a \<mapsto> i')"
    "my_disk (this_part s') = my_disk (this_part s)" "data_start s' = data_start s"
    "inode_table_lba (sb (this_part s')) = inode_table_lba (sb (this_part s))"
    by (simp_all add: s'(2) space_def running_thread_def)
  show "this_disk s' l = this_disk s l" if "inode_table_lba (sb (this_part s)) \<le> l" for l
    using s'(1) that by (simp add: s'(2))
  have "i' = i\<lparr>i_sectors := i_sectors i'\<rparr>" using assms by (simp add: grown_def)
  then show "i_size i' = i_size i" by (cases i, cases i') simp
qed

text \<open>The state while \<open>file_write\<close> holds its two blocks of the heap.\<close>

definition working :: "addr list \<Rightarrow> addr \<Rightarrow> addr \<Rightarrow> 'a fs_scheme \<Rightarrow> 'a fs_scheme" where
  "working hs lb io s = s\<lparr>heap_next := hs, live := (space s, lb) # (space s, io) # live s\<rparr>"

lemma working_simps [simp]:
  "partitions (working hs lb io s) = partitions s" "current_partition (working hs lb io s) = current_partition s"
  "disk (working hs lb io s) = disk s" "inodes (working hs lb io s) = inodes s" "dirs (working hs lb io s) = dirs s"
  "file_table (working hs lb io s) = file_table s" "space (working hs lb io s) = space s"
  "heap_next (working hs lb io s) = hs" "live (working hs lb io s) = (space s, lb) # (space s, io) # live s"
  by (simp_all add: working_def)

lemma layout_working [simp]:
  "layout_ok (working hs lb io s) = layout_ok s" "free_blocks (working hs lb io s) = free_blocks s"
  "file_ok (working hs lb io s) i = file_ok s i" "block_no (working hs lb io s) = block_no s"
  using layout_ok_cong [of "working hs lb io s" s] by (simp_all add: file_ok_def)

lemma file_write_grows:
  assumes "layout_ok s" "file_ok s i" "inodes s a = Some i" "unat (i_size i) + unat cnt < 6144"
    and "used = unat (i_size i) div 512 + 1" "will = (unat (i_size i) + unat cnt) div 512 + 1"
    and "will \<le> file_blocks i + card (free_blocks s)"
  obtains s3 s4 i4 blocks where "take_first_block a i s = Inr (True, s3)"
    "blocks_for_write a used will s3 = Inr (Some blocks, s4)" "grown a s i (file_blocks i) s4 i4 will"
    "length blocks = 140" "\<And>k. used - 1 \<le> k \<Longrightarrow> k < will \<Longrightarrow> blocks ! k = i_sectors i4 ! k"
proof -
  have room: "0 < file_blocks i \<or> free_blocks s \<noteq> {}" using assms(6,7) by (auto simp: card_gt_0_iff)
  obtain s3 i3 where first: "take_first_block a i s = Inr (True, s3)" "grown a s i (file_blocks i) s3 i3 used" "inodes s3 a = Some i3"
    unfolding assms(5) by (rule first_block [OF assms(1-3) room])
  have uw: "0 < used" "used \<le> will" "will \<le> 12" using assms(4) by (auto simp: assms(5,6) div_le_mono)
  have need: "will - used \<le> card (free_blocks s3)" using assms(7) grownD(7) [OF first(2)] by simp
  show thesis
    by (rule blocks_for_write_grows [OF grownD(2,3) [OF first(2)] first(3) uw need])
      (rule that [OF first(1)], assumption, rule grown_trans [OF first(2)], assumption+)
qed

text \<open>Growing a file keeps the bytes it has.\<close>

lemma grown_file_byte:
  assumes "grown a s i (file_blocks i) s' i' n" "layout_ok s" "file_ok s i" "j < unat (i_size i)"
  shows "file_byte (this_disk s') i' j = file_byte (this_disk s) i j"
proof -
  have nz: "file_blocks i = unat (i_size i) div 512 + 1" using assms(3,4) by (auto simp: file_blocks_def file_ok_def)
  then have q: "j div 512 < file_blocks i" using assms(4) by (simp add: div_le_mono less_Suc_eq_le)
  have "take (file_blocks i) (i_sectors i') ! (j div 512) = take (file_blocks i) (i_sectors i) ! (j div 512)"
    using grownD(4) [OF assms(1)] by simp
  then have sec: "i_sectors i' ! (j div 512) = i_sectors i ! (j div 512)" using q by simp
  have "i_sectors i ! (j div 512) \<in> set (take (file_blocks i) (i_sectors i))"
    using assms(3) q by (auto simp: file_ok_def direct_ok_def in_set_conv_nth intro!: exI [of _ "j div 512"])
  then have "data_start s \<le> i_sectors i ! (j div 512)" using assms(3) by (auto simp: file_ok_def direct_ok_def used_block_def)
  then have "inode_table_lba (sb (this_part s)) \<le> i_sectors i ! (j div 512)"
    using layout_okD(7) [OF assms(2)] by (simp add: word_le_nat_alt)
  then show ?thesis using grown_fields(12) [OF assms(1)] by (simp add: file_byte_def sec)
qed

lemma file_text_appended:
  assumes "unat (i_size i') = unat (i_size i) + n" "unat (i_size i) + n < 6144" "n \<le> length src"
    and "\<And>j. j < unat (i_size i) + n \<Longrightarrow> file_byte (this_disk s') i' j =
      (if j < unat (i_size i) then file_byte (this_disk s) i j else src ! (j - unat (i_size i)))"
  shows "file_text s' i' = file_text s i @ take n src"
proof (rule nth_equalityI)
  have len: "length (file_text s i) = unat (i_size i)" "length (file_text s' i') = unat (i_size i) + n"
    using assms(1) by (simp_all add: file_text_def)
  then show "length (file_text s' i') = length (file_text s i @ take n src)" using assms(3) by simp
  fix j assume "j < length (file_text s' i')"
  then have j: "j < unat (i_size i) + n" using len by simp
  then have "file_text s' i' ! j = file_byte (this_disk s') i' j"
    using assms(1,2) by (simp add: file_text_def stored_byte_direct)
  also have "\<dots> = (file_text s i @ take n src) ! j"
    using assms(4) [OF j] j assms(2,3) len(1) by (auto simp: nth_append file_text_def stored_byte_direct)
  finally show "file_text s' i' ! j = (file_text s i @ take n src) ! j" .
qed

text \<open>A grown file stays one in direct blocks when its size is set to what the blocks hold.\<close>

lemma grown_file_ok:
  assumes "grown a s i n s' i' will" "will = unat sz div 512 + 1" "unat sz < 6144" "layout_ok s'"
    and "partitions t = partitions s'" "current_partition t = current_partition s'"
  shows "file_ok t (i'\<lparr>i_size := sz\<rparr>)" "file_blocks (i'\<lparr>i_size := sz\<rparr>) = will"
proof -
  have d: "direct_ok s' i' will" "0 < will" using grownD(3) [OF assms(1)] assms(2) by simp_all
  then have "i_sectors i' ! 0 \<in> set (take will (i_sectors i'))"
    by (auto simp: in_set_conv_nth direct_ok_def intro!: exI [of _ 0])
  then have "used_block s' (i_sectors i' ! 0)" using d by (simp add: direct_ok_def)
  then have nz: "i_sectors i' ! 0 \<noteq> 0" using layout_okD(7) [OF assms(4)] by (auto simp: used_block_def word_le_nat_alt)
  then show blocks: "file_blocks (i'\<lparr>i_size := sz\<rparr>) = will" using assms(2) by (simp add: file_blocks_def)
  have "direct_ok s' (i'\<lparr>i_size := sz\<rparr>) will" using d by (simp add: direct_ok_def)
  then show "file_ok t (i'\<lparr>i_size := sz\<rparr>)"
    using nz assms(3) layout_ok_cong [OF assms(5,6)] by (simp add: file_ok_def blocks)
qed

text \<open>The call as a whole: it takes two blocks of the heap, grows the file to \<open>s4\<close> and writes the bytes.\<close>

lemma file_write_runs:
  assumes lay: "layout_ok s" and fok: "file_ok s i"
    and fd: "g < length (file_table s)" "file_table s ! g = fd" "inodes s (fd_inode fd) = Some i"
    and N: "unat (i_size i) + unat cnt < 6144" "unat cnt \<le> length src"
    and will: "will = (unat (i_size i) + unat cnt) div 512 + 1" "will \<le> file_blocks i + card (free_blocks s)"
    and heap: "heap_next s = io # lb # ib # hs" "\<And>b. b \<in> {io, lb, ib} \<Longrightarrow> fresh b s" "distinct [io, lb, ib]"
  obtains s4 i4 d where "grown (fd_inode fd) (working (ib # hs) lb io s) i (file_blocks i) s4 i4 will"
    "file_write g src cnt s = Inr (int (unat cnt), appended g fd i4 cnt d hs (live s) s4)"
    "layout_ok (appended g fd i4 cnt d hs (live s) s4)"
    "\<And>l. data_start s4 \<le> l \<Longrightarrow> l \<notin> set (take will (i_sectors i4)) \<Longrightarrow> d l = this_disk s4 l"
    "\<And>j. j < unat (i_size i) + unat cnt \<Longrightarrow> file_byte d i4 j =
       (if j < unat (i_size i) then file_byte (this_disk s4) i4 j else src ! (j - unat (i_size i)))"
proof -
  let ?N = "unat (i_size i)" and ?n = "unat cnt" and ?a = "fd_inode fd" and ?s1 = "s\<lparr>heap_next := lb # ib # hs, live := (space s, io) # live s\<rparr>"
  define used where "used = ?N div 512 + 1"
  define s2 where "s2 = working (ib # hs) lb io s"
  have fresh: "b \<noteq> NULL" "inodes s b = None" "dirs s b = None" if "b \<in> {io, lb, ib}" for b
    using heap(2) [OF that] by (simp_all add: fresh_def)
  have k: "kmalloc 512 s = (io, replicate 512 0, ?s1)" "kmalloc (512 + 48) ?s1 = (lb, replicate (512 + 48) 0, s2)"
    using heap(1) fresh(1) [of io] fresh(1) [of lb] by (simp_all add: kmalloc_def s2_def working_def)
  have p2: "layout_ok s2" "file_ok s2 i" "inodes s2 ?a = Some i" "will \<le> file_blocks i + card (free_blocks s2)"
    using lay fok fd(3) will(2) by (simp_all add: s2_def)
  obtain s3 s4 i4 blocks where first: "take_first_block ?a i s2 = Inr (True, s3)"
    and bw: "blocks_for_write ?a used will s3 = Inr (Some blocks, s4)" and g: "grown ?a s2 i (file_blocks i) s4 i4 will"
    and bl: "length blocks = 140" "\<And>k. used - 1 \<le> k \<Longrightarrow> k < will \<Longrightarrow> blocks ! k = i_sectors i4 ! k"
    by (rule file_write_grows [OF p2(1-3) N(1) used_def will(1) p2(4)]) blast
  note f = grown_fields [OF g]
  have size4: "i_size i4 = i_size i" using f by simp
  have new4: "b \<noteq> NULL \<and> inodes s4 b = None \<and> dirs s4 b = None" if "b \<in> {ib, lb, io}" for b
    using fresh [of b] that fd(3) f by (auto simp: s2_def)
  have "\<exists>d. write_data g src cnt io lb (replicate 512 0) blocks s4 = Inr (int ?n, appended g fd i4 cnt d hs (live s) s4) \<and>
    disk_ok d \<and> layout_ok (appended g fd i4 cnt d hs (live s) s4) \<and>
    (\<forall>l. data_start s4 \<le> l \<and> l \<notin> set (take will (i_sectors i4)) \<longrightarrow> d l = this_disk s4 l) \<and>
    (\<forall>j < unat (i_size i4) + ?n. file_byte d i4 j =
       (if j < unat (i_size i4) then file_byte (this_disk s4) i4 j else src ! (j - unat (i_size i4))))"
    by (rule write_data_appends [OF grownD(2,3) [OF g] _ _ _ _ _ bl(1) _ N(2) _ _ _ new4])
      (use fd f N(1) size4 bl(2) will(1) in \<open>auto simp: used_def s2_def\<close>)
  then obtain d where wd: "write_data g src cnt io lb (replicate 512 0) blocks s4 = Inr (int ?n, appended g fd i4 cnt d hs (live s) s4)"
    "layout_ok (appended g fd i4 cnt d hs (live s) s4)"
    "\<And>l. data_start s4 \<le> l \<Longrightarrow> l \<notin> set (take will (i_sectors i4)) \<Longrightarrow> d l = this_disk s4 l"
    "\<And>j. j < ?N + ?n \<Longrightarrow> file_byte d i4 j = (if j < ?N then file_byte (this_disk s4) i4 j else src ! (j - ?N))"
    unfolding size4 by blast
  have sum: "unat (i_size i + cnt) = ?N + ?n" using N(1) by (simp add: unat_word_ariths)
  have at: "read_at (file_table s) g = Inr fd" "inode_at ?a s = Inr i" using fd by (simp_all add: inode_at_def)
  have big: "\<not> i_size i + cnt > (12 + 512 div 4) * 512" using sum N(1) by (simp add: word_less_nat_alt)
  have nz: "io \<noteq> NULL" "lb \<noteq> NULL" using fresh(1) by auto
  have uw: "unat (i_size i div 512 + 1) = used" "unat ((i_size i + cnt) div 512 + 1) = will" "will \<le> 140"
    using N(1) sum by (simp_all add: used_def will(1) unat_word_ariths unat_div)
  have run: "file_write g src cnt s = Inr (int ?n, appended g fd i4 cnt d hs (live s) s4)"
    unfolding file_write_def at bindE_Inr if_not_P [OF big] SECTOR_SIZE_def k(1) prod.case if_not_P [OF nz(1)]
      k(2) if_not_P [OF nz(2)] first
    by (simp add: Let_def uw bw wd(1))
  show thesis by (rule that [OF g [unfolded s2_def] run wd(2-4)])
qed

text \<open>
  C2. Appending to a file that stays within its direct blocks writes the bytes behind the old content,
  which stays; the blocks it adds were free and are now in use, in memory and on disk; no other block
  of the data area changes, and the invariants of the partition and of the file are kept. (The
  position of the descriptor ends up one before the end of the file.)
\<close>

theorem file_write_appends:
  assumes lay: "layout_ok s" and fok: "file_ok s i"
    and fd: "g < length (file_table s)" "file_table s ! g = fd" "inodes s (fd_inode fd) = Some i"
    and N: "unat (i_size i) + unat cnt < 6144" "unat cnt \<le> length src"
    and room: "(unat (i_size i) + unat cnt) div 512 + 1 \<le> file_blocks i + card (free_blocks s)"
    and heap: "heap_next s = io # lb # ib # hs" "\<And>b. b \<in> {io, lb, ib} \<Longrightarrow> fresh b s" "distinct [io, lb, ib]"
  shows "\<exists>s' i'. file_write g src cnt s = Inr (int (unat cnt), s') \<and>
    layout_ok s' \<and> file_ok s' i' \<and> inodes s' = (inodes s)(fd_inode fd \<mapsto> i') \<and> i_size i' = i_size i + cnt \<and>
    file_text s' i' = file_text s i @ take (unat cnt) src \<and>
    (let new = block_no s ` set (drop (file_blocks i) (take (file_blocks i') (i_sectors i'))) in
       new \<subseteq> free_blocks s \<and> free_blocks s' = free_blocks s - new) \<and>
    (\<forall>l. data_start s \<le> l \<and> l \<notin> set (i_sectors i') \<longrightarrow> this_disk s' l = this_disk s l) \<and>
    file_table s' = (file_table s)[g := fd\<lparr>fd_pos := i_size i' - 1\<rparr>] \<and> live s' = live s \<and> heap_next s' = hs"
proof -
  let ?N = "unat (i_size i)" and ?n = "unat cnt" and ?a = "fd_inode fd" and ?s2 = "working (ib # hs) lb io s"
  define will where "will = (?N + ?n) div 512 + 1"
  obtain s4 i4 d where g: "grown ?a ?s2 i (file_blocks i) s4 i4 will"
    and run: "file_write g src cnt s = Inr (int ?n, appended g fd i4 cnt d hs (live s) s4)"
    and lay': "layout_ok (appended g fd i4 cnt d hs (live s) s4)"
    and d: "\<And>l. data_start s4 \<le> l \<Longrightarrow> l \<notin> set (take will (i_sectors i4)) \<Longrightarrow> d l = this_disk s4 l"
      "\<And>j. j < ?N + ?n \<Longrightarrow> file_byte d i4 j = (if j < ?N then file_byte (this_disk s4) i4 j else src ! (j - ?N))"
    using file_write_runs [OF lay fok fd N will_def room [folded will_def] heap] by blast
  let ?i = "i4\<lparr>i_size := i_size i4 + cnt\<rparr>" and ?s = "appended g fd i4 cnt d hs (live s) s4"
  note f = grown_fields [OF g]
  have size4: "i_size i4 = i_size i" using f by simp
  have sum: "unat (i_size i + cnt) = ?N + ?n" using N(1) by (simp add: unat_word_ariths)
  have ps: "partitions ?s = partitions s4" "current_partition ?s = current_partition s4" "disk ?s (my_disk (this_part s4)) = d"
    by (simp_all add: appended_def)
  have ok: "file_ok ?s ?i" "file_blocks ?i = will"
    using grown_file_ok [OF g _ _ grownD(2) [OF g] ps(1,2), of "i_size i4 + cnt"] sum N(1) by (simp_all add: size4 will_def)
  have old: "file_byte (this_disk s4) i4 j = file_byte (this_disk s) i j" if "j < ?N" for j
    using grown_file_byte [OF g _ _ that] lay fok by simp
  have whole: "file_text ?s ?i = file_text s i @ take ?n src"
    by (rule file_text_appended) (use sum N d(2) old in \<open>simp_all add: size4 ps file_byte_def\<close>)
  have other: "this_disk ?s l = this_disk s l" if "data_start s \<le> l" "l \<notin> set (i_sectors ?i)" for l
  proof -
    have "inode_table_lba (sb (this_part s)) \<le> l" using layout_okD(7) [OF lay] that(1) by (simp add: word_le_nat_alt)
    then have "this_disk s4 l = this_disk s l" using f(12) [of l] by simp
    moreover have "d l = this_disk s4 l" using d(1) [of l] that set_take_subset [of will "i_sectors i4"] f(9) by auto
    ultimately show ?thesis by (simp add: ps)
  qed
  have "free_blocks ?s = free_blocks s4" using layout_ok_cong [OF ps(1,2)] by simp
  then have new: "let new = block_no s ` set (drop (file_blocks i) (take (file_blocks ?i) (i_sectors ?i))) in
       new \<subseteq> free_blocks s \<and> free_blocks ?s = free_blocks s - new"
    using grownD(5,6) [OF g] by (simp add: ok(2) Let_def)
  show ?thesis
    by (intro exI [of _ ?s] exI [of _ ?i] conjI)
      (use run lay' ok(1) whole other size4 f new in \<open>simp_all add: appended_def algebra_simps\<close>)
qed

section \<open>Reading the bytes\<close>

lemma read_loop_reads:
  assumes "g < length (file_table s)" "file_table s ! g = fd" "unat (fd_pos fd) = P" "P + n < 71680"
    and "length blocks = 140" "\<And>k. P div 512 \<le> k \<Longrightarrow> 512 * k < P + n \<Longrightarrow> blocks ! k = block_lba s i k \<and> block_lba s i k \<le> max_lba"
    and "m + n \<le> length dst" "length io_buf = 512" "disk_ok (this_disk s)"
  shows "read_loop g blocks dst m n io_buf s =
    Inr (take m dst @ List.map (stored_byte s i) [P..<P + n] @ drop (m + n) dst,
         s\<lparr>file_table := (file_table s)[g := fd\<lparr>fd_pos := fd_pos fd + of_nat n\<rparr>]\<rparr>)"
  using assms
proof (induction n arbitrary: s fd P m dst io_buf rule: less_induct)
  case (less n)
  note P = less.prems
  show ?case
  proof (cases "n = 0")
    case True
    have "(file_table s)[g := fd\<lparr>fd_pos := fd_pos fd + of_nat 0\<rparr>] = file_table s" using P(2) by auto
    then show ?thesis unfolding True by (subst read_loop.simps) simp
  next
    case False
    let ?q = "P div 512" and ?off = "P mod 512"
    let ?lba = "block_lba s i ?q"
    define c where "c = min n (512 - ?off)"
    have c: "0 < c" "c \<le> n" "?off + c \<le> 512" "c = n \<or> ?off + c = 512" using False by (auto simp: c_def min_def)
    have "512 * ?q \<le> P" by simp
    then have sec: "blocks ! ?q = ?lba" "?lba \<le> max_lba" using P(6) [of ?q] False by auto
    define dst' where "dst' = take m dst @ take c (drop ?off (this_disk s ?lba)) @ drop (m + c) dst"
    let ?fd = "fd\<lparr>fd_pos := fd_pos fd + of_nat c\<rparr>"
    let ?s = "s\<lparr>file_table := (file_table s)[g := ?fd]\<rparr>"
    have chunk: "(if n < 512 - ?off then n else 512 - ?off) = c" by (simp add: c_def min_def)
    have rd: "ide_read (my_disk (this_part s)) ?lba (replicate 512 0) 1 s = Inr (this_disk s ?lba)"
      using sec(2) P(9) by simp
    have cp: "memcpy_at dst m (drop ?off (this_disk s ?lba)) c = Inr dst'"
      using P(7,9) c by (subst memcpy_at_eq) (auto simp: dst'_def)
    have mem: "memset (Some io_buf) 0 512 = Inr (replicate 512 0)" using P(8) by simp
    have at: "read_at (file_table s) g = Inr fd" "read_at blocks ?q = Inr ?lba"
      using P(1,2,4,5) sec(1) by (simp_all add: less_mult_imp_div_less)
    have set: "set_fd g ?fd s = Inr ?s" using P(1) by (simp add: set_fd_def)
    have step: "read_loop g blocks dst m n io_buf s = read_loop g blocks dst' (m + c) (n - c) (this_disk s ?lba) ?s"
      by (subst read_loop.simps) (unfold if_not_P [OF False] at bindE_Inr SECTOR_SIZE_def mem Let_def P(3) chunk rd cp set, rule refl)
    have u: "unat (fd_pos ?fd) = P + c" using P(3,4) c by (simp add: unat_word_ariths unat_of_nat_small)
    have mono: "?q \<le> (P + c) div 512" by (simp add: div_le_mono)
    have len': "length dst' = length dst" using P(7,9) c by (simp add: dst'_def)
    have same: "stored_byte ?s i = stored_byte s i" "block_lba ?s i = block_lba s i"
      by (simp_all add: stored_byte_def block_lba_def fun_eq_iff)
    have "read_loop g blocks dst' (m + c) (n - c) (this_disk s ?lba) ?s =
      Inr (take (m + c) dst' @ List.map (stored_byte ?s i) [P + c..<P + c + (n - c)] @ drop (m + c + (n - c)) dst',
         ?s\<lparr>file_table := (file_table ?s)[g := ?fd\<lparr>fd_pos := fd_pos ?fd + of_nat (n - c)\<rparr>]\<rparr>)"
    proof (rule less.IH)
      show "blocks ! k = block_lba ?s i k \<and> block_lba ?s i k \<le> max_lba"
        if "(P + c) div 512 \<le> k" "512 * k < P + c + (n - c)" for k
        unfolding same using P(6) [of k] that mono c by simp
    qed (use P c u len' in auto)
    moreover have "take (m + c) dst' = take m dst @ List.map (stored_byte s i) [P..<P + c]"
    proof -
      have "take c (drop ?off (this_disk s ?lba)) = List.map (stored_byte s i) [P..<P + c]"
      proof (rule nth_equalityI)
        show "length (take c (drop ?off (this_disk s ?lba))) = length (List.map (stored_byte s i) [P..<P + c])"
          using P(9) c by simp
        fix x assume "x < length (take c (drop ?off (this_disk s ?lba)))"
        then have x: "x < c" by simp
        have "P + x = 512 * ?q + (?off + x)" "?off + x < 512" using x c(3) mult_div_mod_eq [of 512 P] by linarith+
        moreover have "(512 * y + z) div 512 = y \<and> (512 * y + z) mod 512 = z" if "z < 512" for y z :: nat using that by simp
        ultimately have "(P + x) div 512 = ?q" "(P + x) mod 512 = ?off + x" by metis+
        then show "take c (drop ?off (this_disk s ?lba)) ! x = List.map (stored_byte s i) [P..<P + c] ! x"
          using x P(9) c(3) by (simp add: stored_byte_def)
      qed
      then show ?thesis using P(7) c by (simp add: dst'_def)
    qed
    moreover have "drop (m + n) dst' = drop (m + n) dst" using P(7,9) c by (simp add: dst'_def add.commute)
    moreover have "[P..<P + n] = [P..<P + c] @ [P + c..<P + n]" using upt_add_eq_append [of P "P + c" "n - c"] c(2) by simp
    moreover have "(of_nat c :: u32) + of_nat (n - c) = of_nat n" using c(2) by (simp add: of_nat_diff)
    ultimately show ?thesis using c(2) by (simp add: step same add.assoc)
  qed
qed

text \<open>The table of blocks for the cases that \<open>file_read\<close> gets right.\<close>

lemma blocks_for_read_eq:
  assumes "length (i_sectors i) = 13" "disk_ok (this_disk s)" "b \<le> e" "e < 139"
    and case_ok: "b = e \<or> b < 12 \<and> e \<noteq> 12 \<or> b < 12 \<and> e = 12 \<and> n \<le> 12 * 512"
    and ind: "12 \<le> e \<Longrightarrow> i_sectors i ! 12 \<noteq> 0 \<and> i_sectors i ! 12 \<le> max_lba"
  obtains blocks where "blocks_for_read i b e s = Inr blocks" "length blocks = 140"
    "\<And>k. b \<le> k \<Longrightarrow> k \<le> e \<Longrightarrow> 512 * k < n \<Longrightarrow> blocks ! k = block_lba s i k"
proof -
  let ?dir = "\<lambda>m. take b (replicate 140 0) @ take (m - b) (drop b (i_sectors i)) @ drop m (replicate 140 0)"
  have dir: "length (?dir m) = 140 \<and> (\<forall>k. b \<le> k \<and> k < m \<longrightarrow> ?dir m ! k = i_sectors i ! k)" if "b \<le> m" "m \<le> 13" for m
    using that assms(1) by (auto simp: nth_append)
  have table: "ide_read_table (my_disk (this_part s)) (i_sectors i ! 12) ws s =
      Inr (take 12 ws @ words_at (this_disk s (i_sectors i ! 12)) 0 128 @ drop 140 ws)" if "length ws = 140" "12 \<le> e" for ws
    using that ind [OF that(2)] assms(2) by (simp add: ide_read_table_def)
  have tlen: "length (words_at d 0 128) = 128" for d by (simp add: words_at_def)
  have tnth: "(take 12 ws @ words_at (this_disk s (i_sectors i ! 12)) 0 128 @ drop 140 ws) ! k =
      (if k < 12 then ws ! k else block_lba s i k)" if "length ws = 140" "k < 140" for ws k
    using that tlen by (auto simp: nth_append words_at_def block_lba_def)
  consider "b = e" "e < 12" | "b = e" "12 \<le> e" | "b < e" "e < 12" | "b < 12" "e = 12" "n \<le> 12 * 512" | "b < 12" "12 < e"
    using assms(3) case_ok by linarith
  then show thesis
  proof cases
    case 1
    then show thesis
      by (intro that [of "(replicate 140 0)[e := i_sectors i ! e]"]) (auto simp: blocks_for_read_def Let_def block_lba_def)
  next
    case 2
    show thesis
      by (rule that [of "take 12 (replicate 140 0) @ words_at (this_disk s (i_sectors i ! 12)) 0 128 @ drop 140 (replicate 140 0)"])
        (use 2 table [of "replicate 140 0"] tlen assms(4) tnth [of "replicate 140 0"] in \<open>auto simp: blocks_for_read_def Let_def\<close>)
  next
    case 3
    show thesis
      by (rule that [of "?dir (e + 1)"]) (use 3 dir [of "e + 1"] in \<open>auto simp: blocks_for_read_def Let_def block_lba_def\<close>)
  next
    case 4
    show thesis
      by (rule that [of "?dir 13"]) (use 4 dir [of 13] in \<open>auto simp: blocks_for_read_def Let_def block_lba_def\<close>)
  next
    case 5
    have l: "length (?dir 12) = 140" using dir [of 12] 5 by simp
    show thesis
      by (rule that [of "take 12 (?dir 12) @ words_at (this_disk s (i_sectors i ! 12)) 0 128 @ drop 140 (?dir 12)"])
        (use 5 ind table [OF l] tlen assms(4) tnth [OF l] dir [of 12] in \<open>auto simp: blocks_for_read_def Let_def block_lba_def\<close>)
  qed
qed

text \<open>Behind the direct blocks, a read across blocks finds an empty table, that is sector 0.\<close>

lemma blocks_for_read_unfilled:
  "12 \<le> b \<Longrightarrow> b < e \<Longrightarrow> blocks_for_read i b e s = Inr (replicate 140 0)"
  by (simp add: blocks_for_read_def Let_def)

text \<open>A read of \<open>n\<close> bytes that are there: the two buffers come and go, and the loop moves the bytes.\<close>

lemma file_read_runs:
  assumes fd: "g < length (file_table s)" "file_table s ! g = fd"
      "read_at (file_table s) g = Inr fd" "inode_at (fd_inode fd) s = Inr i"
    and disk: "disk_ok (this_disk s)" "length (i_sectors i) = 13"
    and P: "P = unat (fd_pos fd)" "unat (i_size i) < 139 * 512"
    and nN: "P + n \<le> unat (i_size i)" "n \<le> length dst"
    and cases: "P div 512 = (P + n) div 512 \<or> P div 512 < 12 \<and> ((P + n) div 512 \<noteq> 12 \<or> P + n \<le> 12 * 512)"
    and lba: "\<And>k. P div 512 \<le> k \<Longrightarrow> 512 * k < P + n \<Longrightarrow> block_lba s i k \<le> max_lba"
    and table: "12 \<le> (P + n) div 512 \<Longrightarrow> i_sectors i ! 12 \<noteq> 0 \<and> i_sectors i ! 12 \<le> max_lba"
    and heap: "heap_next s = io # lb # hs" "fresh io s" "fresh lb s" "io \<noteq> lb"
    and w: "unat w = n" "w = (if fd_pos fd + cnt > i_size i then i_size i - fd_pos fd else cnt)"
    and go: "\<not> (fd_pos fd + cnt > i_size i \<and> w = 0)"
  shows "file_read g dst cnt s = Inr (int n, List.map (stored_byte s i) [P..<P + n] @ drop n dst,
      s\<lparr>file_table := (file_table s)[g := fd\<lparr>fd_pos := fd_pos fd + of_nat n\<rparr>], heap_next := hs\<rparr>)"
proof -
  have k1: "kmalloc 512 s = (io, replicate 512 0, s\<lparr>heap_next := lb # hs, live := (space s, io) # live s\<rparr>)"
    using heap by (simp add: kmalloc_def fresh_def)
  define s1 where "s1 = s\<lparr>heap_next := lb # hs, live := (space s, io) # live s\<rparr>"
  have k2: "kmalloc (512 + 48) s1 = (lb, replicate (512 + 48) 0, s1\<lparr>heap_next := hs, live := (space s, lb) # live s1\<rparr>)"
    using heap by (simp add: kmalloc_def fresh_def s1_def)
  define s2 where "s2 = s1\<lparr>heap_next := hs, live := (space s, lb) # live s1\<rparr>"
  have p2: "file_table s2 = file_table s" "this_disk s2 = this_disk s" "current_partition s2 = current_partition s"
    by (simp_all add: s2_def s1_def)
  have same: "block_lba s2 i = block_lba s i" "stored_byte s2 i = stored_byte s i"
    by (simp_all add: stored_byte_def block_lba_def fun_eq_iff s2_def s1_def)
  have e139: "(P + n) div 512 < 139" using nN(1) P(2) by (simp add: less_mult_imp_div_less)
  then have b139: "P div 512 < 139" using div_le_mono [of P "P + n" 512] by simp
  have idx: "unat (fd_pos fd div 512) = P div 512" "unat ((fd_pos fd + w) div 512) = (P + n) div 512"
    using P nN(1) w(1) by (simp_all add: unat_div unat_word_ariths)
  have le: "P div 512 \<le> (P + n) div 512" by (simp add: div_le_mono)
  have len2: "disk_ok (this_disk s2)" using disk p2 by simp
  obtain blocks where bl: "blocks_for_read i (P div 512) ((P + n) div 512) s2 = Inr blocks" "length blocks = 140"
      "\<And>k. P div 512 \<le> k \<Longrightarrow> k \<le> (P + n) div 512 \<Longrightarrow> 512 * k < P + n \<Longrightarrow> blocks ! k = block_lba s2 i k"
    by (rule blocks_for_read_eq [OF disk(2) len2 le e139 _ table, of "P + n"]) (use cases in auto)
  have "k \<le> (P + n) div 512" if "512 * k < P + n" for k
    using that by (simp add: less_eq_div_iff_mult_less_eq mult.commute)
  then have bl': "blocks ! k = block_lba s2 i k \<and> block_lba s2 i k \<le> max_lba" if "P div 512 \<le> k" "512 * k < P + n" for k
    using bl(3) lba same that by auto
  let ?fd = "fd\<lparr>fd_pos := fd_pos fd + of_nat n\<rparr>" and ?out = "List.map (stored_byte s i) [P..<P + n] @ drop n dst"
  let ?s3 = "s2\<lparr>file_table := (file_table s2)[g := ?fd]\<rparr>"
  have loop: "read_loop g blocks dst 0 n (replicate 512 0) s2 = Inr (?out, ?s3)"
    using read_loop_reads [of g s2 fd P n blocks i 0 dst "replicate 512 0"] fd p2 P nN(1) bl(2) bl' nN(2) len2 same by simp
  have l3: "live ?s3 = (space s, lb) # (space s, io) # live s" "space ?s3 = space s" "inodes ?s3 = inodes s" "dirs ?s3 = dirs s"
    by (simp_all add: s2_def s1_def space_def running_thread_def)
  have f1: "kfree lb ?s3 = Inr (?s3\<lparr>live := (space s, io) # live s\<rparr>)"
    using l3 heap by (intro kfree_top) (auto simp: fresh_def)
  have f2: "kfree io (?s3\<lparr>live := (space s, io) # live s\<rparr>) = Inr (?s3\<lparr>live := live s\<rparr>)"
    using l3 heap by (subst kfree_top [where bs = "live s"]) (auto simp: fresh_def)
  have fin: "?s3\<lparr>live := live s\<rparr> = s\<lparr>file_table := (file_table s)[g := ?fd], heap_next := hs\<rparr>"
    by (simp add: s2_def s1_def)
  have sw: "sint w = int n" using w(1) nN(1) P(2) by (subst sint_small) simp_all
  have nz: "io \<noteq> NULL" "lb \<noteq> NULL" using heap by (simp_all add: fresh_def)
  show "file_read g dst cnt s = Inr (int n, ?out, s\<lparr>file_table := (file_table s)[g := ?fd], heap_next := hs\<rparr>)"
    unfolding file_read_def fd(3,4) bindE_Inr w(2) [symmetric] Let_def if_not_P [OF go] SECTOR_SIZE_def k1 prod.case
      if_not_P [OF nz(1)] s1_def [symmetric] k2 if_not_P [OF nz(2)] s2_def [symmetric] idx w(1)
      asserting_True [OF conjI [OF b139 e139]] bl(1) loop f1 f2 fin sw ..
qed

text \<open>
  C4. \<open>file_read\<close> answers the bytes of the file from the position on, as many as asked for and there, and moves
  the position behind them; at the end of the file it answers -1. This holds for reads within one block,
  from a direct block on into direct blocks, and from there past block 12: a read that ends in block 12, or
  that starts behind the direct blocks and crosses a block, takes wrong blocks.
\<close>

theorem file_read_slice:
  assumes fd: "g < length (file_table s)" "file_table s ! g = fd" "inodes s (fd_inode fd) = Some i"
    and disk: "disk_ok (this_disk s)" "length (i_sectors i) = 13"
    and P: "P = unat (fd_pos fd)" "P \<le> unat (i_size i)" "unat (i_size i) < 139 * 512" "P + unat cnt < 2 ^ 32"
    and n: "n = min (unat cnt) (unat (i_size i) - P)" "n \<le> length dst"
    and cases: "P div 512 = (P + n) div 512 \<or> P div 512 < 12 \<and> ((P + n) div 512 \<noteq> 12 \<or> P + n \<le> 12 * 512)"
    and lba: "\<And>k. P div 512 \<le> k \<Longrightarrow> 512 * k < P + n \<Longrightarrow> block_lba s i k \<le> max_lba"
    and table: "12 \<le> (P + n) div 512 \<Longrightarrow> i_sectors i ! 12 \<noteq> 0 \<and> i_sectors i ! 12 \<le> max_lba"
    and heap: "heap_next s = io # lb # hs" "fresh io s" "fresh lb s" "io \<noteq> lb"
  shows "file_read g dst cnt s = (if n = 0 \<and> cnt \<noteq> 0 then Inr (- 1, dst, s)
    else Inr (int n, take n (drop P (file_text s i)) @ drop n dst,
      s\<lparr>file_table := (file_table s)[g := fd\<lparr>fd_pos := fd_pos fd + of_nat n\<rparr>], heap_next := hs\<rparr>))"
proof -
  let ?N = "unat (i_size i)"
  define w where "w = (if fd_pos fd + cnt > i_size i then i_size i - fd_pos fd else cnt)"
  have at: "read_at (file_table s) g = Inr fd" "inode_at (fd_inode fd) s = Inr i" using fd by (simp_all add: inode_at_def)
  have sum: "unat (fd_pos fd + cnt) = P + unat cnt" using P by (simp add: unat_word_ariths)
  have over: "fd_pos fd + cnt > i_size i \<longleftrightarrow> ?N < P + unat cnt" by (simp add: word_less_nat_alt sum)
  have "unat (i_size i - fd_pos fd) = ?N - P" using P by (simp add: unat_sub word_le_nat_alt)
  then have w: "unat w = n" using n(1) P(2) over by (auto simp: w_def min_def)
  have w0: "w = 0 \<longleftrightarrow> n = 0" using w by (metis unat_0 unat_eq_zero_iff)
  define c where "c = unat cnt"
  have cnt0: "cnt = 0 \<longleftrightarrow> c = 0" by (simp add: c_def)
  have stop: "fd_pos fd + cnt > i_size i \<and> w = 0 \<longleftrightarrow> n = 0 \<and> cnt \<noteq> 0"
    unfolding over w0 cnt0 using n(1) P(2) unfolding c_def [symmetric] by (auto simp: min_def split: if_splits)
  show ?thesis
  proof (cases "n = 0 \<and> cnt \<noteq> 0")
    case True
    then have "fd_pos fd + cnt > i_size i \<and> w = 0" using stop by blast
    then show ?thesis using True unfolding file_read_def at bindE_Inr w_def [symmetric] Let_def by simp
  next
    case False
    then have go: "\<not> (fd_pos fd + cnt > i_size i \<and> w = 0)" using stop by blast
    have nN: "P + n \<le> ?N" using n(1) P(2) by simp
    note runs = file_read_runs [OF fd(1,2) at disk P(1,3) nN n(2) cases lba table heap w w_def go]
    show ?thesis using False runs slice_text [OF nN] by auto
  qed
qed

section \<open>A file of three bytes\<close>

definition abc_fs :: "inode \<Rightarrow> u8 list \<Rightarrow> fs" where
  "abc_fs i sec = tiny_fs\<lparr>disk := (\<lambda>_ l. if l = 3 then 7 # replicate 511 0 else if l = 700 then sec else replicate 512 0),
     inodes := [64 \<mapsto> i], file_table := (file_table tiny_fs)[0 := \<lparr>fd_pos = 0, fd_flag = 2, fd_inode = 64\<rparr>]\<rparr>"

lemma abc_simps [simp]:
  "disk (abc_fs i sec) = (\<lambda>_ l. if l = 3 then 7 # replicate 511 0 else if l = 700 then sec else replicate 512 0)"
  "partitions (abc_fs i sec) = (\<lambda>_. tiny_part)" "current_partition (abc_fs i sec) = 1" "inodes (abc_fs i sec) = [64 \<mapsto> i]"
  "heap_next (abc_fs i sec) = [128, 192, 256, 320]" "live (abc_fs i sec) = [(NULL, 64)]" "dirs (abc_fs i sec) = (\<lambda>_. None)"
  "file_table (abc_fs i sec) \<noteq> []" "file_table (abc_fs i sec) ! 0 = \<lparr>fd_pos = 0, fd_flag = 2, fd_inode = 64\<rparr>"
  by (simp_all add: abc_fs_def tiny_fs_def fs.defs terminal.defs)

lemma abc_layout:
  assumes "length sec = 512"
  shows "layout_ok (abc_fs i sec)" "3 \<in> free_blocks (abc_fs i sec)"
proof -
  have "table_ok (abc_fs i sec) 1"
    using tiny_table assms by (auto simp: table_ok_def Let_def disk_ok_def)
  moreover have "bitmap_on_disk (abc_fs i sec)" by (simp add: bitmap_on_disk_def Let_def tiny_part_def)
  moreover have "0 \<notin> free_blocks (abc_fs i sec)" by (simp add: free_blocks_def tiny_part_def taken_def)
  moreover have "k < 4096" if "k \<in> free_blocks (abc_fs i sec)" for k
    using that by (simp add: free_blocks_def tiny_part_def bit_cnt_def)
  ultimately show "layout_ok (abc_fs i sec)"
    by (fastforce simp: layout_ok_def Let_def tiny_part_def max_lba_def)
  show "3 \<in> free_blocks (abc_fs i sec)" by (simp add: free_blocks_def tiny_part_def bit_cnt_def taken_def)
qed

lemma file_write_appends_witness:
  "\<exists>s' i'. file_write 0 [97, 98, 99] 3 (abc_fs (inode_init 1) (replicate 512 0)) = Inr (3, s') \<and>
     inodes s' 64 = Some i' \<and> file_text s' i' = [97, 98, 99]"
proof -
  let ?s = "abc_fs (inode_init 1) (replicate 512 0)"
  have "layout_ok ?s" "3 \<in> free_blocks ?s" by (simp_all add: abc_layout)
  moreover have "file_ok ?s (inode_init 1)"
    by (auto simp: file_ok_def direct_ok_def file_blocks_def inode_init_def nth_Cons')
  moreover have "file_blocks (inode_init 1) = 0" "unat (i_size (inode_init 1)) = 0" by (simp_all add: file_blocks_def inode_init_def)
  moreover have "fresh b ?s" if "b \<in> {128, 192, 256}" for b using that by (auto simp: fresh_def)
  moreover have "0 < card (free_blocks ?s)" using calculation(2) by (auto simp: card_gt_0_iff)
  ultimately obtain s' i' where "file_write 0 [97, 98, 99] 3 ?s = Inr (3, s')" "inodes s' = (inodes ?s)(64 \<mapsto> i')"
      "file_text s' i' = file_text ?s (inode_init 1) @ [97, 98, 99]"
    using file_write_appends [of ?s "inode_init 1" 0 "\<lparr>fd_pos = 0, fd_flag = 2, fd_inode = 64\<rparr>" 3 "[97, 98, 99]" 128 192 256 "[320]"]
    by auto
  moreover have "file_text ?s (inode_init 1) = []" by (simp add: file_text_def inode_init_def)
  ultimately show ?thesis by (intro exI [of _ s'] exI [of _ i']) simp
qed

lemma file_read_slice_witness:
  "\<exists>s'. file_read 0 [0, 0, 0, 0] 9 (abc_fs ((inode_init 1)\<lparr>i_size := 3, i_sectors := 700 # replicate 12 0\<rparr>)
     ([97, 98, 99] @ replicate 509 0)) = Inr (3, [97, 98, 99, 0], s')"
proof -
  let ?i = "(inode_init 1)\<lparr>i_size := 3, i_sectors := 700 # replicate 12 0\<rparr>"
  let ?fd = "\<lparr>fd_pos = 0, fd_flag = 2, fd_inode = 64\<rparr>"
  let ?s = "abc_fs ?i ([97, 98, 99] @ replicate 509 0)"
  have "file_text ?s ?i = [97, 98, 99]"
    by (simp add: file_text_def stored_byte_def block_lba_def upt_rec)
  moreover have "fresh 128 ?s" "fresh 192 ?s" by (simp_all add: fresh_def)
  moreover have "disk_ok (this_disk ?s)" by (simp add: disk_ok_def)
  moreover have "block_lba ?s ?i k \<le> max_lba" if "512 * k < 3" for k using that by (cases k) (simp_all add: block_lba_def max_lba_def)
  ultimately have "file_read 0 [0, 0, 0, 0] 9 ?s = (if (3 :: nat) = 0 \<and> (9 :: u32) \<noteq> 0 then Inr (- 1, [0, 0, 0, 0], ?s)
    else Inr (int 3, take 3 (drop 0 (file_text ?s ?i)) @ drop 3 [0, 0, 0, 0],
      ?s\<lparr>file_table := (file_table ?s)[0 := ?fd\<lparr>fd_pos := fd_pos ?fd + of_nat 3\<rparr>], heap_next := [256, 320]\<rparr>))"
    by (intro file_read_slice [where io = 128 and lb = 192 and P = 0]) simp_all
  then show ?thesis using \<open>file_text ?s ?i = [97, 98, 99]\<close> by simp
qed

end
