(* ===== verification/Dir_Data.thy ===== *)
theory Dir_Data
  imports File_Data
begin

text \<open>
  What adding an entry to a directory and searching one do (\<open>sync_dir_entry\<close> and \<open>search_dir_entry\<close> of
  \<open>fs/dir.c\<close>), for directories in direct blocks. The abstract view of a directory is the list of
  its slots of 24 bytes, block after block.
\<close>

section \<open>Slots\<close>

definition slot :: "u8 list \<Rightarrow> nat \<Rightarrow> u8 list" where "slot mem k = take 24 (drop (24 * k) mem)"

definition slots :: "u8 list \<Rightarrow> u8 list list" where "slots mem = List.map (slot mem) [0..<21]"

definition dir_slots :: "'a fs_scheme \<Rightarrow> u32 list \<Rightarrow> u8 list list" where
  "dir_slots s ls = concat (List.map (\<lambda>l. slots (this_disk s l)) ls)"

definition entry_name :: "u8 list \<Rightarrow> u8 list" where "entry_name e = text_of (take 16 e)"

text \<open>A free slot is cleared; the name in a slot ends within its 16 bytes.\<close>

definition slot_ok :: "u8 list \<Rightarrow> bool" where
  "slot_ok e \<longleftrightarrow> length e = 24 \<and> terminated (take 16 e) \<and> (word_at e 20 = FT_UNKNOW \<longrightarrow> e = replicate 24 0)"

lemma text_of_prefix:
  assumes "terminated (take m xs)" shows "text_of xs = text_of (take m xs)" "terminated xs"
proof -
  have "text_of (as @ bs) = text_of as" if "terminated as" for as bs using that by (induction as) auto
  from this [OF assms, of "drop m xs"] show "text_of xs = text_of (take m xs)" by simp
  show "terminated xs" using assms by (auto simp: terminated_def dest: in_set_takeD)
qed

lemma find_append: "List.find P (xs @ ys) = (case List.find P xs of None \<Rightarrow> List.find P ys | Some x \<Rightarrow> Some x)"
  by (induction xs) auto

lemma find_map: "List.find P (List.map f xs) = map_option f (List.find (\<lambda>x. P (f x)) xs)"
  by (induction xs) auto

lemma find_cong_set: "(\<And>x. x \<in> set xs \<Longrightarrow> P x = Q x) \<Longrightarrow> List.find P xs = List.find Q xs"
  by (induction xs) auto

lemma entry_name_zero [simp]: "entry_name (replicate 24 0) = []"
  by (simp add: entry_name_def text_of_def numeral_eq_Suc)

lemma slot_text:
  assumes "terminated (take 16 (slot mem k))"
  shows "terminated (drop (24 * k) mem)" "text_of (drop (24 * k) mem) = entry_name (slot mem k)"
proof -
  have t: "take 16 (slot mem k) = take 16 (drop (24 * k) mem)" by (simp add: slot_def)
  note p = text_of_prefix [OF assms [unfolded t]]
  show "terminated (drop (24 * k) mem)" by (rule p(2))
  show "text_of (drop (24 * k) mem) = entry_name (slot mem k)" by (simp add: entry_name_def t p(1))
qed

section \<open>Searching\<close>

lemma search_entries_eq:
  assumes "terminated nm" "\<And>k. k < idx + n \<Longrightarrow> terminated (take 16 (slot mem k))"
  shows "search_entries nm mem n idx = Inr (List.find (\<lambda>k. entry_name (slot mem k) = text_of nm) [idx..<idx + n])"
  using assms(2)
proof (induction n arbitrary: idx)
  case (Suc n)
  have "terminated (take 16 (slot mem idx))" using Suc.prems by simp
  note t = slot_text [OF this]
  obtain r where r: "strcmp (Some (drop (24 * idx) mem)) (Some nm) = Inr r"
    using strcmp_total [OF t(1) assms(1)] by blast
  have "r = 0 \<longleftrightarrow> entry_name (slot mem idx) = text_of nm"
    using strcmp_zero [OF t(1) assms(1)] r t(2) by simp
  moreover have "[idx..<idx + Suc n] = idx # [Suc idx..<Suc idx + n]" by (simp add: upt_conv_Cons)
  ultimately show ?case using Suc.IH [of "Suc idx"] Suc.prems r by (auto simp del: upt_Suc)
qed simp

lemma search_blocks_eq:
  assumes "terminated nm" "disk_ok (disk s h)" "\<forall>l \<in> set ls. l \<noteq> 0 \<and> l \<le> max_lba"
    and "\<forall>l \<in> set ls. \<forall>e \<in> set (slots (disk s h l)). terminated (take 16 e)" "length mem = 512"
  shows "\<exists>r. search_blocks h nm 21 (ls @ replicate m 0) mem s = Inr r \<and>
    map_option (\<lambda>(b, k). slot b k) r =
      List.find (\<lambda>e. entry_name e = text_of nm) (concat (List.map (\<lambda>l. slots (disk s h l)) ls)) \<and>
    (\<forall>b k. r = Some (b, k) \<longrightarrow> length b = 512 \<and> k < 21)"
  using assms(3-5)
proof (induction ls arbitrary: mem)
  case Nil
  have "search_blocks h nm 21 (replicate m 0) mem s = Inr None" by (induction m) simp_all
  then show ?case by simp
next
  case (Cons l ls)
  let ?b = "disk s h l"
  have rd: "ide_read h l mem 1 s = Inr ?b" using Cons.prems assms(2) by simp
  have "terminated (take 16 (slot ?b k))" if "k < 0 + 21" for k
    using Cons.prems(2) that by (auto simp: slots_def)
  then have se: "search_entries nm ?b 21 0 = Inr (List.find (\<lambda>k. entry_name (slot ?b k) = text_of nm) [0..<21])"
    by (subst search_entries_eq [OF assms(1)]) auto
  have fm: "List.find (\<lambda>e. entry_name e = text_of nm) (slots ?b) =
      map_option (slot ?b) (List.find (\<lambda>k. entry_name (slot ?b k) = text_of nm) [0..<21])"
    by (simp add: slots_def find_map)
  show ?case
  proof (cases "List.find (\<lambda>k. entry_name (slot ?b k) = text_of nm) [0..<21]")
    case None
    obtain r where "search_blocks h nm 21 (ls @ replicate m 0) (replicate 512 0) s = Inr r"
      "map_option (\<lambda>(b, k). slot b k) r =
        List.find (\<lambda>e. entry_name e = text_of nm) (concat (List.map (\<lambda>l. slots (disk s h l)) ls))"
      "\<forall>b k. r = Some (b, k) \<longrightarrow> length b = 512 \<and> k < 21"
      using Cons.IH [of "replicate 512 0"] Cons.prems by auto
    then show ?thesis
      using Cons.prems(1) assms(2) None rd [simplified] se fm by (simp add: find_append SECTOR_SIZE_def)
  next
    case (Some k)
    then have "k < 21" by (auto simp: find_Some_iff)
    then show ?thesis
      using Cons.prems(1) assms(2) Some rd [simplified] se fm by (simp add: find_append)
  qed
qed

lemma direct_table:
  assumes "length xs = 13" "n \<le> 12" "\<forall>k. n \<le> k \<and> k < 13 \<longrightarrow> xs ! k = (0 :: u32)"
  shows "take 12 xs @ replicate 128 0 = take n xs @ replicate (140 - n) 0"
  using assms by (intro nth_equalityI) (auto simp: nth_append)

lemma search_dir_entry_eq:
  assumes d: "disk_ok (this_disk s)" "dirs s d = Some dir" "inodes s (dir_inode dir) = Some i"
    and i: "length (i_sectors i) = 13" "n \<le> 12" "\<forall>k. n \<le> k \<and> k < 13 \<longrightarrow> i_sectors i ! k = 0"
      "\<forall>l \<in> set (take n (i_sectors i)). l \<noteq> 0 \<and> l \<le> max_lba"
    and e: "entry_size (current_partition s) s = 24"
      "\<forall>x \<in> set (dir_slots s (take n (i_sectors i))). terminated (take 16 x)"
    and nm: "terminated nm" "length out = 24"
    and heap: "heap_next s = b1 # b2 # hs" "fresh b1 s" "fresh b2 s" "b1 \<noteq> b2"
  shows "search_dir_entry (current_partition s) d nm out s = Inr
    (case List.find (\<lambda>x. entry_name x = text_of nm) (dir_slots s (take n (i_sectors i))) of
       None \<Rightarrow> (False, out, s\<lparr>heap_next := hs\<rparr>) | Some x \<Rightarrow> (True, x, s\<lparr>heap_next := hs\<rparr>))"
proof -
  let ?h = "my_disk (this_part s)" and ?ls = "take n (i_sectors i)"
  have k1: "kmalloc (48 + 512) s = (b1, replicate (48 + 512) 0, s\<lparr>heap_next := b2 # hs, live := (space s, b1) # live s\<rparr>)"
    using heap by (simp add: kmalloc_def fresh_def)
  define s1 where "s1 = s\<lparr>heap_next := b2 # hs, live := (space s, b1) # live s\<rparr>"
  have k2: "kmalloc 512 s1 = (b2, replicate 512 0, s1\<lparr>heap_next := hs, live := (space s, b2) # live s1\<rparr>)"
    using heap by (simp add: kmalloc_def fresh_def s1_def)
  define s2 where "s2 = s1\<lparr>heap_next := hs, live := (space s, b2) # live s1\<rparr>"
  have p1: "dirs s1 = dirs s" "inodes s1 = inodes s" "current_partition s1 = current_partition s" "partitions s1 = partitions s"
    "disk s1 = disk s" by (simp_all add: s1_def)
  have p2: "partitions s2 = partitions s" "disk s2 = disk s" by (simp_all add: s2_def s1_def)
  have mem: "memset (ptr b1 (replicate (48 + 512) 0)) 0 (48 + 512) = Inr (replicate (48 + 512) 0)"
    using heap by (simp add: ptr_def fresh_def)
  have at: "dir_at d s1 = Inr dir" "inode_at (dir_inode dir) s1 = Inr i"
    using d by (simp_all add: dir_at_def inode_at_def p1)
  have z: "i_sectors i ! 12 = 0" using i(2,3) by simp
  have blocks: "all_blocks ?h i s1 = Inr (?ls @ replicate (140 - n) 0)"
    using direct_table [OF i(1-3)] by (simp add: all_blocks_def Let_def z)
  have per: "dir_entry_per_sec (entry_size (current_partition s) s2) = Inr 21"
    using e(1) by (simp add: dir_entry_per_sec_def entry_size_def p2 SECTOR_SIZE_def)
  have es: "unat (entry_size (current_partition s) s2) = 24" using e(1) by (simp add: entry_size_def p2)
  obtain r where r: "search_blocks ?h nm 21 (?ls @ replicate (140 - n) 0) (replicate 512 0) s2 = Inr r"
    "map_option (\<lambda>(b, k). slot b k) r = List.find (\<lambda>x. entry_name x = text_of nm) (dir_slots s ?ls)"
    "\<forall>b k. r = Some (b, k) \<longrightarrow> length b = 512 \<and> k < 21"
    using search_blocks_eq [OF nm(1), where h = ?h and s = s2 and ls = ?ls and mem = "replicate 512 0" and m = "140 - n"] d(1) i(4) e(2)
    by (auto simp: p2 dir_slots_def)
  have copy: "(case r of None \<Rightarrow> Inr (False, out)
      | Some (mem, k) \<Rightarrow> bindE (memcpy (Some out) (Some (drop (24 * k) mem)) 24) (\<lambda>x. Inr (True, x))) =
    Inr (case List.find (\<lambda>x. entry_name x = text_of nm) (dir_slots s ?ls) of None \<Rightarrow> (False, out) | Some x \<Rightarrow> (True, x))"
    unfolding r(2) [symmetric] using r(3) nm(2) by (cases r) (auto simp: slot_def)
  have l2: "live s2 = (space s2, b2) # (space s, b1) # live s" "space s2 = space s" "inodes s2 = inodes s" "dirs s2 = dirs s"
    by (simp_all add: s2_def s1_def)
  have f1: "kfree b2 s2 = Inr (s2\<lparr>live := (space s, b1) # live s\<rparr>)"
    using l2 heap by (intro kfree_top) (auto simp: fresh_def)
  have f2: "kfree b1 (s2\<lparr>live := (space s, b1) # live s\<rparr>) = Inr (s2\<lparr>live := live s\<rparr>)"
    using l2 heap by (subst kfree_top [where bs = "live s"]) (auto simp: fresh_def)
  have fin: "s2\<lparr>live := live s\<rparr> = s\<lparr>heap_next := hs\<rparr>" by (simp add: s2_def s1_def)
  have "search_dir_entry (current_partition s) d nm out s =
      bindE (Inr (case List.find (\<lambda>x. entry_name x = text_of nm) (dir_slots s ?ls) of None \<Rightarrow> (False, out) | Some x \<Rightarrow> (True, x)))
        (\<lambda>(found, dir_e). Inr (found, dir_e, s\<lparr>heap_next := hs\<rparr>))"
    unfolding search_dir_entry_def k1 prod.case s1_def [symmetric] mem bindE_Inr at p1(4) blocks SECTOR_SIZE_def k2 s2_def [symmetric]
      per p2(1) r(1) es copy f1 f2 fin ..
  then show ?thesis by (simp split: option.split)
qed

section \<open>Adding an entry\<close>

definition free_entry :: "u8 list \<Rightarrow> nat option" where
  "free_entry mem = List.find (\<lambda>k. word_at (slot mem k) 20 = FT_UNKNOW) [0..<21]"

lemma free_slot_eq:
  assumes "idx + n \<le> 21" "512 \<le> length mem"
  shows "free_slot mem n idx = Inr (List.find (\<lambda>k. word_at (slot mem k) 20 = FT_UNKNOW) [idx..<idx + n])"
  using assms(1)
proof (induction n arbitrary: idx)
  case (Suc n)
  have "word_at (drop (24 * idx) mem) 20 = word_at (slot mem idx) 20" by (simp add: word_at_def slot_def)
  then have "entry_at mem idx = Inr (dir_entry_of (drop (24 * idx) mem))" "f_type (dir_entry_of (drop (24 * idx) mem)) = word_at (slot mem idx) 20"
    using Suc.prems assms(2) by (simp_all add: entry_at_def dir_entry_of_def)
  moreover have "[idx..<idx + Suc n] = idx # [Suc idx..<Suc idx + n]" by (simp add: upt_conv_Cons)
  ultimately show ?case using Suc.IH [of "Suc idx"] Suc.prems by (simp del: upt_Suc)
qed simp

lemma free_entry_take [simp]: "512 \<le> length mem \<Longrightarrow> free_entry (take 512 mem) = free_entry mem"
proof -
  assume "512 \<le> length mem"
  have "slot (take 512 mem) k = slot mem k" if "k < 21" for k
    using that by (simp add: slot_def drop_take min_def)
  then show ?thesis unfolding free_entry_def by (intro find_cong_set) auto
qed

lemma sync_skip:
  assumes "\<And>j'. j \<le> j' \<Longrightarrow> j' < j + c \<Longrightarrow> blocks ! j' \<noteq> 0 \<and> blocks ! j' \<le> max_lba \<and> free_entry (this_disk s (blocks ! j')) = None"
    and "disk_ok (this_disk s)" "512 \<le> length io"
  shows "\<exists>io'. length io' = length io \<and>
    sync_blocks di de 21 blocks (c + m) j io s = sync_blocks di de 21 blocks m (j + c) io' s"
  using assms(1,3)
proof (induction c arbitrary: j io)
  case (Suc c)
  let ?l = "blocks ! j"
  have l: "?l \<noteq> 0" "?l \<le> max_lba" "free_entry (this_disk s ?l) = None" using Suc.prems(1) [of j] by auto
  let ?io = "this_disk s ?l @ drop 512 io"
  have rd: "ide_read (my_disk (this_part s)) ?l io 1 s = Inr ?io" using l assms(2) Suc.prems(2) by simp
  have "free_entry ?io = None" using l(3) free_entry_take [of ?io] assms(2) Suc.prems(2) by simp
  then have "free_slot ?io 21 0 = Inr None" using free_slot_eq [of 0 21 ?io] assms(2) Suc.prems(2) by (simp add: free_entry_def)
  then have step: "sync_blocks di de 21 blocks (Suc c + m) j io s = sync_blocks di de 21 blocks (c + m) (Suc j) ?io s"
    using l(1) rd by (simp add: Let_def)
  have "length ?io = length io" using assms(2) Suc.prems(2) by simp
  moreover obtain io' where "length io' = length ?io"
      "sync_blocks di de 21 blocks (c + m) (Suc j) ?io s = sync_blocks di de 21 blocks m (Suc j + c) io' s"
    using Suc.IH [of "Suc j" ?io] Suc.prems calculation by auto
  ultimately show ?case unfolding step by (intro exI [of _ io']) simp
qed auto

text \<open>A sector with one slot overwritten.\<close>

definition with_slot :: "u8 list \<Rightarrow> nat \<Rightarrow> u8 list \<Rightarrow> u8 list" where
  "with_slot mem k de = take (24 * k) mem @ de @ drop (24 * k + 24) mem"

lemma length_slot: "length mem = 512 \<Longrightarrow> k < 21 \<Longrightarrow> length (slot mem k) = 24"
  by (simp add: slot_def)

lemma slots_with_slot:
  assumes "length mem = 512" "length de = 24" "k < 21"
  shows "slots (with_slot mem k de) = (slots mem)[k := de]" "length (with_slot mem k de) = 512"
proof -
  have len: "length (with_slot mem k de) = 512" using assms by (simp add: with_slot_def)
  then show "length (with_slot mem k de) = 512" .
  have "slot (with_slot mem k de) j = (if j = k then de else slot mem j)" if j: "j < 21" for j
  proof (rule nth_equalityI)
    show "length (slot (with_slot mem k de) j) = length (if j = k then de else slot mem j)"
      using assms j len by (simp add: length_slot)
    fix b assume "b < length (slot (with_slot mem k de) j)"
    then have b: "b < 24" using j len by (simp add: length_slot)
    have "slot (with_slot mem k de) j ! b = with_slot mem k de ! (24 * j + b)"
      using b j len by (simp add: slot_def)
    also have "\<dots> = (if j = k then de else slot mem j) ! b"
    proof (cases j k rule: linorder_cases)
      case less
      then have "24 * j + b < 24 * k" using b by linarith
      then show ?thesis using less assms b by (simp add: with_slot_def nth_append slot_def)
    next
      case equal
      then show ?thesis using assms b by (simp add: with_slot_def nth_append)
    next
      case greater
      then have ge: "24 * k + 24 \<le> 24 * j + b" by linarith
      have l2: "length (take (24 * k) mem @ de) = 24 * k + 24" using assms by simp
      have "with_slot mem k de ! (24 * j + b) = ((take (24 * k) mem @ de) @ drop (24 * k + 24) mem) ! (24 * j + b)"
        by (simp add: with_slot_def)
      also have "\<dots> = drop (24 * k + 24) mem ! (24 * j + b - (24 * k + 24))"
        using ge by (subst nth_append) (simp only: l2 not_less [symmetric] if_False)
      also have "\<dots> = mem ! (24 * j + b)" using ge assms b j by simp
      finally show ?thesis using greater assms b j by (simp add: slot_def)
    qed
    finally show "slot (with_slot mem k de) j ! b = (if j = k then de else slot mem j) ! b" .
  qed
  then show "slots (with_slot mem k de) = (slots mem)[k := de]"
    by (intro nth_equalityI) (auto simp: slots_def nth_list_update)
qed

lemma sync_hit:
  assumes l: "blocks ! j = l" "l \<noteq> 0" "l \<le> max_lba" "free_entry (this_disk s l) = Some k"
    and d: "disk_ok (this_disk s)" "512 \<le> length io" "length de = 24" "entry_size (current_partition s) s = 24"
    and i: "inodes s di = Some i"
  shows "sync_blocks di de 21 blocks (Suc m) j io s = Inr (True, set_inode di (i\<lparr>i_size := i_size i + 24\<rparr>)
    (s\<lparr>disk := (disk s)(my_disk (this_part s) := (this_disk s)(l := with_slot (this_disk s l) k de))\<rparr>))"
proof -
  let ?h = "my_disk (this_part s)" and ?io = "this_disk s l @ drop 512 io"
  have k: "k < 21" using l(4) by (auto simp: free_entry_def find_Some_iff)
  have rd: "ide_read ?h l io 1 s = Inr ?io" using l d by simp
  have "free_entry ?io = Some k" using l(4) free_entry_take [of ?io] d by simp
  then have fs: "free_slot ?io 21 0 = Inr (Some k)" using free_slot_eq [of 0 21 ?io] d by (simp add: free_entry_def)
  let ?b = "take (24 * k) ?io @ de @ drop (24 * k + 24) ?io"
  have es: "unat (entry_size (current_partition s) s) = 24" using d by simp
  have cp: "memcpy_at ?io (24 * k) de 24 = Inr ?b"
    using d k by (subst memcpy_at_eq) auto
  have tk: "take 512 ?b = with_slot (this_disk s l) k de"
    using d k by (simp add: with_slot_def)
  have wr: "ide_write ?h l ?b 1 s = Inr (s\<lparr>disk := (disk s)(?h := (this_disk s)(l := with_slot (this_disk s l) k de))\<rparr>)"
    using l d k tk by simp
  have ps: "entry_size (current_partition s) (s\<lparr>disk := (disk s)(?h := (this_disk s)(l := with_slot (this_disk s l) k de))\<rparr>) = 24"
    using d(4) by (simp add: entry_size_def)
  show ?thesis
    using l(2) by (simp add: Let_def l(1) rd [simplified] fs es cp wr [simplified] grow_dir_def inode_at_def i ps)
qed

declare sync_blocks.simps [simp del]

lemma sync_new_eq:
  assumes lay: "layout_ok s" "direct_ok s i n" "n < 12" "free_blocks s \<noteq> {}" and i: "inodes s di = Some i"
    and de: "entry_size (current_partition s) s = 24" "length de = 24" "512 \<le> length io" "length blocks = 140"
  obtains b where "b \<in> free_blocks s" "sync_new_block di de blocks n io s = Inr (True,
    set_inode di ((extend_inode s n b i)\<lparr>i_size := i_size i + 24\<rparr>)
     ((take_block_no b s)\<lparr>disk := (disk (take_block_no b s))(my_disk (this_part s) :=
        (this_disk (take_block_no b s))(data_lba s b := with_slot (replicate 512 0) 0 de))\<rparr>))"
proof -
  let ?p = "current_partition s" and ?h = "my_disk (this_part s)"
  obtain b where b: "b \<in> free_blocks s" "data_lba s b \<noteq> - 1"
    "block_bitmap_alloc ?p s = Inr (data_lba s b, upd_part ?p (\<lambda>q. q\<lparr>block_bitmap := with_bit (block_bitmap q) b\<rparr>) s)"
    by (rule block_alloc [OF lay(1,4)])
  let ?t = "take_block_no b s" and ?l = "data_lba s b" and ?i = "extend_inode s n b i"
  note D = data_lba_free [OF lay(1) b(1)]
  have "b \<le> 163839" using layout_okD(9) [OF lay(1) b(1)] by (simp add: max_lba_def)
  then have "unat (?l - data_start s) \<noteq> unat (- 1 :: u32)" using D(1) by (simp add: block_no_def unsigned_minus_1_eq_mask mask_eq_exp_minus_1)
  then have nm: "?l - data_start s \<noteq> - 1" by auto
  note sync = block_sync [OF lay(1) b(1)]
  have ab: "add_block di blocks n ?l ?t = Inr (Some (blocks[n := ?l]), set_inode di ?i ?t)"
    using lay(3) i by (simp add: add_block_def Let_def inode_at_def extend_inode_def)
  let ?io = "replicate 512 0 @ drop 512 io"
  have mem: "memset (Some io) 0 512 = Inr ?io" using de by simp
  have es: "unat (entry_size ?p (set_inode di ?i ?t)) = 24" using de(1) by (simp add: entry_size_def)
  have cp: "memcpy (Some ?io) (Some de) 24 = Inr (de @ drop 24 ?io)" using de by simp
  have tk: "take 512 (de @ drop 24 ?io) = with_slot (replicate 512 0) 0 de" using de by (simp add: with_slot_def)
  have wr: "ide_write ?h ?l (de @ drop 24 ?io) 1 (set_inode di ?i ?t) = Inr ((set_inode di ?i ?t)\<lparr>disk :=
      (disk ?t)(?h := (this_disk ?t)(?l := with_slot (replicate 512 0) 0 de))\<rparr>)"
    using D(3) de tk by simp
  have at: "blocks[n := ?l] ! n = ?l" using de lay(3) by simp
  have gr: "grow_dir di ((set_inode di ?i ?t)\<lparr>disk := dd\<rparr>) =
      Inr (set_inode di (?i\<lparr>i_size := i_size i + 24\<rparr>) (?t\<lparr>disk := dd\<rparr>))" for dd
    using de(1) by (simp add: grow_dir_def inode_at_def entry_size_def extend_inode_def set_inode_def)
  have h1: "my_disk (partitions (set_inode di ?i ?t) ?p) = ?h" by simp
  have "sync_new_block di de blocks n io s = Inr (True,
    set_inode di (?i\<lparr>i_size := i_size i + 24\<rparr>)
     (?t\<lparr>disk := (disk ?t)(?h := (this_disk ?t)(?l := with_slot (replicate 512 0) 0 de))\<rparr>))"
    unfolding sync_new_block_def Let_def b(3) bindE_Inr prod.case if_not_P [OF b(2)] asserting_True [OF nm] sync ab option.case
      mem es cp at h1 wr gr ..
  with b(1) show thesis by (rule that)
qed

lemma find_replaced:
  assumes "k < length xs" "\<not> P (xs ! k)"
  shows "\<not> P y \<Longrightarrow> List.find P (as @ xs[k := y] @ bs) = List.find P (as @ xs @ bs)"
    and "P y \<Longrightarrow> List.find P (as @ xs @ bs) = None \<Longrightarrow> List.find P (as @ xs[k := y] @ bs) = Some y"
proof -
  note e = id_take_nth_drop [OF assms(1)] upd_conv_take_nth_drop [OF assms(1)]
  show "List.find P (as @ xs[k := y] @ bs) = List.find P (as @ xs @ bs)" if "\<not> P y"
    by (subst e(1), unfold e(2)) (use assms(2) that in \<open>simp add: find_append split: option.split\<close>)
  assume y: "P y" and "List.find P (as @ xs @ bs) = None"
  then have "List.find P (as @ (take k xs @ xs ! k # drop (Suc k) xs) @ bs) = None" using e(1) by simp
  then show "List.find P (as @ xs[k := y] @ bs) = Some y"
    unfolding e(2) using y assms(2) by (auto simp: find_append split: option.splits)
qed

lemma used_lba:
  assumes "layout_ok s" "used_block s l"
  shows "l \<noteq> 0" "l \<le> max_lba" "inode_table_lba (sb (this_part s)) \<le> l" "data_start s \<le> l"
  using assms(2) layout_okD(7) [OF assms(1)] by (auto simp: used_block_def word_le_nat_alt)

lemma slots_new:
  assumes "length de = 24" shows "slots (with_slot (replicate 512 0) 0 de) = (replicate 21 (replicate 24 0))[0 := de]"
proof -
  have "slots (replicate 512 0) = replicate 21 (replicate 24 0)"
    by (intro nth_equalityI) (simp_all add: slots_def slot_def)
  then show ?thesis using slots_with_slot(1) [of "replicate 512 0" de 0] assms by simp
qed

lemma direct_ok_updates [simp]:
  "direct_ok s (i\<lparr>i_size := x\<rparr>) n = direct_ok s i n" "direct_ok (s\<lparr>disk := dd\<rparr>) i n = direct_ok s i n"
  by (simp add: direct_ok_def) (intro layout_ok_cong; simp)

text \<open>The state after an entry was added, as far as searches see it.\<close>

definition entry_added :: "addr \<Rightarrow> inode \<Rightarrow> nat \<Rightarrow> u8 list \<Rightarrow> 'a fs_scheme \<Rightarrow> 'a fs_scheme \<Rightarrow> bool" where
  "entry_added di i n de s s' \<longleftrightarrow> (\<exists>i' n' as xs bs k.
     layout_ok s' \<and> inodes s' = (inodes s)(di \<mapsto> i') \<and> direct_ok s' i' n' \<and> i_size i' = i_size i + 24 \<and>
     current_partition s' = current_partition s \<and> dirs s' = dirs s \<and> heap_next s' = heap_next s \<and> live s' = live s \<and>
     entry_size (current_partition s) s' = entry_size (current_partition s) s \<and>
     dir_slots s (take n (i_sectors i)) @ (if n' = n then [] else replicate 21 (replicate 24 0)) = as @ xs @ bs \<and>
     k < length xs \<and> xs ! k = replicate 24 0 \<and> dir_slots s' (take n' (i_sectors i')) = as @ xs[k := de] @ bs)"

text \<open>The state after the entry went into a free slot of a block, or into a new block.\<close>

lemma entry_added_in_block:
  assumes lay: "layout_ok s" "direct_ok s i n"
    and ok: "\<forall>e \<in> set (dir_slots s (take n (i_sectors i))). slot_ok e" and de: "length de = 24"
    and j: "j < n" "l = take n (i_sectors i) ! j" "free_entry (this_disk s l) = Some k"
  shows "entry_added di i n de s (set_inode di (i\<lparr>i_size := i_size i + 24\<rparr>)
    (s\<lparr>disk := (disk s)(my_disk (this_part s) := (this_disk s)(l := with_slot (this_disk s l) k de))\<rparr>))"
proof -
  let ?h = "my_disk (this_part s)" and ?D = "this_disk s"
  define ls where "ls = take n (i_sectors i)"
  have i: "length ls = n" "distinct ls" "\<forall>l \<in> set ls. used_block s l"
    using lay(2) by (auto simp: direct_ok_def ls_def)
  have D: "disk_ok ?D" using layout_okD(2) [OF lay(1)] .
  have l: "l = ls ! j" using j(2) by (simp add: ls_def)
  have k21: "k < 21" and kz: "word_at (slot (?D l) k) 20 = FT_UNKNOW" using j(3) by (auto simp: free_entry_def find_Some_iff)
  let ?i = "i\<lparr>i_size := i_size i + 24\<rparr>" and ?d = "?D(l := with_slot (?D l) k de)"
  let ?s = "set_inode di ?i (s\<lparr>disk := (disk s)(?h := ?d)\<rparr>)"
  have lu: "used_block s l" using i(3) j(1) i(1) by (simp add: l)
  have okd: "disk_ok ?d" using D de k21 slots_with_slot(2) [of "?D l" de k] by (simp add: disk_ok_def)
  have lay': "layout_ok ?s"
    by (rule layout_with_disk [OF lay(1) okd]) (use used_lba(3) [OF lay(1) lu] in \<open>auto simp: set_inode_def\<close>)
  have ls: "ls = take j ls @ l # drop (Suc j) ls" using id_take_nth_drop [of j ls] j(1) i(1) by (simp add: l)
  have other: "l' \<noteq> l" if "l' \<in> set (take j ls) \<union> set (drop (Suc j) ls)" for l'
    using i(2) that ls by (metis Un_iff distinct_append distinct.simps(2) disjoint_iff list.set_intros(1))
  let ?as = "dir_slots s (take j ls)" and ?bs = "dir_slots s (drop (Suc j) ls)"
  have old: "dir_slots s ls = ?as @ slots (?D l) @ ?bs" by (subst ls) (simp add: dir_slots_def)
  have rest: "dir_slots ?s (take j ls) = ?as" "dir_slots ?s (drop (Suc j) ls) = ?bs"
    using other by (auto simp: dir_slots_def intro!: arg_cong [of _ _ concat])
  have "dir_slots ?s ls = dir_slots ?s (take j ls) @ slots (with_slot (?D l) k de) @ dir_slots ?s (drop (Suc j) ls)"
    by (subst ls) (simp add: dir_slots_def)
  then have new: "dir_slots ?s ls = ?as @ (slots (?D l))[k := de] @ ?bs"
    unfolding rest using slots_with_slot(1) D de k21 by simp
  have "slot_ok (slots (?D l) ! k)"
    using ok old k21 unfolding ls_def [symmetric] by (auto simp: slots_def)
  then have z: "slots (?D l) ! k = replicate 24 0" using kz k21 by (simp add: slot_ok_def slots_def)
  have dk: "direct_ok ?s ?i n" using lay(2) by simp
  show ?thesis
    unfolding entry_added_def
    by (rule exI [of _ ?i], rule exI [of _ n], rule exI [of _ ?as], rule exI [of _ "slots (?D l)"], rule exI [of _ ?bs], rule exI [of _ k])
      (use lay' dk old new z k21 in \<open>simp add: ls_def [symmetric] slots_def entry_size_def\<close>)
qed

lemma entry_added_in_new_block:
  assumes lay: "layout_ok s" "direct_ok s i n" "n < 12" and de: "length de = 24" and bn: "bn \<in> free_blocks s"
  shows "entry_added di i n de s (set_inode di ((extend_inode s n bn i)\<lparr>i_size := i_size i + 24\<rparr>)
    ((take_block_no bn s)\<lparr>disk := (disk (take_block_no bn s))(my_disk (this_part s) :=
       (this_disk (take_block_no bn s))(data_lba s bn := with_slot (replicate 512 0) 0 de))\<rparr>))"
proof -
  let ?h = "my_disk (this_part s)"
  define ls where "ls = take n (i_sectors i)"
  have i: "length (i_sectors i) = 13" "\<forall>l \<in> set ls. used_block s l"
    using lay(2) by (auto simp: direct_ok_def ls_def)
  let ?i = "(extend_inode s n bn i)\<lparr>i_size := i_size i + 24\<rparr>" and ?t = "take_block_no bn s" and ?l = "data_lba s bn"
  let ?d = "(this_disk ?t)(?l := with_slot (replicate 512 0) 0 de)"
  let ?s = "set_inode di ?i (?t\<lparr>disk := (disk ?t)(?h := ?d)\<rparr>)"
  note DL = data_lba_free [OF lay(1) bn] and T = disk_after_take [OF lay(1) bn]
  have layt: "layout_ok ?t" using layout_after_take [OF lay(1) bn] .
  have okd: "disk_ok ?d" using T(3) de slots_with_slot(2) [of "replicate 512 0" de 0] by (simp add: disk_ok_def)
  have lay': "layout_ok ?s"
    by (rule layout_with_disk [OF layt okd]) (use DL(5) in \<open>auto simp: set_inode_def\<close>)
  have "direct_ok (set_inode di (extend_inode s n bn i) ?t) (extend_inode s n bn i) (Suc n)"
    using grownD(3) [OF grown_step [OF lay bn]] .
  then have dk: "direct_ok ?s ?i (Suc n)" by simp
  have tk: "take (Suc n) (i_sectors (extend_inode s n bn i)) = ls @ [?l]"
    using i(1) lay(3) by (simp add: extend_inode_def ls_def take_Suc_conv_app_nth)
  have "l \<noteq> ?l" if "l \<in> set ls" for l
    using i(2) that DL(1) bn by (auto simp: used_block_def)
  moreover have "this_disk ?t l = this_disk s l" if "l \<in> set ls" for l
    using i(2) that T(1) used_lba(3) [OF lay(1)] by blast
  ultimately have "dir_slots ?s ls = dir_slots s ls"
    by (auto simp: dir_slots_def intro!: arg_cong [of _ _ concat])
  moreover have "dir_slots ?s [?l] = (replicate 21 (replicate 24 0))[0 := de]"
    using slots_new [OF de] by (simp add: dir_slots_def)
  ultimately have new: "dir_slots ?s (ls @ [?l]) = dir_slots s ls @ (replicate 21 (replicate 24 0))[0 := de] @ []"
    by (simp add: dir_slots_def)
  show ?thesis
    unfolding entry_added_def
    by (rule exI [of _ ?i], rule exI [of _ "Suc n"], rule exI [of _ "dir_slots s ls"],
        rule exI [of _ "replicate 21 (replicate 24 0)"], rule exI [of _ "[]"], rule exI [of _ 0])
      (use lay' dk new in \<open>simp add: tk ls_def [symmetric] entry_size_def\<close>)
qed

lemma sync_dir_entry_adds:
  assumes lay: "layout_ok s" "dirs s d = Some dir" "inodes s (dir_inode dir) = Some i" "direct_ok s i n"
    and size: "entry_size (current_partition s) s = 24" "i_size i mod 24 = 0"
    and ok: "\<forall>e \<in> set (dir_slots s (take n (i_sectors i))). slot_ok e"
    and de: "length de = 24" "512 \<le> length io"
    and room: "(\<exists>l \<in> set (take n (i_sectors i)). free_entry (this_disk s l) \<noteq> None) \<or> n < 12 \<and> free_blocks s \<noteq> {}"
  shows "\<exists>s'. sync_dir_entry d de io s = Inr (True, s') \<and> entry_added (dir_inode dir) i n de s s'"
proof -
  let ?di = "dir_inode dir" and ?h = "my_disk (this_part s)" and ?D = "this_disk s"
  define ls where "ls = take n (i_sectors i)"
  define blocks where "blocks = take 12 (i_sectors i) @ replicate 128 (0 :: u32)"
  have i: "length (i_sectors i) = 13" "n \<le> 12" "\<forall>k. n \<le> k \<and> k < 13 \<longrightarrow> i_sectors i ! k = 0" "distinct ls"
    "\<forall>l \<in> set ls. used_block s l"
    using lay(4) by (auto simp: direct_ok_def ls_def)
  have len: "length ls = n" using i by (simp add: ls_def)
  have bl: "blocks = ls @ replicate (140 - n) 0" unfolding blocks_def ls_def using direct_table [OF i(1-3)] .
  have b: "length blocks = 140" "\<And>j. j < n \<Longrightarrow> blocks ! j = ls ! j" "n < 140 \<Longrightarrow> blocks ! n = 0"
    using len i(2) by (auto simp: bl nth_append)
  have D: "disk_ok ?D" using layout_okD(2) [OF lay(1)] .
  have lba: "ls ! j \<noteq> 0 \<and> ls ! j \<le> max_lba" if "j < n" for j
    using used_lba [OF lay(1)] i(5) that len by (metis nth_mem)
  have run: "sync_dir_entry d de io s = sync_blocks ?di de 21 blocks 140 0 io s"
    using lay(2,3) size by (simp add: sync_dir_entry_def dir_at_def inode_at_def dir_entry_per_sec_def SECTOR_SIZE_def blocks_def)
  show ?thesis
  proof (cases "\<exists>j < n. free_entry (?D (ls ! j)) \<noteq> None")
    case True
    then obtain j where j: "j < n" "free_entry (?D (ls ! j)) \<noteq> None" "\<And>j'. j' < j \<Longrightarrow> free_entry (?D (ls ! j')) = None"
      using exists_least_iff [of "\<lambda>j. j < n \<and> free_entry (?D (ls ! j)) \<noteq> None"] by (metis less_trans)
    let ?l = "ls ! j"
    obtain k where k: "free_entry (?D ?l) = Some k" using j(2) by auto
    obtain io' where io': "length io' = length io" "sync_blocks ?di de 21 blocks (j + Suc (139 - j)) 0 io s =
        sync_blocks ?di de 21 blocks (Suc (139 - j)) (0 + j) io' s"
      using sync_skip [of 0 j blocks s io ?di de "Suc (139 - j)"] b(2) lba j D de(2) by auto
    let ?i = "i\<lparr>i_size := i_size i + 24\<rparr>" and ?d = "?D(?l := with_slot (?D ?l) k de)"
    let ?s = "set_inode ?di ?i (s\<lparr>disk := (disk s)(?h := ?d)\<rparr>)"
    have "sync_blocks ?di de 21 blocks (Suc (139 - j)) (0 + j) io' s = Inr (True, ?s)"
      using sync_hit [of blocks "0 + j" ?l s k io' de ?di i "139 - j"] b(2) lba j k D de io'(1) size(1) lay(3) by simp
    moreover have "j + Suc (139 - j) = 140" using j(1) i(2) by simp
    ultimately have ret: "sync_dir_entry d de io s = Inr (True, ?s)" using run io'(2) by simp
    show ?thesis
      using ret entry_added_in_block [OF lay(1,4) ok de(1) j(1) _ k] by (auto simp: ls_def)
  next
    case False
    then have full: "free_entry (?D (ls ! j)) = None" if "j < n" for j using that by blast
    then have n: "n < 12" "free_blocks s \<noteq> {}"
      using room len unfolding ls_def [symmetric] by (auto simp: in_set_conv_nth)
    obtain io' where io': "length io' = length io" "sync_blocks ?di de 21 blocks (n + Suc (139 - n)) 0 io s =
        sync_blocks ?di de 21 blocks (Suc (139 - n)) (0 + n) io' s"
      using sync_skip [of 0 n blocks s io ?di de "Suc (139 - n)"] b(2) lba full D de(2) by auto
    have at_n: "sync_blocks ?di de 21 blocks (Suc m) n io'' s = sync_new_block ?di de blocks n io'' s" for m io''
      using b(3) n(1) by (subst sync_blocks.simps) (simp add: Let_def)
    obtain bn where bn: "bn \<in> free_blocks s" "sync_new_block ?di de blocks n io' s = Inr (True,
      set_inode ?di ((extend_inode s n bn i)\<lparr>i_size := i_size i + 24\<rparr>)
       ((take_block_no bn s)\<lparr>disk := (disk (take_block_no bn s))(?h :=
          (this_disk (take_block_no bn s))(data_lba s bn := with_slot (replicate 512 0) 0 de))\<rparr>))"
      using sync_new_eq [OF lay(1,4) n lay(3) size(1) de(1) _ b(1), of io'] de(2) io'(1) by metis
    let ?i = "(extend_inode s n bn i)\<lparr>i_size := i_size i + 24\<rparr>" and ?t = "take_block_no bn s" and ?l = "data_lba s bn"
    let ?d = "(this_disk ?t)(?l := with_slot (replicate 512 0) 0 de)"
    let ?s = "set_inode ?di ?i (?t\<lparr>disk := (disk ?t)(?h := ?d)\<rparr>)"
    have "j + Suc (139 - j) = 140" if "j < 12" for j :: nat using that by simp
    then have ret: "sync_dir_entry d de io s = Inr (True, ?s)"
      using run io'(2) bn(2) n by (simp add: at_n)
    show ?thesis using ret entry_added_in_new_block [OF lay(1,4) n(1) de(1) bn(1)] by blast
  qed
qed

lemma find_added:
  assumes "old @ zs = as @ xs @ bs" "zs = [] \<or> zs = replicate 21 (replicate 24 0)" "k < length xs" "xs ! k = replicate 24 (0 :: u8)"
    and "t \<noteq> []" "\<forall>e \<in> set old. entry_name e \<noteq> entry_name de"
  shows "List.find (\<lambda>e. entry_name e = t) (as @ xs[k := de] @ bs) =
    (if t = entry_name de then Some de else List.find (\<lambda>e. entry_name e = t) old)"
proof -
  have z: "\<not> entry_name (xs ! k) = t" using assms(4,5) by simp
  have zs: "List.find (\<lambda>e. entry_name e = t) zs = None"
    using assms(2,5) by (auto simp: find_None_iff)
  have all: "List.find (\<lambda>e. entry_name e = t) (as @ xs @ bs) = List.find (\<lambda>e. entry_name e = t) old"
    unfolding assms(1) [symmetric] using zs by (simp add: find_append split: option.split)
  show ?thesis
  proof (cases "t = entry_name de")
    case True
    have "List.find (\<lambda>e. entry_name e = t) old = None" using assms(6) True by (simp add: find_None_iff)
    then have "List.find (\<lambda>e. entry_name e = t) (as @ xs @ bs) = None" unfolding all .
    with True have "List.find (\<lambda>e. entry_name e = t) (as @ xs[k := de] @ bs) = Some de"
      by (intro find_replaced(2) [OF assms(3)] z) auto
    with True show ?thesis by simp
  next
    case False
    then have "List.find (\<lambda>e. entry_name e = t) (as @ xs[k := de] @ bs) = List.find (\<lambda>e. entry_name e = t) (as @ xs @ bs)"
      by (intro find_replaced(1) [OF assms(3)] z) auto
    with False show ?thesis unfolding all by simp
  qed
qed

text \<open>
  C5. Adding an entry with a new name to a directory (in a free slot or in a new block) succeeds and makes
  the directory one entry longer; after it, searching the name finds that entry, searching any other
  name answers what it did before, and the invariant of the partition holds.
\<close>

theorem dir_entry_added:
  assumes lay: "layout_ok s" "dirs s d = Some dir" "inodes s (dir_inode dir) = Some i" "direct_ok s i n"
    and size: "entry_size (current_partition s) s = 24" "i_size i mod 24 = 0"
    and ok: "\<forall>e \<in> set (dir_slots s (take n (i_sectors i))). slot_ok e"
    and de: "slot_ok de" "entry_name de \<noteq> []" "512 \<le> length io"
      "\<forall>e \<in> set (dir_slots s (take n (i_sectors i))). entry_name e \<noteq> entry_name de"
    and room: "(\<exists>l \<in> set (take n (i_sectors i)). free_entry (this_disk s l) \<noteq> None) \<or> n < 12 \<and> free_blocks s \<noteq> {}"
    and heap: "heap_next s = b1 # b2 # hs" "fresh b1 s" "fresh b2 s" "b1 \<noteq> b2"
  shows "\<exists>s' i'. sync_dir_entry d de io s = Inr (True, s') \<and> layout_ok s' \<and>
    inodes s' (dir_inode dir) = Some i' \<and> i_size i' = i_size i + 24 \<and>
    (\<forall>nm out. terminated nm \<and> text_of nm \<noteq> [] \<and> length out = 24 \<longrightarrow>
      search_dir_entry (current_partition s) d nm out s' = Inr
        (case if text_of nm = entry_name de then Some de
              else List.find (\<lambda>e. entry_name e = text_of nm) (dir_slots s (take n (i_sectors i))) of
           None \<Rightarrow> (False, out, s'\<lparr>heap_next := hs\<rparr>) | Some e \<Rightarrow> (True, e, s'\<lparr>heap_next := hs\<rparr>)))"
proof -
  let ?old = "dir_slots s (take n (i_sectors i))"
  have len: "length de = 24" using de(1) by (simp add: slot_ok_def)
  obtain s' where run: "sync_dir_entry d de io s = Inr (True, s')" and add: "entry_added (dir_inode dir) i n de s s'"
    using sync_dir_entry_adds [OF lay size ok len de(3) room] by blast
  from add obtain i' n' as xs bs k where
    s': "layout_ok s'" "inodes s' = (inodes s)(dir_inode dir \<mapsto> i')" "direct_ok s' i' n'" "i_size i' = i_size i + 24"
      "current_partition s' = current_partition s" "dirs s' = dirs s" "heap_next s' = heap_next s" "live s' = live s"
      "entry_size (current_partition s) s' = entry_size (current_partition s) s"
    and split: "?old @ (if n' = n then [] else replicate 21 (replicate 24 0)) = as @ xs @ bs"
    and k: "k < length xs" "xs ! k = replicate 24 0"
    and new: "dir_slots s' (take n' (i_sectors i')) = as @ xs[k := de] @ bs"
    unfolding entry_added_def by blast
  let ?z = "replicate 24 (0 :: u8)"
  have sub: "e \<in> set ?old \<or> e = ?z \<or> e = de" if "e \<in> set (dir_slots s' (take n' (i_sectors i')))" for e
  proof -
    have "e \<in> set (as @ xs @ bs) \<or> e = de" using that set_update_subset_insert [of xs k de] unfolding new by auto
    then show ?thesis unfolding split [symmetric] by (auto split: if_splits)
  qed
  have zt: "terminated (take 16 ?z)" by (simp add: terminated_def)
  have ends: "\<forall>x \<in> set (dir_slots s' (take n' (i_sectors i'))). terminated (take 16 x)"
  proof
    fix x
    assume "x \<in> set (dir_slots s' (take n' (i_sectors i')))"
    then have "x \<in> set ?old \<or> x = ?z \<or> x = de" by (rule sub)
    then show "terminated (take 16 x)" using ok de(1) zt unfolding slot_ok_def by (elim disjE) blast+
  qed
  have found: "List.find (\<lambda>e. entry_name e = t) (dir_slots s' (take n' (i_sectors i'))) =
      (if t = entry_name de then Some de else List.find (\<lambda>e. entry_name e = t) ?old)" if t: "t \<noteq> []" for t
    unfolding new by (rule find_added [OF split _ k t de(4)]) simp
  have dk: "length (i_sectors i') = 13" "n' \<le> 12" "\<forall>k. n' \<le> k \<and> k < 13 \<longrightarrow> i_sectors i' ! k = 0"
    "\<forall>l \<in> set (take n' (i_sectors i')). l \<noteq> 0 \<and> l \<le> max_lba"
    using s'(3) used_lba [OF s'(1)] by (auto simp: direct_ok_def)
  have fr: "fresh b s'" if "fresh b s" for b
    using that s'(2,6,8) lay(3) by (auto simp: fresh_def)
  have "search_dir_entry (current_partition s') d nm out s' = Inr
      (case List.find (\<lambda>x. entry_name x = text_of nm) (dir_slots s' (take n' (i_sectors i'))) of
        None \<Rightarrow> (False, out, s'\<lparr>heap_next := hs\<rparr>) | Some x \<Rightarrow> (True, x, s'\<lparr>heap_next := hs\<rparr>))"
    if "terminated nm" "length out = 24" for nm out
  proof (rule search_dir_entry_eq [OF layout_okD(2) [OF s'(1)] _ _ dk _ ends that])
    show "dirs s' d = Some dir" using lay(2) s'(6) by simp
    show "inodes s' (dir_inode dir) = Some i'" using s'(2) by simp
    show "entry_size (current_partition s') s' = 24" using s'(5,9) size(1) by simp
    show "heap_next s' = b1 # b2 # hs" using s'(7) heap(1) by simp
  qed (use fr heap in auto)
  then show ?thesis using run s' found by (intro exI [of _ s'] exI [of _ i']) simp
qed

lemma dir_entry_added_witness:
  "\<exists>s'. sync_dir_entry 2 ([97] @ replicate 15 0 @ le32 5 @ le32 1) (replicate 512 0)
      ((abc_fs (inode_init 1) (replicate 512 0))\<lparr>dirs := [2 \<mapsto> \<lparr>dir_inode = 64, dir_pos = 0, dir_buf = []\<rparr>]\<rparr>) = Inr (True, s') \<and>
    search_dir_entry 1 2 (lit ''a'') (replicate 24 0) s' =
      Inr (True, [97] @ replicate 15 0 @ le32 5 @ le32 1, s'\<lparr>heap_next := [256, 320]\<rparr>) \<and>
    search_dir_entry 1 2 (lit ''b'') (replicate 24 0) s' = Inr (False, replicate 24 0, s'\<lparr>heap_next := [256, 320]\<rparr>)"
proof -
  let ?a = "abc_fs (inode_init 1) (replicate 512 0)" and ?dir = "\<lparr>dir_inode = 64, dir_pos = 0, dir_buf = []\<rparr>"
  let ?s = "?a\<lparr>dirs := [2 \<mapsto> ?dir]\<rparr>"
  let ?de = "[97] @ replicate 15 0 @ le32 5 @ le32 1 :: u8 list"
  have lay: "layout_ok ?s" using layout_ok_cong(6) [of ?s ?a] abc_layout(1) [of "replicate 512 0" "inode_init 1"] by simp
  have dk: "direct_ok ?s (inode_init 1) 0" by (simp add: direct_ok_def inode_init_def nth_Cons')
  have fb: "free_blocks ?s \<noteq> {}"
    using layout_ok_cong(1) [of ?s ?a] abc_layout(2) [of "replicate 512 0" "inode_init 1"] by fastforce
  have fr: "fresh 128 ?s" "fresh 192 ?s" by (simp_all add: fresh_def)
  have de: "slot_ok ?de"
    by (simp add: slot_ok_def word_at_def le32_def FT_UNKNOW_def terminated_def numeral_eq_Suc)
  have nm: "entry_name ?de = [97]" by (simp add: entry_name_def text_of_def)
  have none: "dir_slots ?s (take 0 (i_sectors (inode_init 1))) = []" by (simp add: dir_slots_def)
  have lits: "terminated (lit ''a'')" "text_of (lit ''a'') = [97]" "terminated (lit ''b'')" "text_of (lit ''b'') = [98]"
    by (simp_all add: lit_def)
  have st: "dirs ?s 2 = Some ?dir" "inodes ?s (dir_inode ?dir) = Some (inode_init 1)"
    "entry_size (current_partition ?s) ?s = 24" "i_size (inode_init 1) mod 24 = 0" "512 \<le> length (replicate 512 (0 :: u8))"
    "heap_next ?s = 128 # 192 # [256, 320]" "current_partition ?s = 1"
    by (simp_all add: entry_size_def tiny_part_def inode_init_def)
  define s where "s = ?s"
  note facts = lay dk fb fr st(1-4,6,7) [unfolded none]
  note none' = none [folded s_def]
  have new: "\<forall>e \<in> set (dir_slots s (take 0 (i_sectors (inode_init 1)))). slot_ok e"
    "\<forall>e \<in> set (dir_slots s (take 0 (i_sectors (inode_init 1)))). entry_name e \<noteq> entry_name ?de"
    unfolding none' by simp_all
  have room: "(\<exists>l \<in> set (take 0 (i_sectors (inode_init 1))). free_entry (this_disk s l) \<noteq> None) \<or>
      (0 :: nat) < 12 \<and> free_blocks s \<noteq> {}" using fb by (simp add: s_def)
  have distinct: "(128 :: u32) \<noteq> 192" by simp
  have ne: "entry_name ?de \<noteq> []" unfolding nm by simp
  obtain s' where "sync_dir_entry 2 ?de (replicate 512 0) s = Inr (True, s')"
    "\<forall>nm out. terminated nm \<and> text_of nm \<noteq> [] \<and> length out = 24 \<longrightarrow>
      search_dir_entry (current_partition s) 2 nm out s' = Inr
        (case if text_of nm = entry_name ?de then Some ?de
              else List.find (\<lambda>e. entry_name e = text_of nm) (dir_slots s (take 0 (i_sectors (inode_init 1)))) of
           None \<Rightarrow> (False, out, s'\<lparr>heap_next := [256, 320]\<rparr>) | Some e \<Rightarrow> (True, e, s'\<lparr>heap_next := [256, 320]\<rparr>))"
    using dir_entry_added [OF facts(1,6,7,2,8,9) [folded s_def] new(1) de ne st(5) new(2) room
        facts(10) [folded s_def] facts(4,5) [folded s_def] distinct] by blast
  then have "\<exists>s'. sync_dir_entry 2 ?de (replicate 512 0) s = Inr (True, s') \<and>
    (\<forall>nm out. terminated nm \<and> text_of nm \<noteq> [] \<and> length out = 24 \<longrightarrow>
      search_dir_entry 1 2 nm out s' = Inr (case if text_of nm = [97] then Some ?de else None of
        None \<Rightarrow> (False, out, s'\<lparr>heap_next := [256, 320]\<rparr>) | Some e \<Rightarrow> (True, e, s'\<lparr>heap_next := [256, 320]\<rparr>)))"
    unfolding none' nm facts(11) [folded s_def] find.simps by blast
  then show ?thesis unfolding s_def using lits by force
qed

end
