(* ===== verification/Fs_Setup.thy ===== *)
theory Fs_Setup
  imports Directory
begin

text \<open>
  Setting the file system up (\<open>fs/fs.c\<close>): \<open>partition_format\<close> writes an empty file system to a
  partition, \<open>mount_partition\<close> reads its super block and bitmaps into memory, \<open>filesys_init\<close> looks
  for file systems at boot and mounts \<open>sdb1\<close>.
\<close>

section \<open>Formatting\<close>

text \<open>\<open>pd\<close> is the padding of the super block on the stack, which is not initialised.\<close>

definition format_super_block :: "partition \<Rightarrow> u8 list \<Rightarrow> super_block" where
  "format_super_block q pd =
     (let boot_sector_sects = 1; super_block_sects = 1;
          inode_bm_sects = DIV_CEILING 4096 4096;
          inode_tab_sects = DIV_CEILING (sizeof_inode * 4096) 512;
          used_sects = boot_sector_sects + super_block_sects + inode_bm_sects + inode_tab_sects;
          free_sects = sec_cnt q - used_sects;
          block_bm_sects = DIV_CEILING free_sects 4096;
          block_bitmap_bit_len = free_sects - block_bm_sects;
          block_bm_sects = DIV_CEILING block_bitmap_bit_len 4096;
          block_bm_lba = start_lba q + 2;
          inode_bm_lba = block_bm_lba + block_bm_sects;
          inode_tab_lba = inode_bm_lba + inode_bm_sects in
      \<lparr>magic = 0x20010107, sb_sec_cnt = sec_cnt q, inode_cnt = 4096, partition_lba_base = start_lba q,
       block_bitmap_lba = block_bm_lba, block_bitmap_sects = block_bm_sects,
       inode_bitmap_lba = inode_bm_lba, inode_bitmap_sects = inode_bm_sects,
       inode_table_lba = inode_tab_lba, inode_table_sects = inode_tab_sects,
       data_start_lba = inode_tab_lba + inode_tab_sects, root_inode_no = 0,
       dir_entry_size = sizeof_dir_entry, pad = pd\<rparr>)"

definition format_bit_len :: "partition \<Rightarrow> u32" where
  "format_bit_len q =
     (let free_sects = sec_cnt q - (1 + 1 + DIV_CEILING 4096 4096 + DIV_CEILING (sizeof_inode * 4096) 512) in
      free_sects - DIV_CEILING free_sects 4096)"

text \<open>\<open>while (bit_idx <= last_bit) byte &= ~(1 << bit_idx++);\<close>\<close>

definition clear_bits :: "nat \<Rightarrow> u8 \<Rightarrow> u8" where
  "clear_bits last_bit byte = foldl (\<lambda>b i. b AND NOT (push_bit i 1)) byte [0..<last_bit + 1]"

definition format_block_bitmap :: "nat \<Rightarrow> u8 list \<Rightarrow> u8 list res" where
  "format_block_bitmap bit_len mem =
     bindE (read_at mem 0) (\<lambda>byte.
     bindE (write_at mem 0 (byte OR 1)) (\<lambda>mem.
     let last_byte = bit_len div 8; last_bit = bit_len mod 8; last_size = SECTOR_SIZE - last_byte mod SECTOR_SIZE in
     bindE (memset_at mem last_byte 0xFF last_size) (\<lambda>mem.
     bindE (read_at mem last_byte) (\<lambda>byte. write_at mem last_byte (clear_bits last_bit byte)))))"

definition root_inode :: "super_block \<Rightarrow> inode" where
  "root_inode b = \<lparr>i_no = 0, i_size = dir_entry_size b * 2, i_open_cnt = 0, write_deny = False,
     i_sectors = data_start_lba b # replicate 12 0\<rparr>"

definition dot_entries :: "u32 \<Rightarrow> u32 \<Rightarrow> u8 list" where
  "dot_entries self parent =
     dir_entry_bytes \<lparr>filename = 46 # replicate 15 0, de_i_no = self, f_type = FT_DIRECTORY\<rparr> @
     dir_entry_bytes \<lparr>filename = 46 # 46 # replicate 14 0, de_i_no = parent, f_type = FT_DIRECTORY\<rparr>"

definition partition_format :: "addr \<Rightarrow> 'a fs_scheme \<Rightarrow> 'a fs_scheme res" where
  "partition_format p s =
     (let q = partitions s p; b = format_super_block q (uninit 460 s); hdisk = my_disk q in
      bindE (ide_write hdisk (start_lba q + 1) (super_block_bytes b) 1 s) (\<lambda>s.
      let sects = (if block_bitmap_sects b \<ge> inode_bitmap_sects b then block_bitmap_sects b else inode_bitmap_sects b);
          sects = (if sects \<ge> inode_table_sects b then sects else inode_table_sects b);
          mem_size = unat (sects * 512) in
      case kmalloc mem_size s of (m, mem, s) \<Rightarrow>
      bindE (format_block_bitmap (unat (format_bit_len q)) mem) (\<lambda>mem.
      bindE (ide_write hdisk (block_bitmap_lba b) mem (unat (block_bitmap_sects b)) s) (\<lambda>s.
      bindE (memset (ptr m mem) 0 mem_size) (\<lambda>mem.
      bindE (write_at mem 0 1) (\<lambda>mem.
      bindE (ide_write hdisk (inode_bitmap_lba b) mem (unat (inode_bitmap_sects b)) s) (\<lambda>s.
      bindE (memset (ptr m mem) 0 mem_size) (\<lambda>mem.
      bindE (memcpy_at mem 0 (inode_bytes (root_inode b)) 76) (\<lambda>mem.
      bindE (ide_write hdisk (inode_table_lba b) mem (unat (inode_table_sects b)) s) (\<lambda>s.
      bindE (memset (ptr m mem) 0 mem_size) (\<lambda>mem.
      bindE (memcpy_at mem 0 (dot_entries 0 0) 48) (\<lambda>mem.
      bindE (ide_write hdisk (data_start_lba b) mem 1 s) (\<lambda>s.
        kfree m s)))))))))))))"

section \<open>Mounting\<close>

text \<open>\<open>True\<close> stops the traversal of the partition list.\<close>

definition mount_partition :: "addr \<Rightarrow> u8 list \<Rightarrow> 'a fs_scheme \<Rightarrow> (bool \<times> 'a fs_scheme) res" where
  "mount_partition p pname s =
     bindE (strcmp (Some (part_name (partitions s p))) (Some pname)) (\<lambda>r.
     if r \<noteq> 0 then Inr (False, s)
     else
       let s = s\<lparr>current_partition := p\<rparr>; q = partitions s p; hdisk = my_disk q in
       case kmalloc SECTOR_SIZE s of (m, mem, s) \<Rightarrow>
       case kmalloc 512 s of (sb_addr, _, s) \<Rightarrow>
       if sb_addr = NULL then Inl Panicked
       else
         bindE (memset (ptr m mem) 0 SECTOR_SIZE) (\<lambda>mem.
         bindE (ide_read hdisk (start_lba q + 1) mem 1 s) (\<lambda>mem.
         let b = super_block_of mem; s = upd_part p (\<lambda>q. q\<lparr>sb := b\<rparr>) s;
             n = unat (block_bitmap_sects b); k = unat (inode_bitmap_sects b) in
         case kmalloc (n * SECTOR_SIZE) s of (bits_addr, block_bits, s) \<Rightarrow>
         if bits_addr = NULL then Inl Panicked
         else
           bindE (ide_read hdisk (block_bitmap_lba b) block_bits n s) (\<lambda>block_bits.
           let s = upd_part p (\<lambda>q. q\<lparr>block_bitmap := \<lparr>btmp_byte_len = n * SECTOR_SIZE, bits = block_bits\<rparr>\<rparr>) s in
           case kmalloc (k * SECTOR_SIZE) s of (ibits_addr, inode_bits, s) \<Rightarrow>
           if ibits_addr = NULL then Inl Panicked
           else
             bindE (ide_read hdisk (inode_bitmap_lba b) inode_bits k s) (\<lambda>inode_bits.
             let s = upd_part p (\<lambda>q. q\<lparr>inode_bitmap := \<lparr>btmp_byte_len = k * SECTOR_SIZE, bits = inode_bits\<rparr>,
                                       open_inodes := []\<rparr>) s in
             bindE (kfree m s) (\<lambda>s. Inr (True, s)))))))"

text \<open>\<open>list_traversal\<close> on the partition list (theory \<open>Intrusive_List\<close>).\<close>

fun mount_first :: "u8 list \<Rightarrow> addr list \<Rightarrow> 'a fs_scheme \<Rightarrow> 'a fs_scheme res" where
  "mount_first pname [] s = Inr s"
| "mount_first pname (p # rest) s =
     bindE (mount_partition p pname s) (\<lambda>(stop, s). if stop then Inr s else mount_first pname rest s)"

section \<open>At boot\<close>

text \<open>One partition of a disk: it is formatted unless it carries the magic number.\<close>

definition check_partition :: "addr \<Rightarrow> nat \<Rightarrow> 'a fs_scheme \<Rightarrow> 'a fs_scheme res" where
  "check_partition hdisk k s =
     (let p = part_addr s hdisk k in
      if sec_cnt (partitions s p) \<noteq> 0 then
        bindE (ide_read hdisk (start_lba (partitions s p) + 1) (replicate SECTOR_SIZE 0) 1 s) (\<lambda>mem.
          if magic (super_block_of mem) = 0x20010107 then Inr s else partition_format p s)
      else Inr s)"

text \<open>
  The loop over the channels with the counter \<open>partition_idx\<close>, which is not set back: the disks behind
  the first are not looked at. Only the second disk of a channel carries file systems.
\<close>

fun search_channels :: "nat list \<Rightarrow> nat \<Rightarrow> 'a fs_scheme \<Rightarrow> 'a fs_scheme res" where
  "search_channels [] partition_idx s = Inr s"
| "search_channels (c # rest) partition_idx s =
     bindE (foldE (check_partition (hd_addr s c 1)) [partition_idx..<12] s) (search_channels rest 12)"

definition filesys_init :: "'a fs_scheme \<Rightarrow> 'a fs_scheme res" where
  "filesys_init s =
     (case kmalloc SECTOR_SIZE s of (m, _, s) \<Rightarrow>
      if m = NULL then Inl Panicked
      else
        bindE (search_channels [0..<channel_cnt s] 0 s) (\<lambda>s.
        bindE (kfree m s) (\<lambda>s.
        bindE (mount_first (lit ''sdb1'') (partition_list s) s) (\<lambda>s.
        if current_partition s = NULL then Inl Bad_access
        else bindE (open_root_dir (current_partition s) s) (\<lambda>s.
          Inr (s\<lparr>file_table := List.map (\<lambda>fd. fd\<lparr>fd_pos := 0, fd_inode := NULL\<rparr>) (file_table s)\<rparr>))))))"

end
