(* ===== verification/Ide_Disk.thy ===== *)
theory Ide_Disk
  imports Fs_Setup Machine
begin

text \<open>
  The disk driver (\<open>device/ide.c\<close>) down to the registers of the controller: selecting a disk and a range of
  sectors, commands, the interrupt handler and the semaphore it raises, polling, and the transfers
  cut into commands. The port instructions (\<open>kernel/io.h\<close>, inline assembly) and the controller behind
  them are the argument \<open>ports\<close>. The partition tables are read with \<open>ide_read\<close> of \<open>Inode\<close>, which the
  transfer through the registers is shown to implement.
\<close>

section \<open>Ports and channels\<close>

text \<open>
  \<open>next_irq\<close> is the vector of the interrupt that arrives next while a thread waits, if any.
  \<open>insw_from P port n\<close> reads \<open>n\<close> words of 16 bits.
\<close>

record 'd ports =
  outb_to :: "u16 \<Rightarrow> u8 \<Rightarrow> 'd \<Rightarrow> 'd"
  inb_from :: "u16 \<Rightarrow> 'd \<Rightarrow> u8 \<times> 'd"
  insw_from :: "u16 \<Rightarrow> nat \<Rightarrow> 'd \<Rightarrow> u8 list \<times> 'd"
  outsw_to :: "u16 \<Rightarrow> u8 list \<Rightarrow> 'd \<Rightarrow> 'd"
  next_irq :: "'d \<Rightarrow> (u8 \<times> 'd) option"

record ide_channel =
  channel_name :: "u8 list"
  port_base :: u16
  vec_no :: u8
  channel_mutex :: mutex
  expecting_intr :: bool
  disk_done :: semaphore

text \<open>
  The pointer \<open>my_channel\<close> of a disk is the index of its channel. \<open>hardware\<close> is the state behind the ports.
\<close>

record 'd ide = fs +
  channels :: "ide_channel list"
  my_channel :: "addr \<Rightarrow> nat"
  dev_no :: "addr \<Rightarrow> u8"
  vectors :: handlers
  hardware :: 'd

definition reg_data :: "ide_channel \<Rightarrow> u16" where "reg_data channel = port_base channel + 0"
definition reg_sect_cnt :: "ide_channel \<Rightarrow> u16" where "reg_sect_cnt channel = port_base channel + 2"
definition reg_lba_low :: "ide_channel \<Rightarrow> u16" where "reg_lba_low channel = port_base channel + 3"
definition reg_lba_middle :: "ide_channel \<Rightarrow> u16" where "reg_lba_middle channel = port_base channel + 4"
definition reg_lba_high :: "ide_channel \<Rightarrow> u16" where "reg_lba_high channel = port_base channel + 5"
definition reg_dev :: "ide_channel \<Rightarrow> u16" where "reg_dev channel = port_base channel + 6"
definition reg_status :: "ide_channel \<Rightarrow> u16" where "reg_status channel = port_base channel + 7"
definition reg_cmd :: "ide_channel \<Rightarrow> u16" where "reg_cmd channel = reg_status channel"

lemmas reg_defs = reg_data_def reg_sect_cnt_def reg_lba_low_def reg_lba_middle_def reg_lba_high_def
  reg_dev_def reg_status_def reg_cmd_def

definition BIT_STAT_BSY :: u8 where "BIT_STAT_BSY = 128"
definition BIT_STAT_DRQ :: u8 where "BIT_STAT_DRQ = 8"
definition BIT_DEV_MBS :: u8 where "BIT_DEV_MBS = 160"
definition BIT_DEV_LBA :: u8 where "BIT_DEV_LBA = 64"
definition BIT_DEV_DEV :: u8 where "BIT_DEV_DEV = 16"
definition CMD_IDENTITY :: u8 where "CMD_IDENTITY = 236"
definition CMD_READ_SECTOR :: u8 where "CMD_READ_SECTOR = 32"
definition CMD_WRITE_SECTOR :: u8 where "CMD_WRITE_SECTOR = 48"

definition ide_outb :: "'d ports \<Rightarrow> u16 \<Rightarrow> u8 \<Rightarrow> 'd ide \<Rightarrow> 'd ide" where
  "ide_outb P port v s = s\<lparr>hardware := outb_to P port v (hardware s)\<rparr>"

definition ide_inb :: "'d ports \<Rightarrow> u16 \<Rightarrow> 'd ide \<Rightarrow> u8 \<times> 'd ide" where
  "ide_inb P port s = (case inb_from P port (hardware s) of (v, d) \<Rightarrow> (v, s\<lparr>hardware := d\<rparr>))"

definition upd_channel :: "nat \<Rightarrow> (ide_channel \<Rightarrow> ide_channel) \<Rightarrow> 'd ide \<Rightarrow> 'd ide" where
  "upd_channel c f s = s\<lparr>channels := (channels s)[c := f (channels s ! c)]\<rparr>"

section \<open>Commands\<close>

definition select_disk :: "'d ports \<Rightarrow> addr \<Rightarrow> 'd ide \<Rightarrow> 'd ide res" where
  "select_disk P hdisk s =
     (let reg_device = BIT_DEV_MBS OR BIT_DEV_LBA;
          reg_device = (if dev_no s hdisk = 1 then reg_device OR BIT_DEV_DEV else reg_device) in
      bindE (read_at (channels s) (my_channel s hdisk)) (\<lambda>channel.
        Inr (ide_outb P (reg_dev channel) reg_device s)))"

definition select_sector :: "'d ports \<Rightarrow> addr \<Rightarrow> u32 \<Rightarrow> u8 \<Rightarrow> 'd ide \<Rightarrow> 'd ide res" where
  "select_sector P hdisk lba n s =
     asserting (lba \<le> max_lba)
     (bindE (read_at (channels s) (my_channel s hdisk)) (\<lambda>channel.
        let s = ide_outb P (reg_sect_cnt channel) n s;
            s = ide_outb P (reg_lba_low channel) (ucast lba) s;
            s = ide_outb P (reg_lba_middle channel) (ucast (drop_bit 8 lba)) s;
            s = ide_outb P (reg_lba_high channel) (ucast (drop_bit 16 lba)) s in
        Inr (ide_outb P (reg_dev channel)
          (BIT_DEV_MBS OR BIT_DEV_LBA OR (if dev_no s hdisk = 1 then BIT_DEV_DEV else 0) OR ucast (drop_bit 24 lba)) s)))"

definition cmd_out :: "'d ports \<Rightarrow> nat \<Rightarrow> u8 \<Rightarrow> 'd ide \<Rightarrow> 'd ide res" where
  "cmd_out P c cmd s =
     bindE (read_at (channels s) c) (\<lambda>channel.
       Inr (ide_outb P (reg_cmd channel) cmd (upd_channel c (\<lambda>ch. ch\<lparr>expecting_intr := True\<rparr>) s)))"

text \<open>The buffer is the object it lies in and the offset of the pointer.\<close>

definition size_in_byte :: "u8 \<Rightarrow> nat" where
  "size_in_byte n = (if n = 0 then 256 * 512 else unat n * 512)"

definition read_from_sector :: "'d ports \<Rightarrow> addr \<Rightarrow> u8 list \<Rightarrow> nat \<Rightarrow> u8 \<Rightarrow> 'd ide \<Rightarrow> (u8 list \<times> 'd ide) res" where
  "read_from_sector P hdisk mem off n s =
     bindE (read_at (channels s) (my_channel s hdisk)) (\<lambda>channel.
     case insw_from P (reg_data channel) (size_in_byte n div 2) (hardware s) of (bytes, d) \<Rightarrow>
     bindE (memcpy_at mem off bytes (size_in_byte n div 2 * 2)) (\<lambda>mem. Inr (mem, s\<lparr>hardware := d\<rparr>)))"

definition write_to_sector :: "'d ports \<Rightarrow> addr \<Rightarrow> u8 list \<Rightarrow> nat \<Rightarrow> u8 \<Rightarrow> 'd ide \<Rightarrow> 'd ide res" where
  "write_to_sector P hdisk mem off n s =
     bindE (read_at (channels s) (my_channel s hdisk)) (\<lambda>channel.
     let len = size_in_byte n div 2 * 2 in
     if length mem < off + len then Inl Bad_access
     else Inr (s\<lparr>hardware := outsw_to P (reg_data channel) (take len (drop off mem)) (hardware s)\<rparr>))"

section \<open>Waiting for the disk\<close>

definition intr_hd_handler :: "'d ports \<Rightarrow> u8 \<Rightarrow> 'd ide \<Rightarrow> 'd ide res" where
  "intr_hd_handler P v s =
     asserting (v = 0x2E \<or> v = 0x2F)
     (let channel_no = unat (v - 0x2E) in
      bindE (read_at (channels s) channel_no) (\<lambda>channel.
      asserting (vec_no channel = v)
      (if expecting_intr channel then
         let s = upd_channel channel_no (\<lambda>ch. ch\<lparr>expecting_intr := False\<rparr>) s in
         bindE (sema_up (disk_done channel) s) (\<lambda>(sema, s).
         case ide_inb P (reg_status channel) (upd_channel channel_no (\<lambda>ch. ch\<lparr>disk_done := sema\<rparr>) s) of
           (_, s) \<Rightarrow> Inr s)
       else Inr s)))"

text \<open>
  \<open>sema_down(&channel->disk_done)\<close>: a thread that finds the semaphore at 0 sleeps until the interrupt has
  come and its handler has raised the semaphore. What other threads do in between is left out.
\<close>

definition await_disk :: "'d ports \<Rightarrow> nat \<Rightarrow> 'd ide \<Rightarrow> 'd ide res" where
  "await_disk P c s =
     bindE (read_at (channels s) c) (\<lambda>channel.
     bindE
       (if sema_value (disk_done channel) = 0 then
          case next_irq P (hardware s) of
            None \<Rightarrow> Inl Would_block
          | Some (v, d) \<Rightarrow> intr_hd_handler P v (s\<lparr>hardware := d\<rparr>)
        else Inr s) (\<lambda>s.
     bindE (read_at (channels s) c) (\<lambda>channel.
     bindE (sema_down (disk_done channel) s) (\<lambda>(sema, s).
       Inr (upd_channel c (\<lambda>ch. ch\<lparr>disk_done := sema\<rparr>) s)))))"

text \<open>
  The loop of \<open>busy_wait\<close>, by the rounds left. Its condition subtracts the value of \<open>10 > 0\<close>, which is 1,
  from the \<open>time_limit\<close> of 30000, so there are 29999 rounds.
\<close>

fun poll :: "'d ports \<Rightarrow> ('d ide \<Rightarrow> 'd ide) \<Rightarrow> nat \<Rightarrow> nat \<Rightarrow> 'd ide \<Rightarrow> (bool \<times> 'd ide) res" where
  "poll P yield c 0 s = Inr (False, s)"
| "poll P yield c (Suc rounds) s =
     bindE (read_at (channels s) c) (\<lambda>channel.
     case ide_inb P (reg_status channel) s of (st, s) \<Rightarrow>
       if st AND BIT_STAT_BSY = 0 then
         case ide_inb P (reg_status channel) s of (st, s) \<Rightarrow> Inr (st AND BIT_STAT_DRQ \<noteq> 0, s)
       else
         bindE (mtime_sleep yield 10 s) (\<lambda>r.
         case r of None \<Rightarrow> Inl No_return | Some s \<Rightarrow> poll P yield c rounds s))"

definition busy_wait :: "'d ports \<Rightarrow> ('d ide \<Rightarrow> 'd ide) \<Rightarrow> addr \<Rightarrow> 'd ide \<Rightarrow> (bool \<times> 'd ide) res" where
  "busy_wait P yield hdisk s = poll P yield (my_channel s hdisk) 29999 s"

section \<open>Transfers\<close>

definition channel_acquire :: "nat \<Rightarrow> 'd ide \<Rightarrow> 'd ide res" where
  "channel_acquire c s =
     bindE (read_at (channels s) c) (\<lambda>channel.
     bindE (mutex_acquire (channel_mutex channel) s) (\<lambda>(m, s).
       Inr (upd_channel c (\<lambda>ch. ch\<lparr>channel_mutex := m\<rparr>) s)))"

definition channel_release :: "nat \<Rightarrow> 'd ide \<Rightarrow> 'd ide res" where
  "channel_release c s =
     bindE (read_at (channels s) c) (\<lambda>channel.
     bindE (mutex_release (channel_mutex channel) s) (\<lambda>(m, s).
       Inr (upd_channel c (\<lambda>ch. ch\<lparr>channel_mutex := m\<rparr>) s)))"

definition next_transfer :: "nat \<Rightarrow> nat \<Rightarrow> nat" where
  "next_transfer secs_done n = (if secs_done + 256 \<le> n then 256 else n - secs_done)"

text \<open>The body of the loop of \<open>ide_read\<close>, and that of \<open>ide_write\<close>.\<close>

definition read_command ::
  "'d ports \<Rightarrow> ('d ide \<Rightarrow> 'd ide) \<Rightarrow> addr \<Rightarrow> u32 \<Rightarrow> u8 list \<Rightarrow> nat \<Rightarrow> nat \<Rightarrow> 'd ide \<Rightarrow> (u8 list \<times> 'd ide) res" where
  "read_command P yield hdisk lba mem secs_done secs_to_read s =
     bindE (select_sector P hdisk (lba + of_nat secs_done) (of_nat secs_to_read) s) (\<lambda>s.
     bindE (cmd_out P (my_channel s hdisk) CMD_READ_SECTOR s) (\<lambda>s.
     bindE (await_disk P (my_channel s hdisk) s) (\<lambda>s.
     bindE (busy_wait P yield hdisk s) (\<lambda>(ready, s).
     if \<not> ready then Inl Panicked
     else read_from_sector P hdisk mem (512 * secs_done) (of_nat secs_to_read) s))))"

definition write_command ::
  "'d ports \<Rightarrow> ('d ide \<Rightarrow> 'd ide) \<Rightarrow> addr \<Rightarrow> u32 \<Rightarrow> u8 list \<Rightarrow> nat \<Rightarrow> nat \<Rightarrow> 'd ide \<Rightarrow> 'd ide res" where
  "write_command P yield hdisk lba mem secs_done secs_to_write s =
     bindE (select_sector P hdisk (lba + of_nat secs_done) (of_nat secs_to_write) s) (\<lambda>s.
     bindE (cmd_out P (my_channel s hdisk) CMD_WRITE_SECTOR s) (\<lambda>s.
     bindE (busy_wait P yield hdisk s) (\<lambda>(ready, s).
     if \<not> ready then Inl Panicked
     else
       bindE (write_to_sector P hdisk mem (512 * secs_done) (of_nat secs_to_write) s) (\<lambda>s.
       await_disk P (my_channel s hdisk) s))))"

function read_commands ::
  "'d ports \<Rightarrow> ('d ide \<Rightarrow> 'd ide) \<Rightarrow> addr \<Rightarrow> u32 \<Rightarrow> u8 list \<Rightarrow> nat \<Rightarrow> nat \<Rightarrow> 'd ide \<Rightarrow> (u8 list \<times> 'd ide) res" where
  "read_commands P yield hdisk lba mem secs_done n s =
     (if secs_done < n then
        let secs_to_read = next_transfer secs_done n in
        bindE (read_command P yield hdisk lba mem secs_done secs_to_read s) (\<lambda>(mem, s).
          read_commands P yield hdisk lba mem (secs_done + secs_to_read) n s)
      else Inr (mem, s))"
  by pat_completeness auto
termination
  by (relation "measure (\<lambda>(P, yield, hdisk, lba, mem, secs_done, n, s). n - secs_done)") (auto simp: next_transfer_def)

function write_commands ::
  "'d ports \<Rightarrow> ('d ide \<Rightarrow> 'd ide) \<Rightarrow> addr \<Rightarrow> u32 \<Rightarrow> u8 list \<Rightarrow> nat \<Rightarrow> nat \<Rightarrow> 'd ide \<Rightarrow> 'd ide res" where
  "write_commands P yield hdisk lba mem secs_done n s =
     (if secs_done < n then
        let secs_to_write = next_transfer secs_done n in
        bindE (write_command P yield hdisk lba mem secs_done secs_to_write s) (\<lambda>s.
          write_commands P yield hdisk lba mem (secs_done + secs_to_write) n s)
      else Inr s)"
  by pat_completeness auto
termination
  by (relation "measure (\<lambda>(P, yield, hdisk, lba, mem, secs_done, n, s). n - secs_done)") (auto simp: next_transfer_def)

declare read_commands.simps [simp del] write_commands.simps [simp del]

definition ide_read_ports ::
  "'d ports \<Rightarrow> ('d ide \<Rightarrow> 'd ide) \<Rightarrow> addr \<Rightarrow> u32 \<Rightarrow> u8 list \<Rightarrow> nat \<Rightarrow> 'd ide \<Rightarrow> (u8 list \<times> 'd ide) res" where
  "ide_read_ports P yield hdisk lba mem n s =
     asserting (lba \<le> max_lba) (asserting (n > 0)
     (bindE (channel_acquire (my_channel s hdisk) s) (\<lambda>s.
      bindE (select_disk P hdisk s) (\<lambda>s.
      bindE (read_commands P yield hdisk lba mem 0 n s) (\<lambda>(mem, s).
      bindE (channel_release (my_channel s hdisk) s) (\<lambda>s. Inr (mem, s)))))))"

definition ide_write_ports ::
  "'d ports \<Rightarrow> ('d ide \<Rightarrow> 'd ide) \<Rightarrow> addr \<Rightarrow> u32 \<Rightarrow> u8 list \<Rightarrow> nat \<Rightarrow> 'd ide \<Rightarrow> 'd ide res" where
  "ide_write_ports P yield hdisk lba mem n s =
     asserting (lba \<le> max_lba) (asserting (n > 0)
     (bindE (channel_acquire (my_channel s hdisk) s) (\<lambda>s.
      bindE (select_disk P hdisk s) (\<lambda>s.
      bindE (write_commands P yield hdisk lba mem 0 n s) (\<lambda>s.
        channel_release (my_channel s hdisk) s)))))"

section \<open>What a disk says of itself\<close>

text \<open>
  Each pair of bytes is swapped and the result ends in a zero. The counter has 8 bits: a length above
  254 is never reached and the loop runs on.
\<close>

fun swap_loop :: "nat \<Rightarrow> nat \<Rightarrow> u8 list \<Rightarrow> u8 list \<Rightarrow> u8 list res" where
  "swap_loop idx len (a # b # src) dst =
     (if idx < len then
        bindE (write_at dst (idx + 1) a) (\<lambda>dst.
        bindE (write_at dst idx b) (\<lambda>dst.
          if idx + 2 = 256 then Inl No_return else swap_loop (idx + 2) len src dst))
      else write_at dst idx 0)"
| "swap_loop idx len src dst = (if idx < len then Inl Bad_access else write_at dst idx 0)"

definition swap_paired_bytes :: "u8 list \<Rightarrow> u8 list \<Rightarrow> nat \<Rightarrow> u8 list res" where
  "swap_paired_bytes src dst len = swap_loop 0 len src dst"

text \<open>The answer is what the function prints: serial number, module, number of sectors and capacity in MB.\<close>

definition identify_disk ::
  "'d ports \<Rightarrow> ('d ide \<Rightarrow> 'd ide) \<Rightarrow> addr \<Rightarrow> 'd ide \<Rightarrow> ((u8 list \<times> u8 list \<times> u32 \<times> u32) \<times> 'd ide) res" where
  "identify_disk P yield hdisk s =
     bindE (select_disk P hdisk s) (\<lambda>s.
     bindE (cmd_out P (my_channel s hdisk) CMD_IDENTITY s) (\<lambda>s.
     bindE (await_disk P (my_channel s hdisk) s) (\<lambda>s.
     bindE (busy_wait P yield hdisk s) (\<lambda>(ready, s).
     if \<not> ready then Inl Panicked
     else
       bindE (read_from_sector P hdisk (uninit 512 s) 0 1 s) (\<lambda>(id_info, s).
       bindE (swap_paired_bytes (drop 20 id_info) (uninit 64 s) 20) (\<lambda>serial.
       bindE (memset (Some serial) 0 64) (\<lambda>b.
       bindE (swap_paired_bytes (drop 54 id_info) b 40) (\<lambda>mode.
       let secs = word_at id_info 120 in
       Inr ((serial, mode, secs, secs * 512 div 1024 div 1024), s)))))))))"

section \<open>Partition tables\<close>

record partition_table_entry =
  bootable :: u8
  start_head :: u8
  start_sec :: u8
  start_chs :: u8
  fs_type :: u8
  end_head :: u8
  end_sec :: u8
  end_chs :: u8
  entry_lba :: u32
  entry_cnt :: u32

text \<open>The four entries of a boot sector lie behind 446 bytes of code.\<close>

definition partition_table :: "u8 list \<Rightarrow> nat \<Rightarrow> partition_table_entry" where
  "partition_table bs k =
     (let at = 446 + 16 * k in
      \<lparr>bootable = bs ! at, start_head = bs ! (at + 1), start_sec = bs ! (at + 2), start_chs = bs ! (at + 3),
       fs_type = bs ! (at + 4), end_head = bs ! (at + 5), end_sec = bs ! (at + 6), end_chs = bs ! (at + 7),
       entry_lba = word_at bs (at + 8), entry_cnt = word_at bs (at + 12)\<rparr>)"

text \<open>
  A partition is entered in its place of the disk and in \<open>partition_list\<close>, and named after the disk. The
  source never initialises \<open>partition_list\<close>; it is taken for an empty list at boot.
\<close>

definition add_partition ::
  "addr \<Rightarrow> addr \<Rightarrow> u32 \<Rightarrow> partition_table_entry \<Rightarrow> nat \<Rightarrow> 'a fs_scheme \<Rightarrow> 'a fs_scheme res" where
  "add_partition hdisk p ext_lba e no s =
     (let s = upd_part p (\<lambda>q. q\<lparr>start_lba := ext_lba + entry_lba e, sec_cnt := entry_cnt e, my_disk := hdisk\<rparr>) s;
          s = s\<lparr>partition_list := partition_list s @ [p]\<rparr> in
      bindE (sprintf (part_name (partitions s p)) (lit ''%s%d'') [VStr (disk_name s hdisk), VInt (of_nat no)])
        (\<lambda>(name, _). Inr (upd_part p (\<lambda>q. q\<lparr>part_name := name\<rparr>) s)))"

text \<open>
  One entry of a table; \<open>scan\<close> is the recursive call. \<open>True\<close> is the early return at the eighth logical
  partition, which leaves the buffer of the sector allocated.
\<close>

definition scan_entry ::
  "(u32 \<Rightarrow> 'a fs_scheme \<Rightarrow> 'a fs_scheme res) \<Rightarrow> addr \<Rightarrow> u32 \<Rightarrow> partition_table_entry \<Rightarrow> 'a fs_scheme \<Rightarrow>
   (bool \<times> 'a fs_scheme) res" where
  "scan_entry scan hdisk ext_lba e s =
     (if fs_type e = 5 then
        bindE
          (if ext_lba_base s \<noteq> 0 then scan (entry_lba e + ext_lba_base s) s
           else scan (entry_lba e) (s\<lparr>ext_lba_base := entry_lba e\<rparr>))
          (\<lambda>s. Inr (False, s))
      else if fs_type e \<noteq> 0 then
        if ext_lba = 0 then
          if p_no s \<ge> 4 then Inl Bad_access
          else
            bindE (add_partition hdisk (part_addr s hdisk (p_no s)) ext_lba e (p_no s + 1) s) (\<lambda>s.
            let s = s\<lparr>p_no := p_no s + 1\<rparr> in
            asserting (p_no s < 4) (Inr (False, s)))
        else if l_no s \<ge> 8 then Inl Bad_access
        else
          bindE (add_partition hdisk (part_addr s hdisk (4 + l_no s)) ext_lba e (l_no s + 5) s) (\<lambda>s.
          let s = s\<lparr>l_no := l_no s + 1\<rparr> in Inr (l_no s \<ge> 8, s))
      else Inr (False, s))"

fun scan_table ::
  "(u32 \<Rightarrow> 'a fs_scheme \<Rightarrow> 'a fs_scheme res) \<Rightarrow> addr \<Rightarrow> u32 \<Rightarrow> partition_table_entry list \<Rightarrow> 'a fs_scheme \<Rightarrow>
   (bool \<times> 'a fs_scheme) res" where
  "scan_table scan hdisk ext_lba [] s = Inr (False, s)"
| "scan_table scan hdisk ext_lba (e # es) s =
     bindE (scan_entry scan hdisk ext_lba e s) (\<lambda>(stop, s).
       if stop then Inr (True, s) else scan_table scan hdisk ext_lba es s)"

text \<open>The first argument bounds the depth of the recursion: a chain of extended tables may be a cycle.\<close>

fun partition_scan :: "nat \<Rightarrow> addr \<Rightarrow> u32 \<Rightarrow> 'a fs_scheme \<Rightarrow> 'a fs_scheme res" where
  "partition_scan 0 hdisk ext_lba s = Inl No_return"
| "partition_scan (Suc depth) hdisk ext_lba s =
     (case kmalloc 512 s of (m, mem, s) \<Rightarrow>
      bindE (ide_read hdisk ext_lba mem 1 s) (\<lambda>bs.
      bindE (scan_table (partition_scan depth hdisk) hdisk ext_lba (List.map (partition_table bs) [0..<4]) s) (\<lambda>(stop, s).
        if stop then Inr s else kfree m s)))"

section \<open>At boot\<close>

definition init_disk ::
  "'d ports \<Rightarrow> ('d ide \<Rightarrow> 'd ide) \<Rightarrow> nat \<Rightarrow> nat \<Rightarrow> nat \<Rightarrow> 'd ide \<Rightarrow> 'd ide res" where
  "init_disk P yield depth channel_no dev s =
     (let hdisk = hd_addr s channel_no dev;
          s = s\<lparr>my_channel := (my_channel s)(hdisk := channel_no), dev_no := (dev_no s)(hdisk := of_nat dev)\<rparr> in
      bindE (sprintf (disk_name s hdisk) (lit ''sd%c'') [VInt (of_nat (97 + channel_no * 2 + dev))]) (\<lambda>(name, _).
      let s = s\<lparr>disk_name := (disk_name s)(hdisk := name)\<rparr> in
      bindE (identify_disk P yield hdisk s) (\<lambda>(_, s).
      bindE (if dev \<noteq> 0 then partition_scan depth hdisk 0 s else Inr s) (\<lambda>s.
        Inr (s\<lparr>p_no := 0, l_no := 0\<rparr>)))))"

definition init_channel ::
  "'d ports \<Rightarrow> ('d ide \<Rightarrow> 'd ide) \<Rightarrow> nat \<Rightarrow> nat \<Rightarrow> 'd ide \<Rightarrow> 'd ide res" where
  "init_channel P yield depth channel_no s =
     bindE (read_at (channels s) channel_no) (\<lambda>channel.
     bindE (sprintf (channel_name channel) (lit ''ide%d'') [VInt (of_nat channel_no)]) (\<lambda>(name, _).
     if channel_no > 1 then Inl Panicked
     else
       let v = (if channel_no = 0 then 0x20 + 14 else 0x20 + 15);
           s = upd_channel channel_no (\<lambda>_. \<lparr>channel_name = name, port_base = (if channel_no = 0 then 0x1F0 else 0x170),
             vec_no = v, channel_mutex = mutex_init, expecting_intr = False, disk_done = sema_init 0\<rparr>) s in
       bindE (register_handler v Disk_handler (vectors s)) (\<lambda>h.
         foldE (init_disk P yield depth channel_no) [0, 1] (s\<lparr>vectors := h\<rparr>))))"

text \<open>\<open>hd_cnt\<close> is the number of disks the BIOS leaves at address 0x475.\<close>

definition ide_init :: "'d ports \<Rightarrow> ('d ide \<Rightarrow> 'd ide) \<Rightarrow> nat \<Rightarrow> u8 \<Rightarrow> 'd ide \<Rightarrow> 'd ide res" where
  "ide_init P yield depth hd_cnt s =
     asserting (hd_cnt > 0)
     (let n = (unat hd_cnt + 2 - 1) div 2 in
      foldE (init_channel P yield depth) [0..<n] (s\<lparr>channel_cnt := n\<rparr>))"

section \<open>Swapped bytes and full tables\<close>

fun swap_pairs :: "'a list \<Rightarrow> 'a list" where
  "swap_pairs (a # b # r) = b # a # swap_pairs r"
| "swap_pairs _ = []"

lemma swap_loop_eq:
  assumes "len = idx + 2 * n" "len \<le> 254" "2 * n \<le> length src" "len < length dst"
  shows "swap_loop idx len src dst = Inr (take idx dst @ swap_pairs (take (2 * n) src) @ 0 # drop (len + 1) dst)"
  using assms
proof (induction n arbitrary: idx src dst)
  case 0
  then show ?case by (cases "(idx, len, src, dst)" rule: swap_loop.cases) (simp_all add: upd_conv_take_nth_drop)
next
  case (Suc n)
  obtain a b src' where src: "src = a # b # src'"
    using Suc.prems(3) by (cases src; cases "tl src") auto
  let ?dst = "dst[idx + 1 := a, idx := b]"
  have "take (idx + 2) ?dst = take idx dst @ [b, a]"
    using Suc.prems(1,4) by (simp add: list_eq_iff_nth_eq nth_append nth_list_update less_Suc_eq)
  moreover have "swap_loop (idx + 2) len src' ?dst =
      Inr (take (idx + 2) ?dst @ swap_pairs (take (2 * n) src') @ 0 # drop (len + 1) ?dst)"
    by (rule Suc.IH) (use Suc.prems src in simp_all)
  ultimately show ?case using Suc.prems(1,2,4) by (simp add: src)
qed

text \<open>The bytes change places in pairs, and the text ends there.\<close>

lemma swap_paired_bytes_eq:
  assumes "even len" "len \<le> 254" "len \<le> length src" "len < length dst"
  shows "swap_paired_bytes src dst len = Inr (swap_pairs (take len src) @ 0 # drop (len + 1) dst)"
  using swap_loop_eq [of len 0 "len div 2" src dst] assms by (simp add: swap_paired_bytes_def)

lemma swap_pairs_twice: "even (length xs) \<Longrightarrow> swap_pairs (swap_pairs xs) = xs"
  by (induction xs rule: swap_pairs.induct) auto

text \<open>A fourth primary partition is entered, and then an assertion fails.\<close>

lemma fourth_primary_fails:
  assumes "p_no s = 3" "fs_type e \<noteq> 0" "fs_type e \<noteq> 5"
  shows "scan_entry scan hdisk 0 e s \<noteq> Inr r"
proof
  assume "scan_entry scan hdisk 0 e s = Inr r"
  then obtain t where t: "add_partition hdisk (part_addr s hdisk 3) 0 e 4 s = Inr t" "p_no t < 3"
    using assms by (auto simp: scan_entry_def return_iff Let_def)
  from t(1) have "p_no t = p_no s" by (auto simp: add_partition_def return_iff Let_def upd_part_def)
  then show False using t(2) assms(1) by simp
qed

end
