(* ===== verification/Ide_Transfer.thy ===== *)
theory Ide_Transfer
  imports Ide_Disk
begin

text \<open>
  Reading and writing through the registers of the disk controller (\<open>Ide_Disk\<close>) implement \<open>ide_read\<close> and
  \<open>ide_write\<close> on the sectors (\<open>Inode\<close>), for a controller that behaves as documented.
\<close>

section \<open>What the controller does\<close>

text \<open>
  The documented behaviour of an ATA controller in PIO mode, as far as the driver relies on it. A
  controller at the ports from \<open>base\<close> on is \<open>idle\<close>, \<open>offers\<close> bytes to the processor, or \<open>wants\<close> the data of
  a number of sectors once its status has been read as busy some more times. \<open>task_file\<close> holds the
  registers 2 to 6; \<open>sector_of\<close> what is on the two disks.
\<close>

record 'd drive =
  sector_of :: "'d \<Rightarrow> u16 \<Rightarrow> bool \<Rightarrow> u32 \<Rightarrow> u8 list"
  idle :: "'d \<Rightarrow> u16 \<Rightarrow> bool"
  task_file :: "'d \<Rightarrow> u16 \<Rightarrow> nat \<Rightarrow> u8"
  offers :: "'d \<Rightarrow> u16 \<Rightarrow> u8 list \<Rightarrow> bool"
  wants :: "'d \<Rightarrow> u16 \<Rightarrow> nat \<Rightarrow> bool \<Rightarrow> u32 \<Rightarrow> nat \<Rightarrow> bool"

definition task_lba :: "(nat \<Rightarrow> u8) \<Rightarrow> u32" where
  "task_lba f = ucast (f 3) OR push_bit 8 (ucast (f 4)) OR push_bit 16 (ucast (f 5)) OR push_bit 24 (ucast (f 6 AND 15))"

definition task_count :: "(nat \<Rightarrow> u8) \<Rightarrow> nat" where
  "task_count f = (if f 2 = 0 then 256 else unat (f 2))"

definition registers_kept :: "'d ports \<Rightarrow> 'd drive \<Rightarrow> u16 \<Rightarrow> bool" where
  "registers_kept P V base \<longleftrightarrow> (\<forall>d i x. idle V d base \<and> 2 \<le> i \<and> i \<le> 6 \<longrightarrow>
     idle V (outb_to P (base + of_nat i) x d) base \<and> sector_of V (outb_to P (base + of_nat i) x d) = sector_of V d \<and>
     task_file V (outb_to P (base + of_nat i) x d) base = (task_file V d base)(i := x))"

definition reads_sectors :: "'d ports \<Rightarrow> 'd drive \<Rightarrow> u16 \<Rightarrow> u8 \<Rightarrow> bool" where
  "reads_sectors P V base v \<longleftrightarrow> (\<forall>d. let f = task_file V d base in
     idle V d base \<and> f 6 AND BIT_DEV_LBA \<noteq> 0 \<longrightarrow>
     (\<exists>d'. next_irq P (outb_to P (base + 7) CMD_READ_SECTOR d) = Some (v, d') \<and> sector_of V d' = sector_of V d \<and>
       offers V d' base (sectors (sector_of V d base (f 6 AND BIT_DEV_DEV \<noteq> 0)) (task_lba f) (task_count f))))"

definition delivers :: "'d ports \<Rightarrow> 'd drive \<Rightarrow> u16 \<Rightarrow> bool" where
  "delivers P V base \<longleftrightarrow> (\<forall>d bytes. offers V d base bytes \<longrightarrow>
     (\<exists>st d'. inb_from P (base + 7) d = (st, d') \<and> st AND BIT_STAT_BSY = 0 \<and> st AND BIT_STAT_DRQ \<noteq> 0 \<and>
        offers V d' base bytes \<and> sector_of V d' = sector_of V d) \<and>
     (\<exists>d'. insw_from P base (length bytes div 2) d = (bytes, d') \<and> idle V d' base \<and> sector_of V d' = sector_of V d))"

definition writes_sectors :: "'d ports \<Rightarrow> 'd drive \<Rightarrow> u16 \<Rightarrow> u8 \<Rightarrow> bool" where
  "writes_sectors P V base v \<longleftrightarrow> (\<forall>d. let f = task_file V d base; d' = outb_to P (base + 7) CMD_WRITE_SECTOR d in
     idle V d base \<and> f 6 AND BIT_DEV_LBA \<noteq> 0 \<longrightarrow> sector_of V d' = sector_of V d \<and>
     (\<exists>k < 29999. wants V d' base k (f 6 AND BIT_DEV_DEV \<noteq> 0) (task_lba f) (task_count f)))"

definition accepts :: "'d ports \<Rightarrow> 'd drive \<Rightarrow> u16 \<Rightarrow> u8 \<Rightarrow> bool" where
  "accepts P V base v \<longleftrightarrow> (\<forall>d k slave lba n. wants V d base k slave lba n \<longrightarrow>
     (\<exists>st d'. inb_from P (base + 7) d = (st, d') \<and> (st AND BIT_STAT_BSY = 0 \<longleftrightarrow> k = 0) \<and> (k = 0 \<longrightarrow> st AND BIT_STAT_DRQ \<noteq> 0) \<and>
        wants V d' base (k - 1) slave lba n \<and> sector_of V d' = sector_of V d) \<and>
     (\<forall>bytes. k = 0 \<and> length bytes = 512 * n \<longrightarrow>
        (\<exists>d'. next_irq P (outsw_to P base bytes d) = Some (v, d') \<and> idle V d' base \<and>
           sector_of V d' = (sector_of V d)(base := (sector_of V d base)
             (slave := put_sectors lba bytes n (sector_of V d base slave))))))"

definition status_quiet :: "'d ports \<Rightarrow> 'd drive \<Rightarrow> u16 \<Rightarrow> bool" where
  "status_quiet P V base \<longleftrightarrow> (\<forall>d. idle V d base \<longrightarrow>
     (\<exists>st d'. inb_from P (base + 7) d = (st, d') \<and> idle V d' base \<and> sector_of V d' = sector_of V d))"

definition obeys_ata :: "'d ports \<Rightarrow> 'd drive \<Rightarrow> u16 \<Rightarrow> u8 \<Rightarrow> bool" where
  "obeys_ata P V base v \<longleftrightarrow> registers_kept P V base \<and> reads_sectors P V base v \<and> delivers P V base \<and>
     writes_sectors P V base v \<and> accepts P V base v \<and> status_quiet P V base"

text \<open>The driver between two transfers, and during one: the mutex of the channel apart, both are the same.\<close>

definition channel_quiet :: "addr \<Rightarrow> 'd ide \<Rightarrow> bool" where
  "channel_quiet hdisk s \<longleftrightarrow> my_channel s hdisk \<le> 1 \<and> my_channel s hdisk < length (channels s) \<and>
     vec_no (channels s ! my_channel s hdisk) = 0x2E + of_nat (my_channel s hdisk) \<and>
     \<not> expecting_intr (channels s ! my_channel s hdisk) \<and> disk_done (channels s ! my_channel s hdisk) = sema_init 0"

abbreviation (input) base_of :: "addr \<Rightarrow> 'd ide \<Rightarrow> u16" where
  "base_of hdisk s \<equiv> port_base (channels s ! my_channel s hdisk)"

section \<open>One command\<close>

lemma sema_raise [simp]: "sema_up (sema_init 0) s = Inr (sema_init 1, s)"
  by (cases s) (simp add: sema_up_def sema_init_def intr_disable_eq intr_set_status_eq Let_def)

lemma sema_lower [simp]: "sema_down (sema_init 1) s = Inr (sema_init 0, s)"
  by (cases s) (simp add: sema_down_def sema_down_pass_def sema_init_def intr_disable_eq intr_set_status_eq Let_def)

lemma lba_top: "lba \<le> max_lba \<Longrightarrow> drop_bit 24 lba = 0"
  by (simp add: drop_bit_eq_div word_le_nat_alt max_lba_def unat_div flip: unat_eq_zero_iff)

lemma sema_init_value [simp]: "sema_value (sema_init v) = v" by (simp add: sema_init_def)

text \<open>A count of 256 is sent as 0.\<close>

lemma count_byte:
  assumes "0 < m" "m \<le> 256"
  shows "((of_nat m :: u8) = 0) = (m = 256)" "m < 256 \<Longrightarrow> unat (of_nat m :: u8) = m"
proof -
  show u: "unat (of_nat m :: u8) = m" if "m < 256" using that by (simp add: unat_of_nat)
  show "((of_nat m :: u8) = 0) = (m = 256)"
  proof (cases "m = 256")
    case False
    then have "unat (of_nat m :: u8) \<noteq> 0" using assms u by simp
    then show ?thesis using False by auto
  qed simp
qed

lemma dev_byte:
  assumes "lba \<le> max_lba"
  shows "(BIT_DEV_MBS OR BIT_DEV_LBA OR (if b then BIT_DEV_DEV else 0) OR ucast (drop_bit 24 lba)) =
    (if b then 0xF0 else (0xE0 :: u8))"
  using lba_top [OF assms] by (simp add: BIT_DEV_MBS_def BIT_DEV_LBA_def BIT_DEV_DEV_def)

lemma select_sector_eq:
  assumes law: "registers_kept P V base" and base: "base = base_of hdisk s"
    and c: "my_channel s hdisk < length (channels s)" and d: "idle V (hardware s) base" and lba: "lba \<le> max_lba"
  obtains d where "select_sector P hdisk lba n s = Inr (s\<lparr>hardware := d\<rparr>)" "idle V d base"
    "sector_of V d = sector_of V (hardware s)" "task_file V d base 2 = n" "task_lba (task_file V d base) = lba"
    "task_file V d base 6 = (if dev_no s hdisk = 1 then 0xF0 else 0xE0)"
proof -
  have law': "idle V (outb_to P (base + of_nat i) x d) base" "sector_of V (outb_to P (base + of_nat i) x d) = sector_of V d"
    "task_file V (outb_to P (base + of_nat i) x d) base = (task_file V d base)(i := x)"
    if "idle V d base" "2 \<le> i" "i \<le> 6" for i x d
    using law that unfolding registers_kept_def by blast+
  note w = law' [of _ 2] law' [of _ 3] law' [of _ 4] law' [of _ 5] law' [of _ 6]
  let ?dev = "if dev_no s hdisk = 1 then 0xF0 else (0xE0 :: u8)"
  let ?d = "outb_to P (base + 6) ?dev (outb_to P (base + 5) (ucast (drop_bit 16 lba))
    (outb_to P (base + 4) (ucast (drop_bit 8 lba)) (outb_to P (base + 3) (ucast lba) (outb_to P (base + 2) n (hardware s)))))"
  have "idle V ?d base" "sector_of V ?d = sector_of V (hardware s)"
    and f: "task_file V ?d base = (task_file V (hardware s) base)(2 := n, 3 := ucast lba, 4 := ucast (drop_bit 8 lba),
      5 := ucast (drop_bit 16 lba), 6 := ?dev)"
    using d w by simp_all
  have "word_at (le32 lba) 0 = lba" using word_at_le32 [of lba "[]"] by simp
  then have "task_lba (task_file V ?d base) = lba"
    unfolding f by (simp add: task_lba_def word_at_def le32_def lba_top [OF lba])
  moreover have "select_sector P hdisk lba n s = Inr (s\<lparr>hardware := ?d\<rparr>)"
    using lba c dev_byte [OF lba, of "dev_no s hdisk = 1"]
    by (simp add: select_sector_def ide_outb_def Let_def reg_defs base)
  ultimately show ?thesis using that [of ?d] \<open>idle V ?d base\<close> \<open>sector_of V ?d = _\<close> f by simp
qed

text \<open>The handler finds the channel of its vector; the thread that waits takes what it raised.\<close>

lemma await_disk_eq:
  assumes q: "channel_quiet hdisk s" and c: "c = my_channel s hdisk" "port_base (channels s ! c) = base"
    and t: "t = upd_channel c (\<lambda>ch. ch\<lparr>expecting_intr := True\<rparr>) s\<lparr>hardware := d\<rparr>"
    and irq: "next_irq P d = Some (0x2E + of_nat c, d')" "inb_from P (base + 7) d' = (st, d'')"
  shows "await_disk P c t = Inr (s\<lparr>hardware := d''\<rparr>)"
proof -
  have n: "c < length (channels s)" "vec_no (channels s ! c) = 0x2E + of_nat c" "\<not> expecting_intr (channels s ! c)"
    "disk_done (channels s ! c) = sema_init 0" "c \<le> 1" using q by (simp_all add: channel_quiet_def c)
  have v: "0x2E + of_nat c = (0x2E :: u8) \<or> 0x2E + of_nat c = (0x2F :: u8)" "unat (0x2E + of_nat c - (0x2E :: u8)) = c"
    using n(5) by (auto simp: le_Suc_eq)
  let ?ch = "channels s ! c"
  have same: "?ch\<lparr>expecting_intr := False, disk_done := sema_init 0\<rparr> = ?ch" using n(3,4) by (cases ?ch) simp
  have "intr_hd_handler P (0x2E + of_nat c) (t\<lparr>hardware := d'\<rparr>) =
      Inr (s\<lparr>hardware := d'', channels := (channels s)[c := ?ch\<lparr>expecting_intr := False, disk_done := sema_init 1\<rparr>]\<rparr>)"
    using n(1,2,4) v irq(2) by (simp add: intr_hd_handler_def t upd_channel_def ide_inb_def reg_defs c(2) Let_def)
  then show ?thesis
    using n(1,4) irq(1) same by (simp add: await_disk_def t upd_channel_def)
qed

lemma busy_wait_ready:
  assumes "my_channel s hdisk < length (channels s)" "base = base_of hdisk s"
    and "inb_from P (base + 7) (hardware s) = (st, d)" "st AND BIT_STAT_BSY = 0"
    and "inb_from P (base + 7) d = (st', d')" "st' AND BIT_STAT_DRQ \<noteq> 0"
  shows "busy_wait P yield hdisk s = Inr (True, s\<lparr>hardware := d'\<rparr>)"
proof -
  have "(29999 :: nat) = Suc 29998" by simp
  then show ?thesis unfolding busy_wait_def using assms by (simp only: poll.simps) (simp add: ide_inb_def reg_defs)
qed

lemma read_command_eq:
  assumes law: "obeys_ata P V base (0x2E + of_nat (my_channel s hdisk))" and base: "base = base_of hdisk s"
    and q: "channel_quiet hdisk s" and d: "idle V (hardware s) base"
    and D: "D = sector_of V (hardware s) base (dev_no s hdisk = 1)" "disk_ok D"
    and m: "0 < m" "m \<le> 256" "lba + of_nat k \<le> max_lba" "512 * k + 512 * m \<le> length mem"
  obtains d' where "read_command P yield hdisk lba mem k m s =
      Inr (take (512 * k) mem @ sectors D (lba + of_nat k) m @ drop (512 * k + 512 * m) mem, s\<lparr>hardware := d'\<rparr>)"
    "idle V d' base" "sector_of V d' = sector_of V (hardware s)"
proof -
  let ?c = "my_channel s hdisk" and ?S = "sectors D (lba + of_nat k) m"
  have c: "?c < length (channels s)" using q by (simp add: channel_quiet_def)
  obtain d1 where d1: "select_sector P hdisk (lba + of_nat k) (of_nat m) s = Inr (s\<lparr>hardware := d1\<rparr>)" "idle V d1 base"
    "sector_of V d1 = sector_of V (hardware s)" "task_file V d1 base 2 = of_nat m"
    "task_lba (task_file V d1 base) = lba + of_nat k" "task_file V d1 base 6 = (if dev_no s hdisk = 1 then 0xF0 else 0xE0)"
    using select_sector_eq [OF _ base c d m(3), of P "of_nat m"] law unfolding obeys_ata_def by metis
  have cnt: "task_count (task_file V d1 base) = m"
    using m(1,2) d1(4) count_byte [OF m(1,2)] by (auto simp: task_count_def)
  have dv: "task_file V d1 base 6 AND BIT_DEV_LBA \<noteq> 0" "(task_file V d1 base 6 AND BIT_DEV_DEV \<noteq> 0) = (dev_no s hdisk = 1)"
    by (auto simp: d1(6) BIT_DEV_LBA_def BIT_DEV_DEV_def)
  have "reads_sectors P V base (0x2E + of_nat ?c)" using law by (simp add: obeys_ata_def)
  from this [unfolded reads_sectors_def Let_def, rule_format, OF conjI, OF d1(2) dv(1)]
  obtain d2 where d2: "next_irq P (outb_to P (base + 7) CMD_READ_SECTOR d1) = Some (0x2E + of_nat ?c, d2)"
    "sector_of V d2 = sector_of V d1" "offers V d2 base ?S"
    unfolding dv(2) d1(3,5) cnt D(1) [symmetric] by blast
  have dl: "\<exists>st d'. inb_from P (base + 7) d = (st, d') \<and> st AND BIT_STAT_BSY = 0 \<and> st AND BIT_STAT_DRQ \<noteq> 0 \<and>
      offers V d' base ?S \<and> sector_of V d' = sector_of V d"
      "\<exists>d'. insw_from P base (length ?S div 2) d = (?S, d') \<and> idle V d' base \<and> sector_of V d' = sector_of V d"
    if "offers V d base ?S" for d
    using law that unfolding obeys_ata_def delivers_def by blast+
  obtain st3 d3 where d3: "inb_from P (base + 7) d2 = (st3, d3)" "offers V d3 base ?S" "sector_of V d3 = sector_of V d2"
    using dl(1) [OF d2(3)] by blast
  obtain st4 d4 where d4: "inb_from P (base + 7) d3 = (st4, d4)" "st4 AND BIT_STAT_BSY = 0" "offers V d4 base ?S"
    "sector_of V d4 = sector_of V d3" using dl(1) [OF d3(2)] by blast
  obtain st5 d5 where d5: "inb_from P (base + 7) d4 = (st5, d5)" "st5 AND BIT_STAT_DRQ \<noteq> 0" "offers V d5 base ?S"
    "sector_of V d5 = sector_of V d4" using dl(1) [OF d4(3)] by blast
  obtain d6 where d6: "insw_from P base (length ?S div 2) d5 = (?S, d6)" "idle V d6 base" "sector_of V d6 = sector_of V d5"
    using dl(2) [OF d5(3)] by blast
  have sz: "size_in_byte (of_nat m) = 512 * m" using m(1,2) count_byte [OF m(1,2)] by (auto simp: size_in_byte_def)
  have len: "length ?S = 512 * m" using D(2) by simp
  have cmd: "cmd_out P ?c CMD_READ_SECTOR (s\<lparr>hardware := d1\<rparr>) =
      Inr (upd_channel ?c (\<lambda>ch. ch\<lparr>expecting_intr := True\<rparr>) s\<lparr>hardware := outb_to P (base + 7) CMD_READ_SECTOR d1\<rparr>)"
    using c by (simp add: cmd_out_def upd_channel_def ide_outb_def reg_defs base)
  have wait: "await_disk P ?c (upd_channel ?c (\<lambda>ch. ch\<lparr>expecting_intr := True\<rparr>) s\<lparr>hardware := outb_to P (base + 7) CMD_READ_SECTOR d1\<rparr>) =
      Inr (s\<lparr>hardware := d3\<rparr>)"
    by (rule await_disk_eq [OF q refl _ refl d2(1) d3(1)]) (simp add: base)
  have busy: "busy_wait P yield hdisk (s\<lparr>hardware := d3\<rparr>) = Inr (True, s\<lparr>hardware := d5\<rparr>)"
    using busy_wait_ready [of "s\<lparr>hardware := d3\<rparr>" hdisk base P st4 d4 st5 d5 yield] c base d4 d5 by simp
  have data: "read_from_sector P hdisk mem (512 * k) (of_nat m) (s\<lparr>hardware := d5\<rparr>) =
      Inr (take (512 * k) mem @ ?S @ drop (512 * k + 512 * m) mem, s\<lparr>hardware := d6\<rparr>)"
    using c d6(1) m(4) len sz by (simp add: read_from_sector_def reg_data_def base)
  have my: "my_channel (upd_channel c f t) = my_channel t" for c f and t :: "'a ide" by (simp add: upd_channel_def)
  show ?thesis
    by (rule that [of d6])
      (use d1(1) cmd wait busy data d6 d5 d4 d3 d2 d1 in \<open>simp_all add: read_command_def my\<close>)
qed

section \<open>Transfers of many sectors\<close>

lemma sectors_append: "sectors d lba (a + b) = sectors d lba a @ sectors d (lba + of_nat a) b"
proof (induction a arbitrary: lba)
  case 0
  show ?case by (simp add: sectors_def)
next
  case (Suc a)
  then show ?case by (simp add: sectors_Suc add.assoc)
qed

lemma channel_quiet_hardware [simp]: "channel_quiet hdisk (s\<lparr>hardware := d\<rparr>) = channel_quiet hdisk s"
  by (simp add: channel_quiet_def)

lemma command_lba:
  assumes "\<forall>c \<in> set (commands lba n). c \<le> max_lba" "256 dvd k" "k < n"
  shows "lba + of_nat k \<le> max_lba"
proof -
  obtain j where j: "k = 256 * j" using assms(2) by (rule dvdE)
  then have "256 * j + 255 < n + 255" using assms(3) by simp
  then have "j < (n + 255) div 256" by simp
  then have "lba + of_nat (256 * j) \<in> set (commands lba n)" by (auto simp: commands_def simp del: of_nat_mult)
  then show ?thesis using assms(1) j by blast
qed

lemma next_transfer_facts:
  assumes "k < n" shows "0 < next_transfer k n" "next_transfer k n \<le> 256" "k + next_transfer k n \<le> n"
    and "256 dvd k \<Longrightarrow> k + next_transfer k n < n \<Longrightarrow> 256 dvd k + next_transfer k n"
  using assms by (auto simp: next_transfer_def split: if_splits)

lemma read_commands_eq:
  assumes law: "obeys_ata P V base (0x2E + of_nat (my_channel s hdisk))" and base: "base = base_of hdisk s"
    and D: "D = sector_of V (hardware s) base (dev_no s hdisk = 1)" "disk_ok D"
    and lba: "\<forall>c \<in> set (commands lba n). c \<le> max_lba"
    and q: "channel_quiet hdisk s" "idle V (hardware s) base"
    and k: "k \<le> n" "k < n \<Longrightarrow> 256 dvd k" "512 * n \<le> length mem"
  shows "\<exists>d'. read_commands P yield hdisk lba mem k n s =
      Inr (take (512 * k) mem @ sectors D (lba + of_nat k) (n - k) @ drop (512 * n) mem, s\<lparr>hardware := d'\<rparr>) \<and>
    idle V d' base \<and> sector_of V d' = sector_of V (hardware s)"
  using assms
proof (induction "n - k" arbitrary: k mem s rule: less_induct)
  case less
  note law = less.prems(1) and base = less.prems(2) and D = less.prems(3,4) and q = less.prems(6,7) and k = less.prems(8-10)
  show ?case
  proof (cases "k < n")
    case False
    then have "k = n" using k(1) by simp
    then show ?thesis using q k by (intro exI [of _ "hardware s"]) (simp add: read_commands.simps sectors_def)
  next
    case True
    define m where "m = next_transfer k n"
    have m: "0 < m" "m \<le> 256" "k + m \<le> n" "k + m < n \<Longrightarrow> 256 dvd k + m"
      using next_transfer_facts [OF True] k(2) [OF True] unfolding m_def by blast+
    have room: "512 * k + 512 * m \<le> length mem" using m(3) k(3) by linarith
    define mem' where "mem' = take (512 * k) mem @ sectors D (lba + of_nat k) m @ drop (512 * k + 512 * m) mem"
    obtain d where d: "read_command P yield hdisk lba mem k m s = Inr (mem', s\<lparr>hardware := d\<rparr>)" "idle V d base"
      "sector_of V d = sector_of V (hardware s)"
      unfolding mem'_def
      using read_command_eq [OF law base q D m(1,2) command_lba [OF less.prems(5) k(2) [OF True] True] room, of yield] by metis
    have len: "length mem' = length mem" "length (sectors D (lba + of_nat k) m) = 512 * m"
      using room D(2) by (simp_all add: mem'_def)
    have cut: "take (512 * (k + m)) mem' = take (512 * k) mem @ sectors D (lba + of_nat k) m"
      "drop (512 * n) mem' = drop (512 * n) mem"
      using len room m(3) k(3) by (simp_all add: mem'_def)
    have "\<exists>d'. read_commands P yield hdisk lba mem' (k + m) n (s\<lparr>hardware := d\<rparr>) =
        Inr (take (512 * (k + m)) mem' @ sectors D (lba + of_nat (k + m)) (n - (k + m)) @ drop (512 * n) mem',
          (s\<lparr>hardware := d\<rparr>)\<lparr>hardware := d'\<rparr>) \<and>
      idle V d' base \<and> sector_of V d' = sector_of V (hardware (s\<lparr>hardware := d\<rparr>))"
      by (rule less.hyps) (use law base D less.prems(5) q d m True k len in auto)
    then obtain d' where d': "read_commands P yield hdisk lba mem' (k + m) n (s\<lparr>hardware := d\<rparr>) =
        Inr (take (512 * (k + m)) mem' @ sectors D (lba + of_nat (k + m)) (n - (k + m)) @ drop (512 * n) mem', s\<lparr>hardware := d'\<rparr>)"
      "idle V d' base" "sector_of V d' = sector_of V (hardware s)" using d(3) by auto
    have "sectors D (lba + of_nat k) (n - k) = sectors D (lba + of_nat k) m @ sectors D (lba + of_nat (k + m)) (n - (k + m))"
      using sectors_append [of D "lba + of_nat k" m "n - (k + m)"] m(3) by (simp add: add.assoc)
    then have "read_commands P yield hdisk lba mem k n s =
      Inr (take (512 * k) mem @ sectors D (lba + of_nat k) (n - k) @ drop (512 * n) mem, s\<lparr>hardware := d'\<rparr>)"
      using True d(1) d'(1) cut by (subst read_commands.simps) (simp add: m_def [symmetric] Let_def)
    then show ?thesis using d' by blast
  qed
qed

text \<open>The channel of a disk is free for a new transfer.\<close>

definition channel_free :: "addr \<Rightarrow> 'd ide \<Rightarrow> bool" where
  "channel_free hdisk s \<longleftrightarrow> channel_quiet hdisk s \<and> mutex_free (channel_mutex (channels s ! my_channel s hdisk)) \<and> cur s \<noteq> NULL"

definition held_by :: "addr \<Rightarrow> mutex" where
  "held_by t = \<lparr>holder = t, mutex_sema = \<lparr>sema_value = 0, waiters = []\<rparr>, holder_repeat_nr = 1\<rparr>"

lemma channel_bracket:
  assumes "channel_free hdisk s" "c = my_channel s hdisk" "t = upd_channel c (\<lambda>ch. ch\<lparr>channel_mutex := held_by (cur s)\<rparr>) s"
  shows "channel_acquire c s = Inr t" "channel_quiet hdisk t" "base_of hdisk t = base_of hdisk s" "dev_no t = dev_no s"
    "my_channel t = my_channel s" "hardware t = hardware s" "cur t = cur s"
    and "channel_release c (t\<lparr>hardware := d\<rparr>) = Inr (s\<lparr>hardware := d\<rparr>)"
proof -
  have f: "c < length (channels s)" "mutex_free (channel_mutex (channels s ! c))" "cur s \<noteq> NULL" "channel_quiet hdisk s"
    using assms(1,2) by (simp_all add: channel_free_def channel_quiet_def)
  show "channel_acquire c s = Inr t"
    using f by (simp add: channel_acquire_def mutex_acquire_free assms(3) held_by_def)
  show "channel_quiet hdisk t" using f(1,4) by (simp add: channel_quiet_def assms(2,3) upd_channel_def)
  show "base_of hdisk t = base_of hdisk s" "dev_no t = dev_no s" "my_channel t = my_channel s" "hardware t = hardware s" "cur t = cur s"
    using f(1) by (simp_all add: assms(2,3) upd_channel_def)
  have "(channels s ! c)\<lparr>channel_mutex := mutex_init\<rparr> = channels s ! c"
    using f(2) by (cases "channels s ! c") (simp add: mutex_free_def)
  then show "channel_release c (t\<lparr>hardware := d\<rparr>) = Inr (s\<lparr>hardware := d\<rparr>)"
    using f(1) by (simp add: channel_release_def mutex_release_held assms(3) upd_channel_def held_by_def)
qed

lemma select_disk_eq:
  assumes "registers_kept P V base" "base = base_of hdisk s" "my_channel s hdisk < length (channels s)" "idle V (hardware s) base"
  shows "\<exists>d. select_disk P hdisk s = Inr (s\<lparr>hardware := d\<rparr>) \<and> idle V d base \<and> sector_of V d = sector_of V (hardware s)"
proof -
  have "idle V (outb_to P (base + 6) x (hardware s)) base \<and> sector_of V (outb_to P (base + 6) x (hardware s)) = sector_of V (hardware s)" for x
    using assms(1) [unfolded registers_kept_def, rule_format, of "hardware s" 6 x] assms(4) by simp
  then show ?thesis using assms(2,3) by (simp add: select_disk_def ide_outb_def reg_dev_def Let_def) blast
qed


section \<open>Writing\<close>

text \<open>A sleep comes to an end; to the driver it changes the clock only.\<close>

definition sleeps_return :: "('d ide \<Rightarrow> 'd ide) \<Rightarrow> bool" where
  "sleeps_return yield \<longleftrightarrow> (\<forall>s. \<exists>t. mtime_sleep yield 10 s = Inr (Some (s\<lparr>ticks := t\<rparr>)))"

lemma put_sectors_append:
  "put_sectors l bytes (a + b) D = put_sectors (l + of_nat a) (drop (512 * a) bytes) b (put_sectors l (take (512 * a) bytes) a D)"
proof (induction a arbitrary: l bytes D)
  case (Suc a)
  have "take 512 (take (512 * Suc a) bytes) = take 512 bytes" "drop 512 (take (512 * Suc a) bytes) = take (512 * a) (drop 512 bytes)"
    "drop (512 * Suc a) bytes = drop (512 * a) (drop 512 bytes)" by (simp_all add: drop_take min_def add.commute)
  note cut = this
  have "put_sectors l bytes (Suc a + b) D = put_sectors (l + 1) (drop 512 bytes) (a + b) (D(l := take 512 bytes))" by simp
  also have "\<dots> = put_sectors (l + 1 + of_nat a) (drop (512 * a) (drop 512 bytes)) b
      (put_sectors (l + 1) (take (512 * a) (drop 512 bytes)) a (D(l := take 512 bytes)))" by (rule Suc.IH)
  also have "\<dots> = put_sectors (l + of_nat (Suc a)) (drop (512 * Suc a) bytes) b (put_sectors l (take (512 * Suc a) bytes) (Suc a) D)"
    unfolding put_sectors.simps cut by (simp only: of_nat_Suc add.assoc)
  finally show ?case .
qed simp

lemma clock_swap:
  fixes s :: "'d ide"
  shows "s\<lparr>hardware := d, ticks := t\<rparr> = s\<lparr>ticks := t, hardware := d\<rparr>"
    "s\<lparr>channels := c, ticks := t\<rparr> = s\<lparr>ticks := t, channels := c\<rparr>"
  by (cases s, simp)+

lemma acceptsD:
  assumes "accepts P V base v" "wants V d base k slave lba n"
  obtains st d' where "inb_from P (base + 7) d = (st, d')" "(st AND BIT_STAT_BSY = 0) = (k = 0)" "k = 0 \<Longrightarrow> st AND BIT_STAT_DRQ \<noteq> 0"
    "wants V d' base (k - 1) slave lba n" "sector_of V d' = sector_of V d"
  using assms unfolding accepts_def by blast

lemma poll_wants:
  assumes "accepts P V base v" "c < length (channels s)" "base = port_base (channels s ! c)" "sleeps_return yield"
    and "wants V (hardware s) base k slave lba n" "k < rounds"
  shows "\<exists>d t. poll P yield c rounds s = Inr (True, s\<lparr>hardware := d, ticks := t\<rparr>) \<and> wants V d base 0 slave lba n \<and>
    sector_of V d = sector_of V (hardware s)"
  using assms
proof (induction k arbitrary: rounds s)
  case 0
  obtain st1 d1 where d1: "inb_from P (base + 7) (hardware s) = (st1, d1)" "st1 AND BIT_STAT_BSY = 0" "wants V d1 base 0 slave lba n"
    "sector_of V d1 = sector_of V (hardware s)" using acceptsD [OF "0.prems"(1,5)] by (metis diff_0_eq_0)
  obtain st2 d2 where d2: "inb_from P (base + 7) d1 = (st2, d2)" "st2 AND BIT_STAT_DRQ \<noteq> 0" "wants V d2 base 0 slave lba n"
    "sector_of V d2 = sector_of V d1" using acceptsD [OF "0.prems"(1) d1(3)] by (metis diff_0_eq_0)
  obtain r where r: "rounds = Suc r" using "0.prems"(6) by (cases rounds) auto
  have "s\<lparr>hardware := d2\<rparr> = s\<lparr>hardware := d2, ticks := ticks s\<rparr>" by simp
  then have "poll P yield c rounds s = Inr (True, s\<lparr>hardware := d2, ticks := ticks s\<rparr>)"
    using "0.prems"(2,3) d1 d2 by (simp add: r ide_inb_def reg_defs)
  then show ?case using d1 d2 by (intro exI [of _ d2] exI [of _ "ticks s"]) simp
next
  case (Suc k)
  obtain st1 d1 where d1: "inb_from P (base + 7) (hardware s) = (st1, d1)" "st1 AND BIT_STAT_BSY \<noteq> 0" "wants V d1 base k slave lba n"
    "sector_of V d1 = sector_of V (hardware s)" using acceptsD [OF Suc.prems(1,5)] by (metis diff_Suc_1 nat.distinct(1))
  obtain t where t: "mtime_sleep yield 10 (s\<lparr>hardware := d1\<rparr>) = Inr (Some (s\<lparr>hardware := d1, ticks := t\<rparr>))"
    using Suc.prems(4) unfolding sleeps_return_def by meson
  obtain r where r: "rounds = Suc r" using Suc.prems(6) by (cases rounds) auto
  obtain d' t' where p: "poll P yield c r (s\<lparr>hardware := d1, ticks := t\<rparr>) = Inr (True, s\<lparr>hardware := d1, ticks := t\<rparr>\<lparr>hardware := d', ticks := t'\<rparr>)"
    "wants V d' base 0 slave lba n" "sector_of V d' = sector_of V d1"
    using Suc.IH [of "s\<lparr>hardware := d1, ticks := t\<rparr>" r] Suc.prems d1(3) r by auto
  have "poll P yield c rounds s = Inr (True, s\<lparr>hardware := d', ticks := t'\<rparr>)"
    using Suc.prems(2,3) d1(1,2) t p(1) by (simp add: r ide_inb_def reg_defs)
  then show ?case using p d1 by auto
qed

lemma write_command_eq:
  assumes law: "obeys_ata P V base (0x2E + of_nat (my_channel s hdisk))" and base: "base = base_of hdisk s"
    and q: "channel_quiet hdisk s" and d: "idle V (hardware s) base" and slp: "sleeps_return yield"
    and m: "0 < m" "m \<le> 256" "lba + of_nat k \<le> max_lba" "512 * k + 512 * m \<le> length mem"
    and slave: "slave = (dev_no s hdisk = 1)"
  obtains d' t where "write_command P yield hdisk lba mem k m s = Inr (s\<lparr>hardware := d', ticks := t\<rparr>)" "idle V d' base"
    "sector_of V d' = (sector_of V (hardware s))(base := (sector_of V (hardware s) base)
       (slave := put_sectors (lba + of_nat k) (take (512 * m) (drop (512 * k) mem)) m (sector_of V (hardware s) base slave)))"
proof -
  let ?c = "my_channel s hdisk" and ?bytes = "take (512 * m) (drop (512 * k) mem)"
  have c: "?c < length (channels s)" using q by (simp add: channel_quiet_def)
  note laws = law [unfolded obeys_ata_def]
  obtain d1 where d1: "select_sector P hdisk (lba + of_nat k) (of_nat m) s = Inr (s\<lparr>hardware := d1\<rparr>)" "idle V d1 base"
    "sector_of V d1 = sector_of V (hardware s)" "task_file V d1 base 2 = of_nat m"
    "task_lba (task_file V d1 base) = lba + of_nat k" "task_file V d1 base 6 = (if dev_no s hdisk = 1 then 0xF0 else 0xE0)"
    using select_sector_eq [OF conjunct1 [OF laws] base c d m(3), of "of_nat m"] by metis
  have cnt: "task_count (task_file V d1 base) = m"
    using m(1,2) d1(4) count_byte [OF m(1,2)] by (auto simp: task_count_def)
  have dv: "task_file V d1 base 6 AND BIT_DEV_LBA \<noteq> 0" "(task_file V d1 base 6 AND BIT_DEV_DEV \<noteq> 0) = slave"
    by (auto simp: d1(6) slave BIT_DEV_LBA_def BIT_DEV_DEV_def)
  define d2 where "d2 = outb_to P (base + 7) CMD_WRITE_SECTOR d1"
  have "writes_sectors P V base (0x2E + of_nat ?c)" using laws by blast
  from this [unfolded writes_sectors_def Let_def, rule_format, OF conjI, OF d1(2) dv(1)]
  obtain j where d2: "sector_of V d2 = sector_of V d1" "j < 29999" "wants V d2 base j slave (lba + of_nat k) m"
    unfolding dv(2) d1(3,5) cnt d2_def by blast
  let ?s2 = "upd_channel ?c (\<lambda>ch. ch\<lparr>expecting_intr := True\<rparr>) s\<lparr>hardware := d2\<rparr>"
  have cmd: "cmd_out P ?c CMD_WRITE_SECTOR (s\<lparr>hardware := d1\<rparr>) = Inr ?s2"
    using c by (simp add: cmd_out_def upd_channel_def ide_outb_def reg_defs base d2_def)
  have acc: "accepts P V base (0x2E + of_nat ?c)" using laws by blast
  have s2: "?c < length (channels ?s2)" "base = port_base (channels ?s2 ! ?c)" "hardware ?s2 = d2" "my_channel ?s2 = my_channel s"
    using c base by (simp_all add: upd_channel_def)
  obtain d3 t where d3: "poll P yield ?c 29999 ?s2 = Inr (True, ?s2\<lparr>hardware := d3, ticks := t\<rparr>)"
    "wants V d3 base 0 slave (lba + of_nat k) m" "sector_of V d3 = sector_of V d2"
    using poll_wants [OF acc s2(1,2) slp, unfolded s2(3), OF d2(3,2)] by blast
  have busy: "busy_wait P yield hdisk ?s2 = Inr (True, ?s2\<lparr>hardware := d3, ticks := t\<rparr>)"
    unfolding busy_wait_def s2(4) by (rule d3(1))
  have len: "length ?bytes = 512 * m" using m(4) by simp
  obtain d4 where d4: "next_irq P (outsw_to P base ?bytes d3) = Some (0x2E + of_nat ?c, d4)" "idle V d4 base"
    "sector_of V d4 = (sector_of V d3)(base := (sector_of V d3 base)(slave := put_sectors (lba + of_nat k) ?bytes m (sector_of V d3 base slave)))"
    using acc d3(2) len unfolding accepts_def by blast
  have sz: "size_in_byte (of_nat m) = 512 * m" using m(1,2) count_byte [OF m(1,2)] by (auto simp: size_in_byte_def)
  have data: "write_to_sector P hdisk mem (512 * k) (of_nat m) (?s2\<lparr>hardware := d3, ticks := t\<rparr>) =
      Inr (?s2\<lparr>hardware := outsw_to P base ?bytes d3, ticks := t\<rparr>)"
    using s2(1) m(4) by (simp add: write_to_sector_def reg_data_def s2(4) [simplified] sz Let_def s2(2) [simplified, symmetric])
  obtain st d5 where d5: "inb_from P (base + 7) d4 = (st, d5)" "idle V d5 base" "sector_of V d5 = sector_of V d4"
    using laws d4(2) unfolding status_quiet_def by blast
  have "await_disk P ?c (upd_channel ?c (\<lambda>ch. ch\<lparr>expecting_intr := True\<rparr>) (s\<lparr>ticks := t\<rparr>)\<lparr>hardware := outsw_to P base ?bytes d3\<rparr>) =
      Inr (s\<lparr>ticks := t\<rparr>\<lparr>hardware := d5\<rparr>)"
    by (rule await_disk_eq [OF _ _ _ refl d4(1) d5(1)]) (use q base in \<open>simp_all add: channel_quiet_def\<close>)
  then have wait: "await_disk P ?c (?s2\<lparr>hardware := outsw_to P base ?bytes d3, ticks := t\<rparr>) = Inr (s\<lparr>hardware := d5, ticks := t\<rparr>)"
    by (simp add: upd_channel_def clock_swap)
  show ?thesis
    by (rule that [of t d5])
      (use d1(1,3) cmd busy data wait s2(4) d5 d4 d3 d2 in \<open>simp_all add: write_command_def\<close>)
qed

lemma write_commands_eq:
  assumes law: "obeys_ata P V base (0x2E + of_nat (my_channel s hdisk))" and base: "base = base_of hdisk s"
    and lba: "\<forall>c \<in> set (commands lba n). c \<le> max_lba" and slp: "sleeps_return yield" and slave: "slave = (dev_no s hdisk = 1)"
    and q: "channel_quiet hdisk s" "idle V (hardware s) base"
    and k: "k \<le> n" "k < n \<Longrightarrow> 256 dvd k" "512 * n \<le> length mem"
  shows "\<exists>d' t. write_commands P yield hdisk lba mem k n s = Inr (s\<lparr>hardware := d', ticks := t\<rparr>) \<and> idle V d' base \<and>
    sector_of V d' = (sector_of V (hardware s))(base := (sector_of V (hardware s) base)
       (slave := put_sectors (lba + of_nat k) (drop (512 * k) mem) (n - k) (sector_of V (hardware s) base slave)))"
  using assms
proof (induction "n - k" arbitrary: k s rule: less_induct)
  case less
  note law = less.prems(1) and base = less.prems(2) and slave = less.prems(5) and q = less.prems(6,7) and k = less.prems(8-10)
  show ?case
  proof (cases "k < n")
    case False
    then have "k = n" using k(1) by simp
    then show ?thesis using q k by (intro exI [of _ "hardware s"] exI [of _ "ticks s"]) (simp add: write_commands.simps)
  next
    case True
    define m where "m = next_transfer k n"
    have m: "0 < m" "m \<le> 256" "k + m \<le> n" "k + m < n \<Longrightarrow> 256 dvd k + m"
      using next_transfer_facts [OF True] k(2) [OF True] unfolding m_def by blast+
    have room: "512 * k + 512 * m \<le> length mem" using m(3) k(3) by linarith
    let ?S = "sector_of V (hardware s)" and ?B = "drop (512 * k) mem"
    obtain d t where d: "write_command P yield hdisk lba mem k m s = Inr (s\<lparr>hardware := d, ticks := t\<rparr>)" "idle V d base"
      "sector_of V d = ?S(base := (?S base)(slave := put_sectors (lba + of_nat k) (take (512 * m) ?B) m (?S base slave)))"
      using write_command_eq [OF law base q slp m(1,2) command_lba [OF less.prems(3) k(2) [OF True] True] room slave] by metis
    let ?t = "s\<lparr>hardware := d, ticks := t\<rparr>"
    have "\<exists>d' t'. write_commands P yield hdisk lba mem (k + m) n ?t = Inr (?t\<lparr>hardware := d', ticks := t'\<rparr>) \<and> idle V d' base \<and>
      sector_of V d' = (sector_of V (hardware ?t))(base := (sector_of V (hardware ?t) base)
       (slave := put_sectors (lba + of_nat (k + m)) (drop (512 * (k + m)) mem) (n - (k + m)) (sector_of V (hardware ?t) base slave)))"
      by (rule less.hyps) (use law base less.prems(3,4) slave q d m True k in \<open>auto simp: channel_quiet_def\<close>)
    then obtain d' t' where d': "write_commands P yield hdisk lba mem (k + m) n ?t = Inr (s\<lparr>hardware := d', ticks := t'\<rparr>)" "idle V d' base"
      "sector_of V d' = (sector_of V d)(base := (sector_of V d base)
       (slave := put_sectors (lba + of_nat (k + m)) (drop (512 * (k + m)) mem) (n - (k + m)) (sector_of V d base slave)))" by auto
    have "put_sectors (lba + of_nat k) ?B (n - k) D = put_sectors (lba + of_nat (k + m)) (drop (512 * (k + m)) mem) (n - (k + m))
        (put_sectors (lba + of_nat k) (take (512 * m) ?B) m D)" for D
      using put_sectors_append [of "lba + of_nat k" ?B m "n - (k + m)" D] m(3) by (simp add: ac_simps)
    then have "sector_of V d' = ?S(base := (?S base)(slave := put_sectors (lba + of_nat k) ?B (n - k) (?S base slave)))"
      unfolding d'(3) d(3) by simp
    moreover have "write_commands P yield hdisk lba mem k n s = Inr (s\<lparr>hardware := d', ticks := t'\<rparr>)"
      using True d(1) d'(1) by (subst write_commands.simps) (simp add: m_def [symmetric] Let_def)
    ultimately show ?thesis using d'(2) by blast
  qed
qed


section \<open>A controller that behaves as documented\<close>

text \<open>The second channel with its two disks; it is busy once before it accepts data.\<close>

datatype stage = At_rest | Data_in "u8 list" | Data_out nat bool u32 nat

record ata =
  regs :: "nat \<Rightarrow> u8"
  stage_of :: stage
  media :: "bool \<Rightarrow> u32 \<Rightarrow> u8 list"
  irq :: bool

definition ata_outb :: "u16 \<Rightarrow> u8 \<Rightarrow> ata \<Rightarrow> ata" where
  "ata_outb port x d =
     (let f = regs d; slave = (f 6 AND BIT_DEV_DEV \<noteq> 0); i = unat (port - 0x170) in
      if i = 7 then
        if x = CMD_READ_SECTOR then
          d\<lparr>stage_of := Data_in (sectors (media d slave) (task_lba f) (task_count f)), irq := True\<rparr>
        else d\<lparr>stage_of := Data_out 1 slave (task_lba f) (task_count f), irq := False\<rparr>
      else d\<lparr>regs := f(i := x)\<rparr>)"

definition ata_inb :: "u16 \<Rightarrow> ata \<Rightarrow> u8 \<times> ata" where
  "ata_inb port d =
     (case stage_of d of
        Data_out (Suc k) slave lba n \<Rightarrow> (BIT_STAT_BSY, d\<lparr>stage_of := Data_out k slave lba n\<rparr>)
      | _ \<Rightarrow> (BIT_STAT_DRQ, d))"

definition ata_insw :: "u16 \<Rightarrow> nat \<Rightarrow> ata \<Rightarrow> u8 list \<times> ata" where
  "ata_insw port n d =
     (case stage_of d of Data_in bytes \<Rightarrow> (bytes, d\<lparr>stage_of := At_rest\<rparr>) | _ \<Rightarrow> (replicate (2 * n) 0, d))"

definition ata_outsw :: "u16 \<Rightarrow> u8 list \<Rightarrow> ata \<Rightarrow> ata" where
  "ata_outsw port bytes d =
     (case stage_of d of
        Data_out 0 slave lba n \<Rightarrow>
          d\<lparr>stage_of := At_rest, irq := True, media := (media d)(slave := put_sectors lba bytes n (media d slave))\<rparr>
      | _ \<Rightarrow> d)"

definition ata_irq :: "ata \<Rightarrow> (u8 \<times> ata) option" where
  "ata_irq d = (if irq d then Some (0x2F, d\<lparr>irq := False\<rparr>) else None)"

definition ata_ports :: "ata ports" where
  "ata_ports = \<lparr>outb_to = ata_outb, inb_from = ata_inb, insw_from = ata_insw, outsw_to = ata_outsw, next_irq = ata_irq\<rparr>"

definition ata_drive :: "ata drive" where
  "ata_drive = \<lparr>sector_of = (\<lambda>d base slave lba. if base = 0x170 then media d slave lba else []),
     idle = (\<lambda>d base. stage_of d = At_rest), task_file = (\<lambda>d base. regs d),
     offers = (\<lambda>d base bytes. stage_of d = Data_in bytes),
     wants = (\<lambda>d base k slave lba n. stage_of d = Data_out k slave lba n)\<rparr>"

lemma ata_obeys: "obeys_ata ata_ports ata_drive 0x170 0x2F"
proof -
  have [simp]: "(CMD_WRITE_SECTOR = CMD_READ_SECTOR) = False" by (simp add: CMD_WRITE_SECTOR_def CMD_READ_SECTOR_def)
  have reg: "unat (of_nat i :: u16) = i" if "i \<le> 6" for i using that by (simp add: unat_of_nat)
  have st: "BIT_STAT_BSY \<noteq> 0" "BIT_STAT_DRQ AND BIT_STAT_BSY = 0" "BIT_STAT_DRQ \<noteq> 0"
    by (simp_all add: BIT_STAT_BSY_def BIT_STAT_DRQ_def)
  note d = ata_ports_def ata_drive_def ata_outb_def ata_inb_def ata_insw_def ata_outsw_def ata_irq_def Let_def
  have "registers_kept ata_ports ata_drive 0x170"
    unfolding registers_kept_def by (auto simp: d reg fun_eq_iff)
  moreover have "reads_sectors ata_ports ata_drive 0x170 0x2F"
    unfolding reads_sectors_def by (simp add: d fun_eq_iff sectors_def)
  moreover have "delivers ata_ports ata_drive 0x170"
    unfolding delivers_def by (auto simp: d st fun_eq_iff)
  moreover have "writes_sectors ata_ports ata_drive 0x170 0x2F"
    unfolding writes_sectors_def by (auto simp: d fun_eq_iff intro!: exI [of _ 1])
  moreover have "accepts ata_ports ata_drive 0x170 0x2F"
    unfolding accepts_def by (auto simp: d st fun_eq_iff split: nat.split)
  moreover have "status_quiet ata_ports ata_drive 0x170"
    unfolding status_quiet_def by (simp add: d)
  ultimately show ?thesis by (simp add: obeys_ata_def)
qed

definition disk_media :: "bool \<Rightarrow> u32 \<Rightarrow> u8 list" where
  "disk_media slave lba = replicate 512 (if slave then ucast lba else 0)"

text \<open>The disk at address 7 is the second one of that channel.\<close>

definition sample_ide :: "ata ide" where
  "sample_ide = fs.extend (tiny_fs\<lparr>disk := (\<lambda>_. disk_media True)\<rparr>)
     (ide.fields
       (replicate 8 \<lparr>channel_name = lit ''ide1'', port_base = 0x170, vec_no = 0x2F, channel_mutex = mutex_init,
          expecting_intr = False, disk_done = sema_init 0\<rparr>)
       (\<lambda>_. 1) (\<lambda>_. 1) \<lparr>idt_table = [], intr_name = []\<rparr>
       \<lparr>regs = (\<lambda>_. 0), stage_of = At_rest, media = disk_media, irq = False\<rparr>)"

lemma sample_ide_simps [simp]:
  "my_channel sample_ide = (\<lambda>_. 1)" "dev_no sample_ide = (\<lambda>_. 1)" "disk sample_ide = (\<lambda>_. disk_media True)"
  "port_base (channels sample_ide ! Suc 0) = 0x170" "cur sample_ide = 1" "ticks sample_ide = 0"
  "hardware sample_ide = \<lparr>regs = (\<lambda>_. 0), stage_of = At_rest, media = disk_media, irq = False\<rparr>"
  by (simp_all add: sample_ide_def ide.defs fs.defs tiny_fs_def terminal.defs threads.defs boot_threads_def heap.defs
      one_arena_def vm.defs one_page_vm_def boot_vm_def)

lemma sample_ide_ready:
  "channel_free 7 sample_ide" "idle ata_drive (hardware sample_ide) 0x170" "disk_ok (disk_media b)"
  "sector_of ata_drive (hardware sample_ide) 0x170 b = disk_media b"
  by (auto simp: channel_free_def channel_quiet_def sample_ide_def ide.defs fs.defs mutex_free_def ata_drive_def
      disk_ok_def disk_media_def tiny_fs_def terminal.defs threads.defs boot_threads_def heap.defs one_arena_def
      vm.defs one_page_vm_def boot_vm_def)


text \<open>Every yield lets one tick pass.\<close>

definition tick_by_tick :: "ata ide \<Rightarrow> ata ide" where "tick_by_tick s = s\<lparr>ticks := ticks s + 1\<rparr>"

lemma tick_by_tick_returns: "sleeps_return tick_by_tick"
proof -
  have "\<exists>t. sleep_loop tick_by_tick start n s = Some (s\<lparr>ticks := t\<rparr>)" for start n s
  proof (induction "unat n - unat (ticks s - start)" arbitrary: s rule: less_induct)
    case less
    define x where "x = ticks s - start"
    show ?case
    proof (cases "x < n")
      case False
      then show ?thesis by (subst sleep_loop.simps) (auto simp: x_def intro!: exI [of _ "ticks s"])
    next
      case True
      then have "unat (x + 1) = unat x + 1" using unsigned_less [of n, where ?'a = nat] by (simp add: unat_word_ariths word_less_nat_alt)
      moreover have "ticks (tick_by_tick s) - start = x + 1" by (simp add: tick_by_tick_def x_def)
      ultimately have "unat n - unat (ticks (tick_by_tick s) - start) < unat n - unat (ticks s - start)"
        using True unfolding x_def [symmetric] by (simp add: word_less_nat_alt)
      from less [OF this] obtain t where "sleep_loop tick_by_tick start n (tick_by_tick s) = Some (tick_by_tick s\<lparr>ticks := t\<rparr>)" by blast
      then show ?thesis using True by (subst sleep_loop.simps) (auto simp: x_def tick_by_tick_def)
    qed
  qed
  then show ?thesis by (simp add: sleeps_return_def mtime_sleep_def ticks_to_sleep_def DIV_CEILING_def)
qed


end
