(* ===== verification/Path_Search.thy ===== *)
theory Path_Search
  imports File_Ops
begin

text \<open>
  Walking paths (\<open>fs/fs.c\<close>): \<open>search_file\<close> goes down a path one directory at a time;
  \<open>get_parent_dir_inode_nr\<close>, \<open>get_child_dir_name\<close> and \<open>sys_getcwd\<close> go up from the working
  directory to the root.
\<close>

section \<open>Going down\<close>

record path_search_record =
  searched_path :: "u8 list"
  parent_dir :: addr
  file_type :: u32

definition next_component :: "u8 list option \<Rightarrow> u8 list \<Rightarrow> (u8 list option \<times> u8 list) res" where
  "next_component sub_path nm =
     bindE (memset (Some nm) 0 MAX_FILE_NAME_LEN) (\<lambda>nm.
     case sub_path of None \<Rightarrow> Inr (None, nm) | Some q \<Rightarrow> path_parse q nm)"

lemma next_component_measure:
  assumes "read_at nm 0 = Inr c" "c \<noteq> 0" "next_component sub_path nm = Inr (sub_path', nm')"
  shows "depth_measure sub_path' nm' < depth_measure sub_path nm"
proof (cases sub_path)
  case None
  have "nm \<noteq> []" "hd nm \<noteq> 0" using assms(1,2) by (auto simp: return_iff hd_conv_nth)
  moreover have "sub_path' = None" "memset (Some nm) 0 MAX_FILE_NAME_LEN = Inr nm'"
    using assms(3) None by (auto simp: next_component_def return_iff split: if_splits)
  ultimately show ?thesis using depth_measure_None None by simp
next
  case (Some q)
  then obtain x where "path_parse q x = Inr (sub_path', nm')"
    using assms(3) by (auto simp: next_component_def return_iff split: if_splits)
  then show ?thesis using Some depth_measure_Some by simp
qed

text \<open>
  The loop: \<open>Inr (Some ...)\<close> carries the result of a \<open>return\<close> from within, \<open>None\<close> that the path is
  used up. \<open>parent\<close> is both \<open>parent_dir\<close> and the one in the record. One step is a function of its own.
\<close>

datatype search_step =
    Found_file "u8 list"
  | Missing
  | Go_on "u8 list" addr u32

definition enter_dir ::
  "u8 list \<Rightarrow> addr \<Rightarrow> 'a fs_scheme \<Rightarrow> (addr \<times> u32 \<times> 'a fs_scheme) res" where
  "enter_dir dir_e parent s =
     bindE (dir_at parent s) (\<lambda>dir.
     bindE (inode_at (dir_inode dir) s) (\<lambda>i.
     bindE (dir_close parent s) (\<lambda>s.
     bindE (dir_open (current_partition s) (de_i_no (dir_entry_of dir_e)) s) (\<lambda>(d, s).
       Inr (d, i_no i, s)))))"

function search_loop ::
  "u8 list option \<Rightarrow> u8 list \<Rightarrow> addr \<Rightarrow> u32 \<Rightarrow> u8 list \<Rightarrow> u8 list \<Rightarrow> 'a fs_scheme \<Rightarrow>
   (u32 \<times> path_search_record \<times> 'a fs_scheme) res" where
  "search_loop sub_path nm parent parent_no path dir_e s =
     bindE (read_at nm 0) (\<lambda>c.
     if c = 0 then
       bindE (dir_close parent s) (\<lambda>s.
       bindE (dir_open (current_partition s) parent_no s) (\<lambda>(d, s).
         Inr (de_i_no (dir_entry_of dir_e),
              \<lparr>searched_path = path, parent_dir = d, file_type = FT_DIRECTORY\<rparr>, s)))
     else
       bindE (strlen (Some path)) (\<lambda>n.
       asserting (n < MAX_PATH_LEN)
       (bindE (strcat (Some path) (Some (lit ''/''))) (\<lambda>path.
        bindE (strcat (Some path) (Some nm)) (\<lambda>path.
        bindE (search_dir_entry (current_partition s) parent nm dir_e s) (\<lambda>(found, dir_e, s).
        if \<not> found then
          Inr (- 1, \<lparr>searched_path = path, parent_dir = parent, file_type = FT_UNKNOW\<rparr>, s)
        else
          bindE (next_component sub_path nm) (\<lambda>(sub_path, nm).
          if f_type (dir_entry_of dir_e) = FT_DIRECTORY then
            bindE (enter_dir dir_e parent s) (\<lambda>(d, parent_no, s).
              search_loop sub_path nm d parent_no path dir_e s)
          else if f_type (dir_entry_of dir_e) = FT_REGULAR then
            Inr (de_i_no (dir_entry_of dir_e),
                 \<lparr>searched_path = path, parent_dir = parent, file_type = FT_REGULAR\<rparr>, s)
          else search_loop sub_path nm parent parent_no path dir_e s)))))))"
  by pat_completeness auto
termination
  by (relation "measure (\<lambda>(sub_path, nm, _). depth_measure sub_path nm)")
    (auto dest: next_component_measure)

declare search_loop.simps [simp del]

definition root_path :: "u8 list \<Rightarrow> bool res" where
  "root_path pathname =
     bindE (strcmp (Some pathname) (Some (lit ''/''))) (\<lambda>a.
     if a = 0 then Inr True
     else bindE (strcmp (Some pathname) (Some (lit ''/.''))) (\<lambda>b.
     if b = 0 then Inr True
     else bindE (strcmp (Some pathname) (Some (lit ''/..''))) (\<lambda>c. Inr (c = 0))))"

text \<open>The caller clears the record first; \<open>- 1\<close> if nothing is found.\<close>

definition search_file :: "u8 list \<Rightarrow> 'a fs_scheme \<Rightarrow> (u32 \<times> path_search_record \<times> 'a fs_scheme) res" where
  "search_file pathname s =
     bindE (root_path pathname) (\<lambda>is_root.
     let cleared = replicate MAX_PATH_LEN 0 in
     if is_root then
       Inr (0, \<lparr>searched_path = cleared, parent_dir = root_dir s, file_type = FT_DIRECTORY\<rparr>, s)
     else
       bindE (strlen (Some pathname)) (\<lambda>path_len.
       bindE (read_at pathname 0) (\<lambda>c.
       asserting (c = slash \<and> path_len > 1 \<and> path_len < MAX_PATH_LEN)
       (bindE (path_parse pathname (replicate MAX_FILE_NAME_LEN 0)) (\<lambda>(sub_path, nm).
          search_loop sub_path nm (root_dir s) 0 cleared (uninit 24 s) s)))))"

section \<open>Going up\<close>

definition get_parent_dir_inode_nr :: "u32 \<Rightarrow> u8 list \<Rightarrow> 'a fs_scheme \<Rightarrow> (u32 \<times> u8 list \<times> 'a fs_scheme) res" where
  "get_parent_dir_inode_nr child_inode_no io_buf s =
     (let p = current_partition s in
      bindE (inode_open p child_inode_no s) (\<lambda>(a, s).
      bindE (inode_at a s) (\<lambda>i.
      let block_lba = i_sectors i ! 0 in
      asserting (block_lba \<ge> data_start_lba (sb (partitions s p)))
      (bindE (inode_close a s) (\<lambda>s.
       bindE (ide_read (my_disk (partitions s p)) block_lba io_buf 1 s) (\<lambda>io_buf.
       bindE (entry_at io_buf 1) (\<lambda>de.
       asserting (de_i_no de < 4096 \<and> f_type de = FT_DIRECTORY) (Inr (de_i_no de, io_buf, s)))))))))"

text \<open>The loop over the entries of a block: the index of the child.\<close>

fun find_child_entry :: "u32 \<Rightarrow> u8 list \<Rightarrow> nat \<Rightarrow> nat \<Rightarrow> nat option res" where
  "find_child_entry c_inode_no mem 0 idx = Inr None"
| "find_child_entry c_inode_no mem (Suc n) idx =
     bindE (entry_at mem idx) (\<lambda>de.
       if de_i_no de = c_inode_no then Inr (Some idx) else find_child_entry c_inode_no mem n (Suc idx))"

fun find_child_name ::
  "addr \<Rightarrow> u32 \<Rightarrow> nat \<Rightarrow> u32 list \<Rightarrow> u8 list \<Rightarrow> 'a fs_scheme \<Rightarrow> (u8 list option \<times> u8 list) res" where
  "find_child_name hdisk c_inode_no per_sec [] mem s = Inr (None, mem)"
| "find_child_name hdisk c_inode_no per_sec (lba # rest) mem s =
     (if lba = 0 then find_child_name hdisk c_inode_no per_sec rest mem s
      else
        bindE (ide_read hdisk lba mem 1 s) (\<lambda>mem.
        bindE (find_child_entry c_inode_no mem per_sec 0) (\<lambda>r.
        case r of
          Some k \<Rightarrow> Inr (Some (drop (24 * k) mem), mem)
        | None \<Rightarrow> find_child_name hdisk c_inode_no per_sec rest mem s)))"

text \<open>Whether the name was found, and the path with the name behind it.\<close>

definition get_child_dir_name ::
  "u32 \<Rightarrow> u32 \<Rightarrow> u8 list \<Rightarrow> u8 list \<Rightarrow> 'a fs_scheme \<Rightarrow> (bool \<times> u8 list \<times> u8 list \<times> 'a fs_scheme) res" where
  "get_child_dir_name p_inode_no c_inode_no path io_buf s =
     (let p = current_partition s in
      bindE (inode_open p p_inode_no s) (\<lambda>(a, s).
      bindE (inode_at a s) (\<lambda>i.
      bindE (all_blocks (my_disk (partitions s p)) i s) (\<lambda>blocks.
      bindE (inode_close a s) (\<lambda>s.
      bindE (dir_entry_per_sec (entry_size p s)) (\<lambda>per_sec.
      let block_cnt = (if i_sectors i ! 12 \<noteq> 0 then 140 else 12) in
      bindE (find_child_name (my_disk (partitions s p)) c_inode_no per_sec (take block_cnt blocks) io_buf s)
        (\<lambda>(r, io_buf).
      case r of
        None \<Rightarrow> Inr (False, path, io_buf, s)
      | Some nm \<Rightarrow>
          bindE (strcat (Some path) (Some (lit ''/''))) (\<lambda>path.
          bindE (strcat (Some path) (Some nm)) (\<lambda>path. Inr (True, path, io_buf, s))))))))))"

text \<open>Each round makes the text in the path longer, and there is room for 512 bytes.\<close>

definition path_room :: "u8 list \<Rightarrow> nat" where
  "path_room path = length path - length (text_of path)"

lemma strcat_loop_grows:
  "strcat_loop dst src = Inr dst' \<Longrightarrow>
    terminated dst \<and> length dst' = length dst \<and> length (text_of dst) \<le> length (text_of dst') \<and>
    (src \<noteq> [] \<and> hd src \<noteq> 0 \<longrightarrow> length (text_of dst) < length (text_of dst')) \<and>
    length (text_of dst') < length dst'"
proof (induction dst src arbitrary: dst' rule: strcat_loop.induct)
  case (2 c dst src)
  show ?case
  proof (cases "c = 0")
    case True
    with 2(2) have copy: "strcpy_loop (c # dst) src = Inr dst'" by simp
    have "strcpy_loop des src = Inr d \<Longrightarrow> length d = length des \<and> terminated d" for des src d
      by (induction des src arbitrary: d rule: strcpy_loop.induct) (auto simp: return_iff split: if_splits)
    from this [OF copy] have l: "length dst' = Suc (length dst)" "terminated dst'" by simp_all
    have lt: "length (text_of bs) < length bs" if "terminated bs" for bs
      using that by (induction bs) auto
    have "src \<noteq> [] \<and> hd src \<noteq> 0 \<longrightarrow> text_of dst' \<noteq> []"
      using copy by (cases src) (auto simp: return_iff split: if_splits)
    then show ?thesis using True l lt [of dst'] by simp
  next
    case False
    with 2(2) obtain rest where "strcat_loop dst src = Inr rest" "dst' = c # rest"
      by (auto simp: return_iff)
    then show ?thesis using 2(1) [of rest] False by simp
  qed
qed simp

lemma strcat_grows:
  assumes "strcat (Some path) (Some (lit ''/'')) = Inr path1" "strcat (Some path1) (Some nm) = Inr path2"
  shows "path_room path2 < path_room path"
  using assms strcat_loop_grows [of path "lit ''/''" path1] strcat_loop_grows [of path1 nm path2]
  by (auto simp: strcat_def return_iff path_room_def lit_def)

text \<open>The loop that climbs to the root, collecting the names from the bottom to the top.\<close>

lemma child_name_room:
  assumes "get_child_dir_name pn cn path io_buf s = Inr (True, path', io_buf', s')"
  shows "path_room path' < path_room path"
  using assms strcat_grows
  by (fastforce simp: get_child_dir_name_def return_iff Let_def split: prod.splits option.splits)

function climb ::
  "u32 \<Rightarrow> u8 list \<Rightarrow> u8 list \<Rightarrow> 'a fs_scheme \<Rightarrow> (u8 list option \<times> 'a fs_scheme) res" where
  "climb child path io_buf s =
     (if child = 0 then Inr (Some path, s)
      else
        bindE (get_parent_dir_inode_nr child io_buf s) (\<lambda>(parent, io_buf, s).
        bindE (get_child_dir_name parent child path io_buf s) (\<lambda>(found, path, io_buf, s).
          if \<not> found then Inr (None, s) else climb parent path io_buf s)))"
  by pat_completeness auto
termination
  by (relation "measure (\<lambda>(child, path, _). path_room path)") (auto dest: child_name_room)

declare climb.simps [simp del]

text \<open>The loop that turns the names round: the last one of \<open>rev_path\<close> goes behind \<open>mem\<close>.\<close>

function turn_round :: "u8 list \<Rightarrow> u8 list \<Rightarrow> u8 list res" where
  "turn_round rev_path mem =
     bindE (strrchr (Some rev_path) slash) (\<lambda>last_slash.
     case last_slash of
       None \<Rightarrow> Inr mem
     | Some k \<Rightarrow>
         if length rev_path \<le> k \<or> length (text_of rev_path) \<le> k then Inl Bad_access
         else
           bindE (strlen (Some mem)) (\<lambda>n.
           bindE (strcpy (Some (drop n mem)) (Some (drop k rev_path))) (\<lambda>rest.
             turn_round (rev_path[k := 0]) (take n mem @ rest))))"
  by pat_completeness auto
termination
proof (relation "measure (\<lambda>(rev_path, mem). length (text_of rev_path))", goal_cases)
  case (2 rev_path mem r k n rest)
  have "length (text_of (bs[k := 0])) < length (text_of bs)" if "k < length (text_of bs)" for bs
    using that by (induction bs arbitrary: k) (auto split: if_splits nat.split simp: list_update.simps)
  then show ?case using 2 by simp
qed simp

declare turn_round.simps [simp del]

text \<open>\<open>None\<close> stands for \<open>NULL\<close>; \<open>mem\<close> is the caller's buffer of \<open>n\<close> bytes.\<close>

definition sys_getcwd :: "u8 list option \<Rightarrow> u32 \<Rightarrow> 'a fs_scheme \<Rightarrow> (u8 list option \<times> 'a fs_scheme) res" where
  "sys_getcwd mem n s =
     asserting (mem \<noteq> None)
     (case kmalloc SECTOR_SIZE s of (io_addr, io_buf, s) \<Rightarrow>
      if io_addr = NULL then Inr (None, s)
      else
        let child = cwd_inode_no (tcbs s (running_thread s)) in
        asserting (0 <=s child \<and> sint child < 4096)
        (if child = 0 then
           bindE (write_at (the mem) 0 slash) (\<lambda>mem.
           bindE (write_at mem 1 0) (\<lambda>mem. Inr (Some mem, s)))
         else
           bindE (memset mem 0 (unat n)) (\<lambda>mem.
           bindE (climb child (replicate MAX_PATH_LEN 0) io_buf s) (\<lambda>(r, s).
           case r of
             None \<Rightarrow> bindE (kfree io_addr s) (\<lambda>s. Inr (None, s))
           | Some path \<Rightarrow>
               bindE (strlen (Some path)) (\<lambda>len.
               asserting (len < unat n)
               (bindE (turn_round path mem) (\<lambda>mem.
                bindE (kfree io_addr s) (\<lambda>s. Inr (Some mem, s)))))))))"

end
