(* ===== verification/Fs_Calls.thy ===== *)
theory Fs_Calls
  imports Path_Search Fs_Setup
begin

text \<open>
  The system calls of the file system (\<open>fs/fs.c\<close>) and of pipes (\<open>shell/pipe.c\<close>). A descriptor is
  an \<open>int32_t\<close>, given as its value; a path is the bytes from the pointer on. What the program's
  memory holds after a call that writes to it is part of the result.
\<close>

definition PIPE_FLAG :: u32 where "PIPE_FLAG = 0xFFFF"

section \<open>Descriptors\<close>

definition fd_local2global :: "int \<Rightarrow> 'a fs_scheme \<Rightarrow> nat res" where
  "fd_local2global local_fd s =
     (if local_fd < 0 then Inl Bad_access
      else bindE (read_at (fd_table (tcbs s (running_thread s))) (nat local_fd)) (\<lambda>global_fd.
        asserting (0 \<le> global_fd \<and> global_fd < int MAX_FILE_OPEN) (Inr (nat global_fd))))"

definition is_pipe :: "int \<Rightarrow> 'a fs_scheme \<Rightarrow> bool res" where
  "is_pipe local_fd s =
     bindE (fd_local2global local_fd s) (\<lambda>g.
     bindE (read_at (file_table s) g) (\<lambda>fd. Inr (fd_flag fd = PIPE_FLAG)))"

definition sys_fd_redirect :: "nat \<Rightarrow> nat \<Rightarrow> 'a fs_scheme \<Rightarrow> 'a fs_scheme res" where
  "sys_fd_redirect old_local_fd new_local_fd s =
     (let cur = running_thread s; fds = fd_table (tcbs s cur) in
      bindE (if new_local_fd < 3 then Inr (int new_local_fd) else read_at fds new_local_fd) (\<lambda>v.
      bindE (write_at fds old_local_fd v) (\<lambda>fds.
        Inr (upd_tcb cur (\<lambda>t. t\<lparr>fd_table := fds\<rparr>) s))))"

section \<open>Pipes\<close>

text \<open>
  The result, the two descriptors and the state. The page for the ring comes from
  \<open>get_kernel_pages\<close>, cleared. Without a free slot the index is \<open>-1\<close>, which is outside the table.
\<close>

definition sys_pipe :: "'a fs_scheme \<Rightarrow> (int \<times> int list \<times> 'a fs_scheme) res" where
  "sys_pipe s =
     bindE (get_free_slot_in_global s) (\<lambda>global_fd.
     bindE (get_kernel_pages 1 s) (\<lambda>(page, s).
     if global_fd < 0 then Inl Bad_access
     else
       let g = nat global_fd in
       bindE (read_at (file_table s) g) (\<lambda>fd.
       bindE (set_fd g (fd\<lparr>fd_inode := page\<rparr>) s) (\<lambda>s.
       if page = NULL then Inr (- 1, [], s)
       else
         let s = s\<lparr>pipes := (pipes s)(page \<mapsto> ioqueue_init (replicate bufsize 0))\<rparr> in
         bindE (set_fd g \<lparr>fd_pos = 2, fd_flag = PIPE_FLAG, fd_inode = page\<rparr> s) (\<lambda>s.
         bindE (pcb_fd_install global_fd s) (\<lambda>(r, s).
         bindE (pcb_fd_install global_fd s) (\<lambda>(w, s). Inr (0, [r, w], s))))))))"

definition pipe_of :: "int \<Rightarrow> 'a fs_scheme \<Rightarrow> (addr \<times> ioqueue) res" where
  "pipe_of local_fd s =
     bindE (fd_local2global local_fd s) (\<lambda>g.
     bindE (read_at (file_table s) g) (\<lambda>fd.
     case pipes s (fd_inode fd) of None \<Rightarrow> Inl Bad_access | Some ioq \<Rightarrow> Inr (fd_inode fd, ioq)))"

definition pipe_read :: "int \<Rightarrow> u32 \<Rightarrow> 'a fs_scheme \<Rightarrow> (u8 list \<times> 'a fs_scheme) res" where
  "pipe_read fd cnt s =
     bindE (pipe_of fd s) (\<lambda>(page, ioq).
     bindE (pipe_read_ioq (unat cnt) (ioq, s)) (\<lambda>(bytes, ioq, s).
       Inr (bytes, s\<lparr>pipes := (pipes s)(page \<mapsto> ioq)\<rparr>)))"

definition pipe_write :: "int \<Rightarrow> u8 list \<Rightarrow> u32 \<Rightarrow> 'a fs_scheme \<Rightarrow> (nat \<times> 'a fs_scheme) res" where
  "pipe_write fd bytes cnt s =
     bindE (pipe_of fd s) (\<lambda>(page, ioq).
     bindE (pipe_write_ioq bytes (unat cnt) (ioq, s)) (\<lambda>(n, ioq, s).
       Inr (n, s\<lparr>pipes := (pipes s)(page \<mapsto> ioq)\<rparr>)))"

section \<open>Files\<close>

definition sys_open :: "u8 list \<Rightarrow> u8 \<Rightarrow> 'a fs_scheme \<Rightarrow> (int \<times> 'a fs_scheme) res" where
  "sys_open pathname flags s =
     bindE (strlen (Some pathname)) (\<lambda>n.
     if n = 0 then Inl Bad_access
     else if pathname ! (n - 1) = slash then Inr (- 1, s)
     else
       asserting (flags \<le> 7)
       (bindE (path_depth_cnt (Some pathname) (uninit MAX_FILE_NAME_LEN s)) (\<lambda>pathname_depth.
        bindE (search_file pathname s) (\<lambda>(inode_no, rec, s).
        let found = (inode_no \<noteq> - 1); create = (flags AND O_CREAT \<noteq> 0) in
        if file_type rec = FT_DIRECTORY then bindE (dir_close (parent_dir rec) s) (\<lambda>s. Inr (- 1, s))
        else
          bindE (path_depth_cnt (Some (searched_path rec)) (uninit MAX_FILE_NAME_LEN s)) (\<lambda>searched_depth.
          if pathname_depth \<noteq> searched_depth then bindE (dir_close (parent_dir rec) s) (\<lambda>s. Inr (- 1, s))
          else if \<not> found \<and> \<not> create then bindE (dir_close (parent_dir rec) s) (\<lambda>s. Inr (- 1, s))
          else if found \<and> create then bindE (dir_close (parent_dir rec) s) (\<lambda>s. Inr (- 1, s))
          else if create then
            bindE (strrchr (Some pathname) slash) (\<lambda>last.
            case last of
              None \<Rightarrow> Inl Bad_access
            | Some k \<Rightarrow>
                bindE (file_create (parent_dir rec) (drop (k + 1) pathname) flags s) (\<lambda>(fd, s).
                bindE (dir_close (parent_dir rec) s) (\<lambda>s. Inr (fd, s))))
          else file_open inode_no flags s)))))"

definition sys_close :: "int \<Rightarrow> 'a fs_scheme \<Rightarrow> (int \<times> 'a fs_scheme) res" where
  "sys_close fd s =
     (if fd > 2 then
        bindE (fd_local2global fd s) (\<lambda>g.
        bindE (is_pipe fd s) (\<lambda>pipe.
        bindE
          (if pipe then
             bindE (read_at (file_table s) g) (\<lambda>f.
             let f = f\<lparr>fd_pos := fd_pos f - 1\<rparr> in
             bindE (set_fd g f s) (\<lambda>s.
             if fd_pos f = 0 then
               bindE (mfree_page PF_KERNEL (fd_inode f) 1 s) (\<lambda>s.
               bindE (set_fd g (f\<lparr>fd_inode := NULL\<rparr>) s) (\<lambda>s. Inr (0, s)))
             else Inr (0, s)))
           else file_close g s) (\<lambda>(ret, s).
        let cur = running_thread s in
        Inr (ret, upd_tcb cur (\<lambda>t. t\<lparr>fd_table := (fd_table t)[nat fd := - 1]\<rparr>) s))))
      else Inr (- 1, s))"

text \<open>The standard output goes to the screen by way of a buffer of 1024 bytes on the stack.\<close>

definition sys_write :: "int \<Rightarrow> u8 list \<Rightarrow> u32 \<Rightarrow> 'a fs_scheme \<Rightarrow> (int \<times> 'a fs_scheme) res" where
  "sys_write fd bytes cnt s =
     (if fd < 0 then Inr (- 1, s)
      else bindE (is_pipe fd s) (\<lambda>pipe.
        if pipe then bindE (pipe_write fd bytes cnt s) (\<lambda>(n, s). Inr (int n, s))
        else if fd = 1 then
          bindE (memcpy (Some (replicate 1024 0)) (Some bytes) (unat cnt)) (\<lambda>temp_buf.
          bindE (console_put_str temp_buf s) (\<lambda>s. Inr (sint cnt, s)))
        else
          bindE (fd_local2global fd s) (\<lambda>g.
          bindE (read_at (file_table s) g) (\<lambda>f.
          if fd_flag f AND ucast O_WRONLY \<noteq> 0 \<or> fd_flag f AND ucast O_RDWD \<noteq> 0 then file_write g bytes cnt s
          else
            bindE (console_put_str (butlast (lit ''sys_write: not allowed to write file without writing permission: O_RDWR or O_WRONLY not found'') @ [10, 0]) s)
              (\<lambda>s. Inr (- 1, s))))))"

text \<open>From the keyboard, a read of more bytes than there are goes to sleep.\<close>

definition read_keys :: "nat \<Rightarrow> 'a fs_scheme \<Rightarrow> (u8 list \<times> 'a fs_scheme) res" where
  "read_keys n s =
     bindE (drain get_byte n (kbd_buf (keys s), s)) (\<lambda>(bytes, ioq, s).
       Inr (bytes, s\<lparr>keys := (keys s)\<lparr>kbd_buf := ioq\<rparr>\<rparr>))"

definition sys_read :: "int \<Rightarrow> u8 list option \<Rightarrow> u32 \<Rightarrow> 'a fs_scheme \<Rightarrow> (int \<times> u8 list \<times> 'a fs_scheme) res" where
  "sys_read fd mem cnt s =
     asserting (mem \<noteq> None)
     (if fd < 0 \<or> fd = 1 \<or> fd = 2 then Inr (- 1, the mem, s)
      else bindE (is_pipe fd s) (\<lambda>pipe.
        if pipe then
          bindE (pipe_read fd cnt s) (\<lambda>(bytes, s).
          bindE (memcpy mem (Some bytes) (length bytes)) (\<lambda>mem. Inr (int (length bytes), mem, s)))
        else if fd = 0 then
          bindE (read_keys (unat cnt) s) (\<lambda>(bytes, s).
          bindE (memcpy mem (Some bytes) (length bytes)) (\<lambda>mem.
            Inr (if cnt = 0 then - 1 else sint cnt, mem, s)))
        else bindE (fd_local2global fd s) (\<lambda>g. file_read g (the mem) cnt s)))"

definition SEEK_SET :: nat where "SEEK_SET = 1"
definition SEEK_CUR :: nat where "SEEK_CUR = 2"
definition SEEK_END :: nat where "SEEK_END = 3"

definition sys_lseek :: "int \<Rightarrow> u32 \<Rightarrow> nat \<Rightarrow> 'a fs_scheme \<Rightarrow> (int \<times> 'a fs_scheme) res" where
  "sys_lseek fd offset whence s =
     (if fd < 0 then Inr (- 1, s)
      else
        asserting (whence > 0 \<and> whence < 4)
        (bindE (fd_local2global fd s) (\<lambda>g.
         bindE (read_at (file_table s) g) (\<lambda>pf.
         bindE (inode_at (fd_inode pf) s) (\<lambda>i.
         let file_size = i_size i;
             new_pos = (if whence = SEEK_SET then offset else if whence = SEEK_CUR then fd_pos pf + offset
                        else file_size + offset) in
         if sint new_pos < 0 \<or> sint new_pos > sint (file_size - 1) then Inr (- 1, s)
         else bindE (set_fd g (pf\<lparr>fd_pos := new_pos\<rparr>) s) (\<lambda>s. Inr (sint new_pos, s)))))))"

text \<open>The search of the descriptor table for the inode number.\<close>

fun file_in_use :: "u32 \<Rightarrow> file_desc list \<Rightarrow> 'a fs_scheme \<Rightarrow> bool res" where
  "file_in_use inode_no [] s = Inr False"
| "file_in_use inode_no (fd # fds) s =
     (if fd_inode fd \<noteq> NULL then
        bindE (inode_at (fd_inode fd) s) (\<lambda>i. if i_no i = inode_no then Inr True else file_in_use inode_no fds s)
      else file_in_use inode_no fds s)"

definition sys_unlink :: "u8 list \<Rightarrow> 'a fs_scheme \<Rightarrow> (int \<times> 'a fs_scheme) res" where
  "sys_unlink pathname s =
     bindE (strlen (Some pathname)) (\<lambda>n.
     asserting (n < MAX_PATH_LEN)
     (bindE (search_file pathname s) (\<lambda>(inode_no, rec, s).
      asserting (inode_no \<noteq> 0)
      (if inode_no = - 1 then bindE (dir_close (parent_dir rec) s) (\<lambda>s. Inr (- 1, s))
       else if file_type rec = FT_DIRECTORY then bindE (dir_close (parent_dir rec) s) (\<lambda>s. Inr (- 1, s))
       else bindE (file_in_use inode_no (file_table s) s) (\<lambda>used.
         if used then bindE (dir_close (parent_dir rec) s) (\<lambda>s. Inr (- 1, s))
         else case kmalloc (SECTOR_SIZE * 2) s of (m, io_buf, s) \<Rightarrow>
         if m = NULL then bindE (dir_close (parent_dir rec) s) (\<lambda>s. Inr (- 1, s))
         else
           bindE (delete_dir_entry (current_partition s) (parent_dir rec) inode_no io_buf s) (\<lambda>(_, s).
           bindE (inode_release (current_partition s) inode_no s) (\<lambda>s.
           bindE (kfree m s) (\<lambda>s.
           bindE (dir_close (parent_dir rec) s) (\<lambda>s. Inr (0, s))))))))))"

section \<open>Directories\<close>

definition mkdir_rollback ::
  "nat \<Rightarrow> u32 \<Rightarrow> addr \<Rightarrow> addr \<Rightarrow> 'a fs_scheme \<Rightarrow> (int \<times> 'a fs_scheme) res" where
  "mkdir_rollback step inode_no parent m s =
     (let p = current_partition s in
      bindE
        (if step = 2 then
           bindE (bitmap_set (inode_bitmap (partitions s p)) (unat inode_no) 0) (\<lambda>b.
             Inr (upd_part p (\<lambda>q. q\<lparr>inode_bitmap := b\<rparr>) s))
         else Inr s) (\<lambda>s.
      bindE (dir_close parent s) (\<lambda>s. bindE (kfree m s) (\<lambda>s. Inr (- 1, s)))))"

text \<open>From the first block of the new directory on; the inode bitmap is not written to disk.\<close>

definition mkdir_finish ::
  "u8 list \<Rightarrow> u32 \<Rightarrow> u32 \<Rightarrow> addr \<Rightarrow> addr \<Rightarrow> 'a fs_scheme \<Rightarrow> (int \<times> 'a fs_scheme) res" where
  "mkdir_finish dirname inode_no block_lba parent m s =
     (let p = current_partition s; q = partitions s p; bitmap_idx = block_lba - data_start_lba (sb q) in
      asserting (bitmap_idx \<noteq> 0)
      (bindE (bitmap_sync p bitmap_idx BLOCK_BITMAP s) (\<lambda>s.
       bindE (dir_at parent s) (\<lambda>dir.
       bindE (inode_at (dir_inode dir) s) (\<lambda>pi.
       let new_inode = (inode_init inode_no)\<lparr>i_sectors := block_lba # replicate 12 0,
                                             i_size := 2 * entry_size p s\<rparr> in
       bindE (memcpy_at (replicate 1024 0) 0 (dot_entries inode_no (i_no pi)) 48) (\<lambda>io_buf.
       bindE (ide_write (my_disk q) block_lba io_buf 1 s) (\<lambda>s.
       bindE (create_dir_entry dirname inode_no FT_DIRECTORY (replicate 24 0)) (\<lambda>de.
       bindE (sync_dir_entry parent de (replicate 1024 0) s) (\<lambda>(synced, s).
       if \<not> synced then mkdir_rollback 2 inode_no parent m s
       else
         bindE (inode_at (dir_inode dir) s) (\<lambda>pi.
         bindE (inode_sync p pi (replicate 1024 0) s) (\<lambda>s.
         bindE (inode_sync p new_inode (replicate 1024 0) s) (\<lambda>s.
         bindE (kfree m s) (\<lambda>s.
         bindE (dir_close parent s) (\<lambda>s. Inr (0, s)))))))))))))))"

definition sys_mkdir :: "u8 list \<Rightarrow> 'a fs_scheme \<Rightarrow> (int \<times> 'a fs_scheme) res" where
  "sys_mkdir pathname s =
     (case kmalloc (SECTOR_SIZE * 2) s of (m, _, s) \<Rightarrow>
      if m = NULL then Inr (- 1, s)
      else bindE (search_file pathname s) (\<lambda>(inode_no, rec, s).
      let p = current_partition s; parent = parent_dir rec in
      if inode_no \<noteq> - 1 then mkdir_rollback 1 0 parent m s
      else
        bindE (path_depth_cnt (Some pathname) (uninit MAX_FILE_NAME_LEN s)) (\<lambda>pathname_depth.
        bindE (path_depth_cnt (Some (searched_path rec)) (uninit MAX_FILE_NAME_LEN s)) (\<lambda>searched_depth.
        if pathname_depth \<noteq> searched_depth then mkdir_rollback 1 0 parent m s
        else
          bindE (strrchr (Some (searched_path rec)) slash) (\<lambda>last.
          case last of
            None \<Rightarrow> Inl Bad_access
          | Some k \<Rightarrow>
              bindE (inode_bitmap_alloc p s) (\<lambda>(inode_no, s).
              if inode_no = - 1 then mkdir_rollback 1 0 parent m s
              else bindE (block_bitmap_alloc p s) (\<lambda>(block_lba, s).
                if block_lba = - 1 then mkdir_rollback 2 inode_no parent m s
                else mkdir_finish (drop (k + 1) (searched_path rec)) inode_no block_lba parent m s)))))))"

text \<open>The result is \<open>NULL\<close> or the directory.\<close>

definition sys_opendir :: "u8 list \<Rightarrow> 'a fs_scheme \<Rightarrow> (addr \<times> 'a fs_scheme) res" where
  "sys_opendir pathname s =
     bindE (strlen (Some pathname)) (\<lambda>n.
     asserting (n < MAX_PATH_LEN)
     (if pathname ! 0 = slash \<and> (pathname ! 1 = 0 \<or> pathname ! 0 = 46) then Inr (root_dir s, s)
      else
        bindE (search_file pathname s) (\<lambda>(inode_no, rec, s).
        bindE
          (if inode_no \<noteq> - 1 \<and> file_type rec = FT_DIRECTORY then dir_open (current_partition s) inode_no s
           else Inr (NULL, s)) (\<lambda>(ret, s).
        bindE (dir_close (parent_dir rec) s) (\<lambda>s. Inr (ret, s))))))"

definition sys_closedir :: "addr \<Rightarrow> 'a fs_scheme \<Rightarrow> (int \<times> 'a fs_scheme) res" where
  "sys_closedir d s = (if d \<noteq> NULL then bindE (dir_close d s) (\<lambda>s. Inr (0, s)) else Inr (- 1, s))"

definition sys_readdir :: "addr \<Rightarrow> 'a fs_scheme \<Rightarrow> (nat option \<times> 'a fs_scheme) res" where
  "sys_readdir d s = asserting (d \<noteq> NULL) (dir_read d s)"

definition sys_rewinddir :: "addr \<Rightarrow> 'a fs_scheme \<Rightarrow> 'a fs_scheme res" where
  "sys_rewinddir d s = bindE (dir_at d s) (\<lambda>dir. Inr (set_dir d (dir\<lparr>dir_pos := 0\<rparr>) s))"

definition sys_rmdir :: "u8 list \<Rightarrow> 'a fs_scheme \<Rightarrow> (int \<times> 'a fs_scheme) res" where
  "sys_rmdir pathname s =
     bindE (search_file pathname s) (\<lambda>(inode_no, rec, s).
     asserting (inode_no \<noteq> 0)
     (bindE
       (if inode_no = - 1 \<or> file_type rec = FT_REGULAR then Inr (- 1, s)
        else
          bindE (dir_open (current_partition s) inode_no s) (\<lambda>(d, s).
          bindE (dir_is_empty d s) (\<lambda>empty.
          bindE (if \<not> empty then Inr (- 1, s) else dir_remove (parent_dir rec) d s) (\<lambda>(r, s).
          bindE (dir_close d s) (\<lambda>s. Inr (if empty \<and> r = 0 then 0 else - 1, s)))))) (\<lambda>(retval, s).
      bindE (dir_close (parent_dir rec) s) (\<lambda>s. Inr (retval, s)))))"

definition sys_chdir :: "u8 list \<Rightarrow> 'a fs_scheme \<Rightarrow> (int \<times> 'a fs_scheme) res" where
  "sys_chdir path s =
     bindE (search_file path s) (\<lambda>(inode_no, rec, s).
     let go = (inode_no \<noteq> - 1 \<and> file_type rec = FT_DIRECTORY);
         s = (if go then upd_tcb (running_thread s) (\<lambda>t. t\<lparr>cwd_inode_no := inode_no\<rparr>) s else s) in
     bindE (dir_close (parent_dir rec) s) (\<lambda>s. Inr (if go then 0 else - 1, s)))"

record stat =
  st_ino :: u32
  st_size :: u32
  st_filetype :: u32

text \<open>For the root, the structure is filled in and then the search goes on all the same.\<close>

definition sys_stat :: "u8 list \<Rightarrow> stat \<Rightarrow> 'a fs_scheme \<Rightarrow> (int \<times> stat \<times> 'a fs_scheme) res" where
  "sys_stat path st s =
     bindE (root_path path) (\<lambda>is_root.
     bindE
       (if is_root then
          bindE (dir_at (root_dir s) s) (\<lambda>d.
          bindE (inode_at (dir_inode d) s) (\<lambda>i.
            Inr \<lparr>st_ino = 0, st_size = i_size i, st_filetype = FT_DIRECTORY\<rparr>))
        else Inr st) (\<lambda>st.
     bindE (search_file path s) (\<lambda>(inode_no, rec, s).
     bindE
       (if inode_no \<noteq> - 1 then
          bindE (inode_open (current_partition s) inode_no s) (\<lambda>(a, s).
          bindE (inode_at a s) (\<lambda>i.
          bindE (inode_close a s) (\<lambda>s.
            Inr (0, \<lparr>st_ino = inode_no, st_size = i_size i, st_filetype = file_type rec\<rparr>, s))))
        else Inr (- 1, st, s)) (\<lambda>(ret, st, s).
     bindE (dir_close (parent_dir rec) s) (\<lambda>s. Inr (ret, st, s))))))"

end
