(* ===== verification/Process_Life.thy ===== *)
theory Process_Life
  imports Fs_Calls
begin

text \<open>
  The life of a process: \<open>sys_fork\<close> (\<open>userprog/fork.c\<close>), \<open>sys_execv\<close> (\<open>userprog/exec.c\<close>), \<open>sys_wait\<close>
  and \<open>sys_exit\<close> (\<open>userprog/wait_exit.c\<close>). They put together the threads, the pages and the file
  system, and run on the state of all three.
\<close>

section \<open>Fork\<close>

text \<open>
  \<open>memcpy\<close> of the page of the TCB. Of the kernel stack in it, the frame of the system call is the part
  the child uses.
\<close>

definition intr_frame :: "addr \<Rightarrow> addr" where "intr_frame tcb = tcb + 4096 - sizeof_intr_stack"

definition copy_tcb_page :: "addr \<Rightarrow> addr \<Rightarrow> 'a threads_scheme \<Rightarrow> 'a threads_scheme" where
  "copy_tcb_page child parent s =
     (upd_tcb child (\<lambda>_. tcbs s parent) s)
       \<lparr>intr_stacks := (intr_stacks s)(intr_frame child := intr_stacks s (intr_frame parent)),
        bits_at := (bits_at s)(child := bits_at s parent)\<rparr>"

definition copy_pcb_vaddrbitmap_stack0 :: "addr \<Rightarrow> addr \<Rightarrow> 'a threads_scheme \<Rightarrow> (int \<times> 'a threads_scheme) res" where
  "copy_pcb_vaddrbitmap_stack0 child parent s =
     bindE (fork_pid (copy_tcb_page child parent s)) (\<lambda>(p, s).
     let s = upd_tcb child (\<lambda>t. t\<lparr>pid := p, total_ticks := 0, status := TASK_READY,
               this_tick := time_slice t, parent_pid := pid (tcbs s parent),
               u_block_desc := block_desc_init\<rparr>) s;
         bitmap_pg_cnt = unat (DIV_CEILING user_btmp_len 4096) in
     bindE (get_kernel_pages bitmap_pg_cnt s) (\<lambda>(vaddr_btmp, s).
     if vaddr_btmp = NULL then Inr (- 1, s)
     else
       let b = vaddr_bitmap (userprog_vaddr (tcbs s child)) in
       bindE (memcpy (Some (replicate (bitmap_pg_cnt * PG_SIZE) 0)) (Some (bits b)) (bitmap_pg_cnt * PG_SIZE)) (\<lambda>bs.
         Inr (0, upd_tcb child (\<lambda>t. t\<lparr>userprog_vaddr := (userprog_vaddr t)\<lparr>vaddr_bitmap := b\<lparr>bits := bs\<rparr>\<rparr>\<rparr>)
                   (s\<lparr>bits_at := (bits_at s)(child := vaddr_btmp)\<rparr>)))))"

text \<open>\<open>memcpy\<close> of a page, word by word.\<close>

definition copy_page :: "u32 \<Rightarrow> u32 \<Rightarrow> 'a vm_scheme \<Rightarrow> 'a vm_scheme res" where
  "copy_page dst src =
     foldE (\<lambda>i s. bindE (load32 (src + 4 * of_nat i) s) (\<lambda>w. store32 (dst + 4 * of_nat i) w s)) [0..<1024]"

text \<open>One page of the parent, by way of a kernel page; the result of the allocation is not looked at.\<close>

definition copy_user_page :: "addr \<Rightarrow> addr \<Rightarrow> u32 \<Rightarrow> u32 \<Rightarrow> 'a vm_scheme \<Rightarrow> 'a vm_scheme res" where
  "copy_user_page child parent buf_page prog_vaddr s =
     bindE (copy_page buf_page prog_vaddr s) (\<lambda>s.
     bindE (get_a_page_without_opvaddrbitmap PF_USER prog_vaddr (page_dir_activate child s)) (\<lambda>(_, s).
     bindE (copy_page prog_vaddr buf_page s) (\<lambda>s.
       Inr (page_dir_activate parent s))))"

definition copy_body_stack3 :: "addr \<Rightarrow> addr \<Rightarrow> u32 \<Rightarrow> 'a vm_scheme \<Rightarrow> 'a vm_scheme res" where
  "copy_body_stack3 child parent buf_page s =
     (let uv = userprog_vaddr (tcbs s parent); b = vaddr_bitmap uv in
      foldE (\<lambda>idx_byte s.
        bindE (read_at (bits b) idx_byte) (\<lambda>byte.
          foldE (\<lambda>idx_bit s.
            if push_bit idx_bit BITMAP_MASK AND byte \<noteq> 0
            then copy_user_page child parent buf_page (of_nat (idx_byte * 8 + idx_bit) * 4096 + vaddr_start uv) s
            else Inr s) [0..<8] s)) [0..<btmp_byte_len b] s)"

text \<open>
  The frame \<open>switch_to\<close> pops first: four registers and the return to \<open>intr_exit\<close>. The fields behind
  the return address lie in the interrupt frame and mean nothing here.
\<close>

definition build_child_stack :: "addr \<Rightarrow> 'a threads_scheme \<Rightarrow> 'a threads_scheme res" where
  "build_child_stack child s =
     (case intr_stacks s (intr_frame child) of
        None \<Rightarrow> Inl Bad_access
      | Some f \<Rightarrow>
          let ebp_ptr = intr_frame child - 20 in
          Inr (upd_tcb child (\<lambda>t. t\<lparr>self_kstack := ebp_ptr\<rparr>)
            (s\<lparr>intr_stacks := (intr_stacks s)(intr_frame child \<mapsto> f\<lparr>is_eax := 0\<rparr>),
               thread_stacks := (thread_stacks s)(ebp_ptr \<mapsto>
                 \<lparr>ts_ebp = 0, ts_ebx = 0, ts_edi = 0, ts_esi = 0, ts_eip = Intr_exit,
                  ts_function = Code 0, ts_func_arg = 0\<rparr>)\<rparr>)))"

definition update_inode_open_cnts :: "addr \<Rightarrow> 'a fs_scheme \<Rightarrow> 'a fs_scheme res" where
  "update_inode_open_cnts tcb =
     foldE (\<lambda>local_fd s.
       bindE (read_at (fd_table (tcbs s tcb)) local_fd) (\<lambda>global_fd.
       asserting (global_fd < int MAX_FILE_OPEN)
       (if global_fd \<noteq> - 1 then
          bindE (is_pipe (int local_fd) s) (\<lambda>pipe.
          bindE (if global_fd < 0 then Inl Bad_access else read_at (file_table s) (nat global_fd)) (\<lambda>fd.
          if pipe then set_fd (nat global_fd) (fd\<lparr>fd_pos := fd_pos fd + 1\<rparr>) s
          else bindE (inode_at (fd_inode fd) s) (\<lambda>i.
            Inr (set_inode (fd_inode fd) (i\<lparr>i_open_cnt := i_open_cnt i + 1\<rparr>) s))))
        else Inr s))) [3..<MAX_FILE_OPEN_PER_PROC]"

definition copy_process :: "addr \<Rightarrow> addr \<Rightarrow> 'a fs_scheme \<Rightarrow> (int \<times> 'a fs_scheme) res" where
  "copy_process child parent s =
     bindE (get_kernel_pages 1 s) (\<lambda>(buf_page, s).
     if buf_page = NULL then Inr (- 1, s)
     else bindE (copy_pcb_vaddrbitmap_stack0 child parent s) (\<lambda>(r, s).
     if r = - 1 then Inr (- 1, s)
     else bindE (create_page_dir s) (\<lambda>(dir, s).
     let s = upd_tcb child (\<lambda>t. t\<lparr>pgdir := dir\<rparr>) s in
     if dir = NULL then Inr (- 1, s)
     else
       bindE (copy_body_stack3 child parent buf_page s) (\<lambda>s.
       bindE (build_child_stack child s) (\<lambda>s.
       bindE (update_inode_open_cnts child s) (\<lambda>s.
       bindE (mfree_page PF_KERNEL buf_page 1 s) (\<lambda>s. Inr (0, s))))))))"

definition sys_fork :: "'a fs_scheme \<Rightarrow> (int \<times> 'a fs_scheme) res" where
  "sys_fork s =
     (let parent = running_thread s in
      bindE (get_kernel_pages 1 s) (\<lambda>(child, s).
      if child = NULL then Inr (- 1, s)
      else
        asserting (intr_get_status s = INTR_OFF \<and> pgdir (tcbs s parent) \<noteq> NULL)
        (bindE (copy_process child parent s) (\<lambda>(r, s).
         if r = - 1 then Inr (- 1, s)
         else
           bindE (enqueue_ready child s) (\<lambda>s.
           bindE (enqueue_all child s) (\<lambda>s. Inr (sint (pid (tcbs s child)), s)))))))"

section \<open>Loading a program\<close>

definition half_at :: "u8 list \<Rightarrow> nat \<Rightarrow> u16" where
  "half_at bs i = ucast (bs ! i) OR push_bit 8 (ucast (bs ! (i + 1)))"

record elf_header =
  e_ident :: "u8 list"
  e_type :: u16
  e_machine :: u16
  e_version :: u32
  e_entry :: u32
  e_phoff :: u32
  e_phentsize :: u16
  e_phnum :: u16

record prog_header =
  p_type :: u32
  p_offset :: u32
  p_vaddr :: u32
  p_filesz :: u32

definition sizeof_Ehdr :: nat where "sizeof_Ehdr = 52"
definition sizeof_Phdr :: u16 where "sizeof_Phdr = 32"
definition PT_LOAD :: u32 where "PT_LOAD = 1"

definition elf_header_of :: "u8 list \<Rightarrow> elf_header" where
  "elf_header_of bs =
     \<lparr>e_ident = take 16 bs, e_type = half_at bs 16, e_machine = half_at bs 18, e_version = word_at bs 20,
      e_entry = word_at bs 24, e_phoff = word_at bs 28, e_phentsize = half_at bs 42, e_phnum = half_at bs 44\<rparr>"

definition prog_header_of :: "u8 list \<Rightarrow> prog_header" where
  "prog_header_of bs =
     \<lparr>p_type = word_at bs 0, p_offset = word_at bs 4, p_vaddr = word_at bs 8, p_filesz = word_at bs 16\<rparr>"

definition elf_ok :: "elf_header \<Rightarrow> bool res" where
  "elf_ok h =
     bindE (memcmp (Some (e_ident h)) (Some [0x7F, 0x45, 0x4C, 0x46, 1, 1, 1]) 7) (\<lambda>r.
       Inr (\<not> (r \<noteq> 0 \<or> e_type h \<noteq> 2 \<or> e_machine h \<noteq> 3 \<or> e_version h \<noteq> 1 \<or> e_phnum h > 1024 \<or>
               e_phentsize h \<noteq> sizeof_Phdr)))"

text \<open>A byte of memory, which the model keeps by words.\<close>

definition store8 :: "u32 \<Rightarrow> u8 \<Rightarrow> 'a vm_scheme \<Rightarrow> 'a vm_scheme res" where
  "store8 va byte s =
     (let k = 8 * unat (va AND 3) in
      bindE (load32 (va AND NOT 3) s) (\<lambda>w.
        store32 (va AND NOT 3) ((w AND NOT (push_bit k 0xFF)) OR push_bit k (ucast byte)) s))"

definition store_bytes :: "u32 \<Rightarrow> u8 list \<Rightarrow> 'a vm_scheme \<Rightarrow> 'a vm_scheme res" where
  "store_bytes va bs = foldE (\<lambda>i. store8 (va + of_nat i) (bs ! i)) [0..<length bs]"

definition occupy_pages :: "u32 \<Rightarrow> u32 \<Rightarrow> u32" where
  "occupy_pages filesz vaddr =
     (let size_in_first_page = 4096 - (vaddr AND 0xFFF) in
      if filesz > size_in_first_page then DIV_CEILING (filesz - size_in_first_page) 4096 + 1 else 1)"

text \<open>The loop over the pages of a segment; \<open>False\<close> when there is no page left.\<close>

fun map_segment :: "nat \<Rightarrow> u32 \<Rightarrow> 'a vm_scheme \<Rightarrow> (bool \<times> 'a vm_scheme) res" where
  "map_segment 0 vaddr_page s = Inr (True, s)"
| "map_segment (Suc n) vaddr_page s =
     bindE (load32 (pde_addr vaddr_page) s) (\<lambda>pde.
     bindE (if pde AND 1 = 0 then Inr True
            else bindE (load32 (pte_addr vaddr_page) s) (\<lambda>pte. Inr (pte AND 1 = 0))) (\<lambda>missing.
     if missing then
       bindE (get_a_page PF_USER vaddr_page s) (\<lambda>(page, s).
         if page = NULL then Inr (False, s) else map_segment n (vaddr_page + 4096) s)
     else map_segment n (vaddr_page + 4096) s))"

text \<open>The results of the system calls are not looked at; what was read is stored at \<open>vaddr\<close>.\<close>

definition segment_load :: "int \<Rightarrow> u32 \<Rightarrow> u32 \<Rightarrow> u32 \<Rightarrow> 'a fs_scheme \<Rightarrow> (bool \<times> 'a fs_scheme) res" where
  "segment_load fd offset filesz vaddr s =
     bindE (map_segment (unat (occupy_pages filesz vaddr)) (vaddr AND 0xFFFFF000) s) (\<lambda>(mapped_all, s).
     if \<not> mapped_all then Inr (False, s)
     else
       bindE (sys_lseek fd offset SEEK_SET s) (\<lambda>(_, s).
       bindE (sys_read fd (Some (replicate (unat filesz) 0)) filesz s) (\<lambda>(n, mem, s).
       bindE (store_bytes vaddr (take (nat n) mem) s) (\<lambda>s. Inr (True, s)))))"

fun load_segments :: "nat \<Rightarrow> int \<Rightarrow> u32 \<Rightarrow> u16 \<Rightarrow> 'a fs_scheme \<Rightarrow> (bool \<times> 'a fs_scheme) res" where
  "load_segments 0 fd offset esize s = Inr (True, s)"
| "load_segments (Suc n) fd offset esize s =
     bindE (memset (Some (replicate 32 0)) 0 (unat esize)) (\<lambda>mem.
     bindE (sys_lseek fd offset SEEK_SET s) (\<lambda>(_, s).
     bindE (sys_read fd (Some mem) (ucast esize) s) (\<lambda>(r, mem, s).
     if r \<noteq> int (unat esize) then Inr (False, s)
     else
       let ph = prog_header_of mem in
       bindE (if p_type ph = PT_LOAD then segment_load fd (p_offset ph) (p_filesz ph) (p_vaddr ph) s
              else Inr (True, s)) (\<lambda>(loaded, s).
       if \<not> loaded then Inr (False, s) else load_segments n fd (offset + ucast esize) esize s))))"

text \<open>The entry point, or \<open>-1\<close>.\<close>

definition load :: "u8 list \<Rightarrow> 'a fs_scheme \<Rightarrow> (u32 \<times> 'a fs_scheme) res" where
  "load pathname s =
     bindE (sys_open pathname O_RDONLY s) (\<lambda>(fd, s).
     if fd = - 1 then Inr (- 1, s)
     else
       bindE (sys_read fd (Some (replicate sizeof_Ehdr 0)) (of_nat sizeof_Ehdr) s) (\<lambda>(r, mem, s).
       bindE
         (if r \<noteq> int sizeof_Ehdr then Inr (- 1, s)
          else
            let h = elf_header_of mem in
            bindE (elf_ok h) (\<lambda>ok.
            if \<not> ok then Inr (- 1, s)
            else bindE (load_segments (unat (e_phnum h)) fd (e_phoff h) (e_phentsize h) s) (\<lambda>(loaded, s).
              Inr (if loaded then e_entry h else - 1, s)))) (\<lambda>(ret, s).
       bindE (sys_close fd s) (\<lambda>(_, s). Inr (ret, s)))))"

fun count_args :: "addr list \<Rightarrow> u32 res" where
  "count_args [] = Inl Bad_access"
| "count_args (a # rest) = (if a = NULL then Inr 0 else bindE (count_args rest) (\<lambda>n. Inr (n + 1)))"

text \<open>
  \<open>Some (-1)\<close> is a return to the caller; \<open>None\<close> stands for the jump to \<open>intr_exit\<close>, which enters the
  new program from the frame stored here. \<open>argv\<close> is the address of the pointers \<open>args\<close>.
\<close>

definition sys_execv :: "u8 list \<Rightarrow> addr \<Rightarrow> addr list \<Rightarrow> 'a fs_scheme \<Rightarrow> (int option \<times> 'a fs_scheme) res" where
  "sys_execv path argv args s =
     bindE (count_args args) (\<lambda>argc.
     bindE (load path s) (\<lambda>(entry_point, s).
     if entry_point = - 1 then Inr (Some (- 1), s)
     else
       let cur = running_thread s in
       bindE (memcpy (Some (task_name (tcbs s cur))) (Some path) TASK_NAME_LEN) (\<lambda>nm.
       bindE (write_at nm (TASK_NAME_LEN - 1) 0) (\<lambda>nm.
       let s = upd_tcb cur (\<lambda>t. t\<lparr>task_name := nm\<rparr>) s in
       case intr_stacks s (intr_frame cur) of
         None \<Rightarrow> Inl Bad_access
       | Some f \<Rightarrow>
           Inr (None, s\<lparr>intr_stacks := (intr_stacks s)(intr_frame cur \<mapsto>
             f\<lparr>is_ebx := argv, is_ecx := argc, is_eip := Code entry_point, is_esp := 0xC0000000\<rparr>)\<rparr>)))))"

section \<open>Leaving and waiting\<close>

text \<open>The two loops over the user half of the page tables of the process.\<close>

definition release_table :: "u32 \<Rightarrow> nat \<Rightarrow> 'a vm_scheme \<Rightarrow> 'a vm_scheme res" where
  "release_table dir pde_idx s =
     bindE (load32 (dir + 4 * of_nat pde_idx) s) (\<lambda>pde.
     if pde AND 1 \<noteq> 0 then
       let first_pte = pte_addr (of_nat pde_idx * 0x400000) in
       bindE (foldE (\<lambda>pte_idx s.
         bindE (load32 (first_pte + 4 * of_nat pte_idx) s) (\<lambda>pte.
           if pte AND 1 \<noteq> 0 then free_a_phy_page (pte AND 0xFFFFF000) s else Inr s)) [0..<1024] s) (\<lambda>s.
         free_a_phy_page (pde AND 0xFFFFF000) s)
     else Inr s)"

definition release_fd :: "addr \<Rightarrow> nat \<Rightarrow> 'a fs_scheme \<Rightarrow> 'a fs_scheme res" where
  "release_fd tcb local_fd s =
     bindE (read_at (fd_table (tcbs s tcb)) local_fd) (\<lambda>v.
     if v \<noteq> - 1 then
       bindE (is_pipe (int local_fd) s) (\<lambda>pipe.
       if pipe then
         bindE (fd_local2global (int local_fd) s) (\<lambda>g.
         bindE (read_at (file_table s) g) (\<lambda>f.
         let f = f\<lparr>fd_pos := fd_pos f - 1\<rparr> in
         bindE (set_fd g f s) (\<lambda>s.
         if fd_pos f = 0 then
           bindE (mfree_page PF_KERNEL (fd_inode f) 1 s) (set_fd g (f\<lparr>fd_inode := NULL\<rparr>))
         else Inr s)))
       else bindE (sys_close (int local_fd) s) (\<lambda>(_, s). Inr s))
     else Inr s)"

definition release_prog_resource :: "addr \<Rightarrow> 'a fs_scheme \<Rightarrow> 'a fs_scheme res" where
  "release_prog_resource tcb s =
     bindE (foldE (release_table (pgdir (tcbs s tcb))) [0..<768] s) (\<lambda>s.
     bindE (mfree_page PF_KERNEL (bits_at s tcb)
              (btmp_byte_len (vaddr_bitmap (userprog_vaddr (tcbs s tcb))) div PG_SIZE) s)
       (foldE (release_fd tcb) [3..<MAX_FILE_OPEN_PER_PROC]))"

definition find_child :: "int \<Rightarrow> task_struct \<Rightarrow> bool" where
  "find_child p t \<longleftrightarrow> sint (parent_pid t) = p"

definition find_hanging_child :: "int \<Rightarrow> task_struct \<Rightarrow> bool" where
  "find_hanging_child p t \<longleftrightarrow> sint (parent_pid t) = p \<and> status t = TASK_HANGING"

definition init_adopt_a_child :: "int \<Rightarrow> addr \<Rightarrow> 'a kernel_scheme \<Rightarrow> 'a kernel_scheme" where
  "init_adopt_a_child p t s =
     (if sint (parent_pid (tcbs s t)) = p then upd_tcb t (\<lambda>tcb. tcb\<lparr>parent_pid := 1\<rparr>) s else s)"

text \<open>
  One round of \<open>sys_wait\<close>: a child that has ended is taken away (its pid and its status), there is no
  child (\<open>-1\<close>), or the caller has gone to sleep and repeats the round when it runs again.
\<close>

datatype wait_result = Reaped u16 u8 | No_child | Waits

definition sys_wait :: "'a threads_scheme \<Rightarrow> (wait_result \<times> 'a threads_scheme) res" where
  "sys_wait s =
     (let parent_pid = sint (pid (tcbs s (running_thread s)));
          child = traverse (find_hanging_child parent_pid) s in
      if child \<noteq> NULL then
        let t = tcbs s child in
        bindE (thread_exit child False s) (\<lambda>s. Inr (Reaped (pid t) (exit_status t), s))
      else if traverse (find_child parent_pid) s = NULL then Inr (No_child, s)
      else bindE (thread_block TASK_WAITING s) (\<lambda>s. Inr (Waits, s)))"

definition adopt_children :: "int \<Rightarrow> 'a kernel_scheme \<Rightarrow> 'a kernel_scheme" where
  "adopt_children p s = foldl (\<lambda>s t. init_adopt_a_child p t s) s (thread_all_list s)"

text \<open>From the wake-up of the parent on; then another thread has the CPU.\<close>

definition leave_parent :: "addr \<Rightarrow> 'a kernel_scheme \<Rightarrow> 'a kernel_scheme res" where
  "leave_parent child s =
     (let parent = pid2thread (sint (parent_pid (tcbs s child))) s in
      if parent = NULL then Inl Bad_access
      else
        bindE (if status (tcbs s parent) = TASK_WAITING then thread_unblock parent s else Inr s)
          (thread_block TASK_HANGING))"

definition sys_exit :: "u32 \<Rightarrow> 'a fs_scheme \<Rightarrow> 'a fs_scheme res" where
  "sys_exit code_no s =
     (let child = running_thread s;
          s = upd_tcb child (\<lambda>t. t\<lparr>exit_status := ucast code_no\<rparr>) s in
      if parent_pid (tcbs s child) = - 1 then Inl Panicked
      else
        let s = adopt_children (sint (pid (tcbs s child))) s in
        bindE (release_prog_resource child s) (leave_parent child))"

end
