(* ===== verification/Syscalls.thy ===== *)
theory Syscalls
  imports Fs_Calls Process_Life
begin

text \<open>
  The system call interface: the numbers (\<open>lib/user/syscall.h\<close>), the table of the kernel
  (\<open>userprog/syscall-init.c\<close>) and the calls as a user program makes them (\<open>lib/user/syscall.c\<close>), and the
  small calls that have no other home. The functions in the table are given by their names.
\<close>

section \<open>Numbers and table\<close>

datatype syscall_nr =
    SYS_GETPID | SYS_WRITE | SYS_MALLOC | SYS_FREE | SYS_OPEN | SYS_CLOSE | SYS_READ
  | SYS_LSEEK | SYS_UNLINK | SYS_MKDIR | SYS_OPENDIR | SYS_CLOSEDIR | SYS_READDIR | SYS_REWINDDIR
  | SYS_RMDIR | SYS_GETCWD | SYS_CHDIR | SYS_STAT | SYS_FORK | SYS_PUTCHAR | SYS_CLEAR
  | SYS_PS | SYS_EXECV | SYS_WAIT | SYS_EXIT | SYS_PIPE | SYS_FD_REDIRECT | SYS_HELP

text \<open>The enumeration numbers them in this order.\<close>

definition syscall_nrs :: "syscall_nr list" where
  "syscall_nrs =
     [SYS_GETPID, SYS_WRITE, SYS_MALLOC, SYS_FREE, SYS_OPEN, SYS_CLOSE, SYS_READ,
      SYS_LSEEK, SYS_UNLINK, SYS_MKDIR, SYS_OPENDIR, SYS_CLOSEDIR, SYS_READDIR, SYS_REWINDDIR,
      SYS_RMDIR, SYS_GETCWD, SYS_CHDIR, SYS_STAT, SYS_FORK, SYS_PUTCHAR, SYS_CLEAR,
      SYS_PS, SYS_EXECV, SYS_WAIT, SYS_EXIT, SYS_PIPE, SYS_FD_REDIRECT, SYS_HELP]"

definition number :: "syscall_nr \<Rightarrow> nat" where
  "number nr = length (takeWhile (\<lambda>k. k \<noteq> nr) syscall_nrs)"

lemma nth_number [simp]: "syscall_nrs ! number nr = nr"
  by (cases nr) (simp_all add: number_def syscall_nrs_def)

lemma number_less: "number nr < 28"
  by (cases nr) (simp_all add: number_def syscall_nrs_def)

lemma number_inj [simp]: "number a = number b \<longleftrightarrow> a = b"
  using nth_number by metis

instantiation syscall_nr :: linorder
begin

definition less_eq_syscall_nr :: "syscall_nr \<Rightarrow> syscall_nr \<Rightarrow> bool" where
  "less_eq_syscall_nr a b \<longleftrightarrow> number a \<le> number b"

definition less_syscall_nr :: "syscall_nr \<Rightarrow> syscall_nr \<Rightarrow> bool" where
  "less_syscall_nr a b \<longleftrightarrow> number a < number b"

instance by standard (auto simp: less_eq_syscall_nr_def less_syscall_nr_def)

end

definition max_syscalls :: nat where "max_syscalls = 32"

definition syscall_init :: "string option list \<Rightarrow> string option list" where
  "syscall_init syscall_table = foldl (\<lambda>t (nr, f). t[number nr := Some f]) syscall_table
     [(SYS_GETPID, ''sys_getpid''), (SYS_WRITE, ''sys_write''), (SYS_MALLOC, ''sys_malloc''),
      (SYS_FREE, ''sys_free''), (SYS_OPEN, ''sys_open''), (SYS_CLOSE, ''sys_close''),
      (SYS_READ, ''sys_read''), (SYS_LSEEK, ''sys_lseek''), (SYS_UNLINK, ''sys_unlink''),
      (SYS_MKDIR, ''sys_mkdir''), (SYS_OPENDIR, ''sys_opendir''), (SYS_CLOSEDIR, ''sys_closedir''),
      (SYS_READDIR, ''sys_readdir''), (SYS_REWINDDIR, ''sys_rewinddir''), (SYS_RMDIR, ''sys_rmdir''),
      (SYS_GETCWD, ''sys_getcwd''), (SYS_CHDIR, ''sys_chdir''), (SYS_STAT, ''sys_stat''),
      (SYS_FORK, ''sys_fork''), (SYS_PUTCHAR, ''sys_putchar''), (SYS_CLEAR, ''sys_clear''),
      (SYS_PS, ''sys_ps''), (SYS_EXECV, ''sys_execv''), (SYS_WAIT, ''sys_wait''),
      (SYS_EXIT, ''sys_exit''), (SYS_PIPE, ''sys_pipe''), (SYS_FD_REDIRECT, ''sys_fd_redirect''),
      (SYS_HELP, ''sys_help'')]"

text \<open>What the gate of \<open>int 0x80\<close> finds in the registers: the number and up to three arguments.\<close>

record gate_call =
  eax :: u32
  ebx :: "u32 option"
  ecx :: "u32 option"
  edx :: "u32 option"

definition syscall0 :: "syscall_nr \<Rightarrow> gate_call" where
  "syscall0 nr = \<lparr>eax = of_nat (number nr), ebx = None, ecx = None, edx = None\<rparr>"

definition syscall1 :: "syscall_nr \<Rightarrow> u32 \<Rightarrow> gate_call" where
  "syscall1 nr arg1 = \<lparr>eax = of_nat (number nr), ebx = Some arg1, ecx = None, edx = None\<rparr>"

definition syscall2 :: "syscall_nr \<Rightarrow> u32 \<Rightarrow> u32 \<Rightarrow> gate_call" where
  "syscall2 nr arg1 arg2 = \<lparr>eax = of_nat (number nr), ebx = Some arg1, ecx = Some arg2, edx = None\<rparr>"

definition syscall3 :: "syscall_nr \<Rightarrow> u32 \<Rightarrow> u32 \<Rightarrow> u32 \<Rightarrow> gate_call" where
  "syscall3 nr arg1 arg2 arg3 = \<lparr>eax = of_nat (number nr), ebx = Some arg1, ecx = Some arg2, edx = Some arg3\<rparr>"

section \<open>The calls of a user program\<close>

text \<open>Arguments are the words in the registers; an \<open>uint8_t\<close> and a \<open>char\<close> are widened.\<close>

definition u_getpid :: "gate_call" where "u_getpid = syscall0 SYS_GETPID"
definition u_write :: "u32 \<Rightarrow> u32 \<Rightarrow> u32 \<Rightarrow> gate_call" where
  "u_write fd mem n = syscall3 SYS_WRITE fd mem n"
definition u_malloc :: "u32 \<Rightarrow> gate_call" where "u_malloc len = syscall1 SYS_MALLOC len"
definition u_free :: "u32 \<Rightarrow> gate_call" where "u_free p = syscall1 SYS_FREE p"
definition u_open :: "u32 \<Rightarrow> u8 \<Rightarrow> gate_call" where
  "u_open pathname flags = syscall2 SYS_OPEN pathname (ucast flags)"
definition u_close :: "u32 \<Rightarrow> gate_call" where "u_close fd = syscall1 SYS_CLOSE fd"
definition u_read :: "u32 \<Rightarrow> u32 \<Rightarrow> u32 \<Rightarrow> gate_call" where
  "u_read fd mem n = syscall3 SYS_READ fd mem n"
definition u_lseek :: "u32 \<Rightarrow> u32 \<Rightarrow> u32 \<Rightarrow> gate_call" where
  "u_lseek fd off whence = syscall3 SYS_LSEEK fd off whence"
definition u_unlink :: "u32 \<Rightarrow> gate_call" where "u_unlink pathname = syscall1 SYS_UNLINK pathname"
definition u_mkdir :: "u32 \<Rightarrow> gate_call" where "u_mkdir pathname = syscall1 SYS_MKDIR pathname"
definition u_opendir :: "u32 \<Rightarrow> gate_call" where "u_opendir pathname = syscall1 SYS_OPENDIR pathname"
definition u_closedir :: "u32 \<Rightarrow> gate_call" where "u_closedir dir = syscall1 SYS_CLOSEDIR dir"
definition u_readdir :: "u32 \<Rightarrow> gate_call" where "u_readdir dir = syscall1 SYS_READDIR dir"
definition u_rewinddir :: "u32 \<Rightarrow> gate_call" where "u_rewinddir dir = syscall1 SYS_REWINDDIR dir"
definition u_rmdir :: "u32 \<Rightarrow> gate_call" where "u_rmdir pathname = syscall1 SYS_RMDIR pathname"
definition u_getcwd :: "u32 \<Rightarrow> u32 \<Rightarrow> gate_call" where
  "u_getcwd mem len = syscall2 SYS_GETCWD mem len"
definition u_chdir :: "u32 \<Rightarrow> gate_call" where "u_chdir path = syscall1 SYS_CHDIR path"
definition u_stat :: "u32 \<Rightarrow> u32 \<Rightarrow> gate_call" where
  "u_stat path mem = syscall2 SYS_STAT path mem"
definition u_fork :: "gate_call" where "u_fork = syscall0 SYS_FORK"
definition u_putchar :: "u8 \<Rightarrow> gate_call" where
  "u_putchar char_ascii = syscall1 SYS_PUTCHAR (scast char_ascii)"
definition u_clear :: "gate_call" where "u_clear = syscall0 SYS_CLEAR"
definition u_ps :: "gate_call" where "u_ps = syscall0 SYS_PS"
definition u_execv :: "u32 \<Rightarrow> u32 \<Rightarrow> gate_call" where
  "u_execv path argv = syscall2 SYS_EXECV path argv"
definition u_wait :: "u32 \<Rightarrow> gate_call" where "u_wait code = syscall1 SYS_WAIT code"
definition u_exit :: "u32 \<Rightarrow> gate_call" where "u_exit code = syscall1 SYS_EXIT code"
definition u_pipe :: "u32 \<Rightarrow> gate_call" where "u_pipe pipefd = syscall1 SYS_PIPE pipefd"
definition u_fd_redirect :: "u32 \<Rightarrow> u32 \<Rightarrow> gate_call" where
  "u_fd_redirect old_local_fd new_local_fd = syscall2 SYS_FD_REDIRECT old_local_fd new_local_fd"
definition u_help :: "gate_call" where "u_help = syscall0 SYS_HELP"

text \<open>Every call is registered, under its own number, and nothing else is.\<close>

fun called :: "syscall_nr \<Rightarrow> string" where
  "called SYS_GETPID = ''sys_getpid''"
| "called SYS_WRITE = ''sys_write''"
| "called SYS_MALLOC = ''sys_malloc''"
| "called SYS_FREE = ''sys_free''"
| "called SYS_OPEN = ''sys_open''"
| "called SYS_CLOSE = ''sys_close''"
| "called SYS_READ = ''sys_read''"
| "called SYS_LSEEK = ''sys_lseek''"
| "called SYS_UNLINK = ''sys_unlink''"
| "called SYS_MKDIR = ''sys_mkdir''"
| "called SYS_OPENDIR = ''sys_opendir''"
| "called SYS_CLOSEDIR = ''sys_closedir''"
| "called SYS_READDIR = ''sys_readdir''"
| "called SYS_REWINDDIR = ''sys_rewinddir''"
| "called SYS_RMDIR = ''sys_rmdir''"
| "called SYS_GETCWD = ''sys_getcwd''"
| "called SYS_CHDIR = ''sys_chdir''"
| "called SYS_STAT = ''sys_stat''"
| "called SYS_FORK = ''sys_fork''"
| "called SYS_PUTCHAR = ''sys_putchar''"
| "called SYS_CLEAR = ''sys_clear''"
| "called SYS_PS = ''sys_ps''"
| "called SYS_EXECV = ''sys_execv''"
| "called SYS_WAIT = ''sys_wait''"
| "called SYS_EXIT = ''sys_exit''"
| "called SYS_PIPE = ''sys_pipe''"
| "called SYS_FD_REDIRECT = ''sys_fd_redirect''"
| "called SYS_HELP = ''sys_help''"

lemma syscall_init_registers:
  "syscall_init (replicate max_syscalls None) ! number nr = Some (called nr)"
  by (cases nr) (simp_all add: syscall_init_def max_syscalls_def number_def syscall_nrs_def numeral_eq_Suc)

lemma syscall_init_rest:
  "28 \<le> i \<Longrightarrow> i < max_syscalls \<Longrightarrow> syscall_init (replicate max_syscalls None) ! i = None"
  by (simp add: syscall_init_def max_syscalls_def number_def syscall_nrs_def)

section \<open>A user program and the kernel\<close>

text \<open>The gate of \<open>int 0x80\<close> turns interrupts off, and the return restores the flag.\<close>

definition in_kernel :: "('a cpu_scheme \<Rightarrow> ('r \<times> 'a cpu_scheme) res) \<Rightarrow> 'a cpu_scheme \<Rightarrow> ('r \<times> 'a cpu_scheme) res" where
  "in_kernel f s = bindE (f (s\<lparr>if_flag := False\<rparr>)) (\<lambda>(r, t). Inr (r, t\<lparr>if_flag := if_flag s\<rparr>))"

definition in_kernel_void :: "('a cpu_scheme \<Rightarrow> 'a cpu_scheme res) \<Rightarrow> 'a cpu_scheme \<Rightarrow> 'a cpu_scheme res" where
  "in_kernel_void f s = bindE (f (s\<lparr>if_flag := False\<rparr>)) (\<lambda>t. Inr (t\<lparr>if_flag := if_flag s\<rparr>))"

text \<open>\<open>screen\<close> holds what was put on the screen since it was cleared.\<close>

definition sys_getpid :: "'a kernel_scheme \<Rightarrow> u16" where "sys_getpid s = pid (tcbs s (running_thread s))"

definition sys_putchar :: "u8 \<Rightarrow> 'a terminal_scheme \<Rightarrow> 'a terminal_scheme res" where
  "sys_putchar char_ascii s = console_put_char char_ascii s"

definition sys_clear :: "'a terminal_scheme \<Rightarrow> 'a terminal_scheme res" where
  "sys_clear s = Inr (s\<lparr>screen := []\<rparr>)"

definition uprintf :: "u8 list \<Rightarrow> vararg list \<Rightarrow> 'a fs_scheme \<Rightarrow> 'a fs_scheme res" where
  "uprintf fmt args s =
     bindE (printf (\<lambda>fd mem n. in_kernel (sys_write (int fd) mem (of_nat n)) s) fmt args) (\<lambda>r.
     bindE r (\<lambda>(_, s). Inr s))"

definition lit_nl :: "string \<Rightarrow> u8 list" where "lit_nl t = List.map of_char t @ [10, 0]"

definition help_text :: "u8 list" where
  "help_text = concat (List.map (butlast \<circ> lit_nl)
     [''JackOS: A 32-bit OS for Educational Use'',
      ''    Author: Shihong(Jack) Wang, a junior in Wisconsin-Madison & XJTU'',
      ''Builtin Command:'',
      ''    ls: show directory or file information. -l option available'',
      ''    cd: change current working directory'',
      ''    mkdir: create a directory'',
      ''    rmdir: remove a directory'',
      ''    rm: remove a regular file'',
      ''    pwd: print current working directory'',
      ''    ps: show process information'',
      ''    clear: clear current screen'',
      ''    help: show this help message'',
      ''Shotcut Key:'',
      ''    Ctrl+l: clear screen'',
      ''    Ctrl+u: clear input'',
      ''Shell Features:'',
      ''    No Ctrl+c/Ctrl+z support, NO <Up>/<Down>/<Left>/<Right> support, NO shell builtin pipe '|' support'',
      ''    There is only user program stdin/stdout redirection'',
      ''System Calls:'',
      ''    Refer lib/user/syscall.h for all available system calls'']) @ [0]"

text \<open>\<open>kprintf\<close> formats into a buffer of 1024 bytes and writes its text to the screen.\<close>

definition kprintf :: "u8 list \<Rightarrow> vararg list \<Rightarrow> 'a terminal_scheme \<Rightarrow> 'a terminal_scheme res" where
  "kprintf format args s = bindE (vsprintf (replicate 1024 0) format args) (\<lambda>(mem, _). console_put_str mem s)"

definition sys_help :: "'a terminal_scheme \<Rightarrow> 'a terminal_scheme res" where "sys_help s = kprintf help_text [] s"

end
