(* ===== verification/Shell.thy ===== *)
theory Shell
  imports Syscalls
begin

text \<open>
  The shell (\<open>shell/shell.c\<close>) and its built-in commands (\<open>shell/builtin_cmd.c\<close>), on top of the system
  calls. What the shell prints is what reaches descriptor 1. Arguments are the strings the pointers of
  \<open>argv\<close> point to, \<open>None\<close> for \<open>NULL\<close>.
\<close>

section \<open>The state of the shell\<close>

record shell = fs +
  cmd_line :: "u8 list"
  final_path :: "u8 list"
  cwd_cache :: "u8 list"
  argv_at :: addr

definition shell_start :: "'a shell_scheme \<Rightarrow> 'a shell_scheme" where
  "shell_start s = s\<lparr>cmd_line := replicate MAX_PATH_LEN 0, final_path := replicate MAX_PATH_LEN 0, cwd_cache := replicate 64 0\<rparr>"

definition print_prompt :: "'a shell_scheme \<Rightarrow> 'a shell_scheme res" where
  "print_prompt s = uprintf (lit ''[Jack@JackOS %s]$ '') [VStr (cwd_cache s)] s"

section \<open>Reading a line\<close>

text \<open>\<open>ctrl + u\<close>: back to the beginning of the buffer.\<close>

fun erase_line :: "u8 list \<Rightarrow> nat \<Rightarrow> 'a fs_scheme \<Rightarrow> (u8 list \<times> 'a fs_scheme) res" where
  "erase_line mem 0 s = Inr (mem, s)"
| "erase_line mem (Suc p) s =
     bindE (in_kernel_void (sys_putchar 8) s) (\<lambda>s.
     bindE (write_at mem (Suc p) 0) (\<lambda>mem. erase_line mem p s))"

text \<open>
  What the loop does with the byte just read at \<open>p\<close>: the line is complete (\<open>None\<close>) or goes on at a position.
  A backspace at the beginning of the buffer finds itself there.
\<close>

definition line_key :: "u8 list \<Rightarrow> nat \<Rightarrow> 'a shell_scheme \<Rightarrow> (nat option \<times> u8 list \<times> 'a shell_scheme) res" where
  "line_key mem p s =
     bindE (read_at mem p) (\<lambda>c.
     if c = 10 \<or> c = 13 then
       bindE (write_at mem p 0) (\<lambda>mem. bindE (in_kernel_void (sys_putchar 10) s) (\<lambda>s. Inr (None, mem, s)))
     else if c = 8 then
       bindE (read_at mem 0) (\<lambda>b.
       if b \<noteq> 8 then bindE (in_kernel_void (sys_putchar 8) s) (\<lambda>s. Inr (Some (p - 1), mem, s))
       else Inr (Some p, mem, s))
     else if c = chr CHR ''l'' - chr CHR ''a'' then
       bindE (write_at mem p 0) (\<lambda>mem.
       bindE (in_kernel_void sys_clear s) (\<lambda>s.
       bindE (print_prompt s) (\<lambda>s.
       bindE (uprintf (lit ''%s'') [VStr mem] s) (\<lambda>s. Inr (Some p, mem, s)))))
     else if c = chr CHR ''u'' - chr CHR ''a'' then
       bindE (erase_line mem p s) (\<lambda>(mem, s). Inr (Some 0, mem, s))
     else bindE (in_kernel_void (sys_putchar c) s) (\<lambda>s. Inr (Some (p + 1), mem, s)))"

text \<open>
  The first argument bounds the number of keys. A byte is read into the buffer before the position is
  compared with the size, so the last one may go behind the buffer.
\<close>

fun readline_loop :: "nat \<Rightarrow> u8 list \<Rightarrow> nat \<Rightarrow> nat \<Rightarrow> 'a shell_scheme \<Rightarrow> (u8 list \<times> 'a shell_scheme) res" where
  "readline_loop 0 mem p n s = Inl No_return"
| "readline_loop (Suc keys_left) mem p n s =
     bindE (in_kernel (\<lambda>s. bindE (sys_read 0 (Some (drop p mem)) 1 s) (\<lambda>(r, rest, s). Inr ((r, rest), s))) s)
       (\<lambda>((r, rest), s).
     let mem = take p mem @ rest in
     if r \<noteq> - 1 \<and> p < n then
       bindE (line_key mem p s) (\<lambda>(next, mem, s).
       case next of None \<Rightarrow> Inr (mem, s) | Some p \<Rightarrow> readline_loop keys_left mem p n s)
     else
       bindE (uprintf (lit_nl ''readline: can't find <Enter> in cmd_line, max cached chars are 128.'') [] s) (\<lambda>s. Inr (mem, s)))"

definition readline :: "nat \<Rightarrow> u8 list option \<Rightarrow> nat \<Rightarrow> 'a shell_scheme \<Rightarrow> (u8 list \<times> 'a shell_scheme) res" where
  "readline keys_left mem n s = asserting (mem \<noteq> None \<and> n > 0) (readline_loop keys_left (the mem) 0 n s)"

section \<open>Built-in commands\<close>

definition arg :: "u8 list option list \<Rightarrow> nat \<Rightarrow> u8 list res" where
  "arg argv k = bindE (read_at argv k) (\<lambda>a. case a of None \<Rightarrow> Inl Bad_access | Some t \<Rightarrow> Inr t)"

definition getcwd :: "u8 list \<Rightarrow> 'a shell_scheme \<Rightarrow> (u8 list option \<times> 'a shell_scheme) res" where
  "getcwd mem s = in_kernel (sys_getcwd (Some mem) 512) s"

text \<open>\<open>make_clear_abs_path (path, final_path)\<close>: the working directory is asked for when the path is relative.\<close>

definition clear_path :: "u8 list \<Rightarrow> 'a shell_scheme \<Rightarrow> 'a shell_scheme res" where
  "clear_path path s =
     bindE (read_at path 0) (\<lambda>c.
     bindE (if c \<noteq> slash then getcwd (replicate MAX_PATH_LEN 0) s else Inr (None, s)) (\<lambda>(cwd, s).
     bindE (make_clear_abs_path cwd path (final_path s)) (\<lambda>fp. Inr (s\<lparr>final_path := fp\<rparr>))))"

text \<open>A \<open>getcwd\<close> that fails is taken to leave \<open>final_path\<close> alone, which is cleared at that point.\<close>

definition builtin_pwd :: "nat \<Rightarrow> 'a shell_scheme \<Rightarrow> 'a shell_scheme res" where
  "builtin_pwd argc s =
     (if argc \<noteq> 1 then uprintf (lit_nl ''pwd: pwd receives no argument!'') [] s
      else
        bindE (getcwd (final_path s) s) (\<lambda>(r, s).
        case r of
          Some fp \<Rightarrow> let s = s\<lparr>final_path := fp\<rparr> in uprintf (lit_nl ''%s'') [VStr fp] s
        | None \<Rightarrow> uprintf (lit_nl ''pwd: fail to get current work directory!'') [] s))"

text \<open>\<open>True\<close> if the result is not \<open>NULL\<close>.\<close>

definition buildin_cd :: "nat \<Rightarrow> u8 list option list \<Rightarrow> 'a shell_scheme \<Rightarrow> (bool \<times> 'a shell_scheme) res" where
  "buildin_cd argc argv s =
     (if argc > 2 then bindE (uprintf (lit_nl ''cd: cd receieves no argument!'') [] s) (\<lambda>s. Inr (False, s))
      else
        bindE
          (if argc = 1 then
             bindE (write_at (final_path s) 0 slash) (\<lambda>fp.
             bindE (write_at fp 1 0) (\<lambda>fp. Inr (s\<lparr>final_path := fp\<rparr>)))
           else bindE (arg argv 1) (\<lambda>a. clear_path a s)) (\<lambda>s.
        bindE (in_kernel (sys_chdir (final_path s)) s) (\<lambda>(r, s).
        if r = - 1 then bindE (uprintf (lit_nl ''cd: no such directory %s'') [VStr (final_path s)] s) (\<lambda>s. Inr (False, s))
        else Inr (True, s))))"

text \<open>The arguments of \<open>ls\<close>: \<open>None\<close> if there is a second path, else whether \<open>-l\<close> is given, and the path.\<close>

fun ls_args :: "u8 list option list \<Rightarrow> nat \<Rightarrow> nat \<Rightarrow> bool \<Rightarrow> u8 list option \<Rightarrow> 'a shell_scheme \<Rightarrow>
   ((bool \<times> u8 list option) option \<times> 'a shell_scheme) res" where
  "ls_args argv arg_idx 0 long_info pathname s = Inr (Some (long_info, pathname), s)"
| "ls_args argv arg_idx (Suc n) long_info pathname s =
     bindE (arg argv arg_idx) (\<lambda>a.
     bindE (read_at a 0) (\<lambda>c.
     if c = chr CHR ''-'' then
       bindE (strcmp (Some (lit ''-l'')) (Some a)) (\<lambda>l.
       bindE (strcmp (Some (lit ''-h'')) (Some a)) (\<lambda>h.
       if l = 0 then ls_args argv (Suc arg_idx) n True pathname s
       else if h = 0 then
         bindE (uprintf (butlast (lit_nl ''ls: list all file in current working directory (cwd). Wish builtin command'') @
             butlast (lit_nl ''Usage:'') @ butlast (lit_nl ''    -l     list all infomation about the file.'') @
             lit_nl ''    -h     show this help message.'') [] s)
           (ls_args argv (Suc arg_idx) n long_info pathname)
       else
         bindE (uprintf (lit_nl ''ls: invalid option %s. Run `ls -h` for more infomation.'') [] s)
           (ls_args argv (Suc arg_idx) n long_info pathname)))
     else if pathname = None then ls_args argv (Suc arg_idx) n long_info (Some a) s
     else bindE (uprintf (lit_nl ''ls: ls only receives 1 path!'') [] s) (\<lambda>s. Inr (None, s))))"

text \<open>The entry \<open>readdir\<close> points to lies in the buffer of the directory.\<close>

definition entry_bytes :: "addr \<Rightarrow> nat \<Rightarrow> 'a fs_scheme \<Rightarrow> u8 list res" where
  "entry_bytes d k s = bindE (dir_at d s) (\<lambda>dir. if length (dir_buf dir) < 24 * k + 24 then Inl Bad_access else Inr (drop (24 * k) (dir_buf dir)))"

text \<open>
  The two listings. Every entry takes 24 bytes of at most 140 blocks, so a bound of 2941 rounds is never
  reached. A failing \<open>stat\<close> ends the command with the directory still open (\<open>False\<close>).
\<close>

fun ls_short :: "nat \<Rightarrow> addr \<Rightarrow> 'a shell_scheme \<Rightarrow> 'a shell_scheme res" where
  "ls_short 0 d s = Inl No_return"
| "ls_short (Suc rounds) d s =
     bindE (in_kernel (sys_readdir d) s) (\<lambda>(de, s).
     case de of
       None \<Rightarrow> uprintf (lit_nl '''') [] s
     | Some k \<Rightarrow>
         bindE (entry_bytes d k s) (\<lambda>e.
         bindE (uprintf (lit ''%s  '') [VStr e] s) (ls_short rounds d)))"

fun ls_long :: "nat \<Rightarrow> addr \<Rightarrow> u8 list \<Rightarrow> nat \<Rightarrow> stat \<Rightarrow> 'a shell_scheme \<Rightarrow> (bool \<times> 'a shell_scheme) res" where
  "ls_long 0 d sub_pathname pathname_len file_stat s = Inl No_return"
| "ls_long (Suc rounds) d sub_pathname pathname_len file_stat s =
     bindE (in_kernel (sys_readdir d) s) (\<lambda>(de, s).
     case de of
       None \<Rightarrow> Inr (True, s)
     | Some k \<Rightarrow>
         bindE (entry_bytes d k s) (\<lambda>e.
         let ftype = (if word_at e 20 = FT_REGULAR then chr CHR ''-'' else chr CHR ''d'') in
         bindE (write_at sub_pathname pathname_len 0) (\<lambda>sub_pathname.
         bindE (strcat (Some sub_pathname) (Some e)) (\<lambda>sub_pathname.
         let file_stat = file_stat\<lparr>st_ino := st_ino file_stat AND 0xFFFFFF00\<rparr> in
         bindE (in_kernel (\<lambda>s. bindE (sys_stat sub_pathname file_stat s) (\<lambda>(r, st, s). Inr ((r, st), s))) s) (\<lambda>((r, file_stat), s).
         if r = - 1 then
           bindE (uprintf (lit_nl ''ls: cannot access to %s: No such file or directory!'') [VStr e] s) (\<lambda>s. Inr (False, s))
         else
           bindE (uprintf (lit_nl ''%c  %d  %d  %s'')
               [VInt (ucast ftype), VInt (word_at e 16), VInt (st_size file_stat), VStr e] s)
             (ls_long rounds d sub_pathname pathname_len file_stat))))))"

definition ls_dir :: "bool \<Rightarrow> stat \<Rightarrow> 'a shell_scheme \<Rightarrow> 'a shell_scheme res" where
  "ls_dir long_info file_stat s =
     (let pathname = final_path s in
      bindE (in_kernel (sys_opendir pathname) s) (\<lambda>(d, s).
      bindE (strlen (Some pathname)) (\<lambda>pathname_len.
      bindE (memcpy (Some (replicate MAX_PATH_LEN 0)) (Some pathname) pathname_len) (\<lambda>sub_pathname.
      bindE (if pathname_len = 0 then Inl Bad_access else read_at sub_pathname (pathname_len - 1)) (\<lambda>c.
      bindE (if c \<noteq> slash then bindE (write_at sub_pathname pathname_len slash) (\<lambda>m. Inr (m, pathname_len + 1))
             else Inr (sub_pathname, pathname_len)) (\<lambda>(sub_pathname, pathname_len).
      bindE (in_kernel_void (sys_rewinddir d) s) (\<lambda>s.
      bindE
        (if long_info then
           bindE (uprintf (lit_nl ''total: %d'') [VInt (st_size file_stat)] s)
             (ls_long 2941 d sub_pathname pathname_len file_stat)
         else bindE (ls_short 2941 d s) (\<lambda>s. Inr (True, s))) (\<lambda>(listed, s).
      if listed then bindE (in_kernel (sys_closedir d) s) (\<lambda>(_, s). Inr s) else Inr s))))))))"

definition builtin_ls :: "nat \<Rightarrow> u8 list option list \<Rightarrow> 'a shell_scheme \<Rightarrow> 'a shell_scheme res" where
  "builtin_ls argc argv s =
     bindE (ls_args argv 1 (argc - 1) False None s) (\<lambda>(opts, s).
     case opts of
       None \<Rightarrow> Inr s
     | Some (long_info, pathname) \<Rightarrow>
         bindE
           (case pathname of
              None \<Rightarrow> bindE (getcwd (final_path s) s) (\<lambda>(r, s).
                case r of Some fp \<Rightarrow> Inr (True, s\<lparr>final_path := fp\<rparr>) | None \<Rightarrow> Inr (False, s))
            | Some p \<Rightarrow> bindE (clear_path p s) (\<lambda>s. Inr (True, s))) (\<lambda>(known, s).
         if \<not> known then uprintf (lit_nl ''ls: getcwd for default path failed!'') [] s
         else
           bindE (in_kernel (\<lambda>s. bindE (sys_stat (final_path s) \<lparr>st_ino = 0, st_size = 0, st_filetype = FT_UNKNOW\<rparr> s)
               (\<lambda>(r, st, s). Inr ((r, st), s))) s) (\<lambda>((r, file_stat), s).
           if r = - 1 then uprintf (lit_nl ''ls: cannot access %s: No such file or directory!'') [VStr (final_path s)] s
           else if st_filetype file_stat = FT_DIRECTORY then ls_dir long_info file_stat s
           else if long_info then
             uprintf (lit_nl ''-  %d  %d  %s'') [VInt (st_ino file_stat), VInt (st_size file_stat), VStr (final_path s)] s
           else uprintf (lit_nl ''%s'') [VStr (final_path s)] s)))"

definition builtin_ps :: "nat \<Rightarrow> 'a shell_scheme \<Rightarrow> 'a shell_scheme res" where
  "builtin_ps argc s =
     (if argc \<noteq> 1 then uprintf (lit_nl ''ps: ps receives no argument!'') [] s
      else in_kernel_void (sys_ps (\<lambda>bytes s. bindE (sys_write 1 bytes (of_nat (length bytes)) s) (\<lambda>(_, s). Inr s))) s)"

definition builtin_clear :: "nat \<Rightarrow> 'a shell_scheme \<Rightarrow> 'a shell_scheme res" where
  "builtin_clear argc s =
     (if argc \<noteq> 1 then uprintf (lit_nl ''clear: clear receives no argument!'') [] s else in_kernel_void sys_clear s)"

text \<open>Whether the path is the root, on which the next three commands do nothing.\<close>

definition not_root :: "'a shell_scheme \<Rightarrow> bool res" where
  "not_root s = bindE (strcmp (Some (lit ''/'')) (Some (final_path s))) (\<lambda>r. Inr (r \<noteq> 0))"

definition builtin_mkdir :: "nat \<Rightarrow> u8 list option list \<Rightarrow> 'a shell_scheme \<Rightarrow> (int \<times> 'a shell_scheme) res" where
  "builtin_mkdir argc argv s =
     (if argc \<noteq> 2 then bindE (uprintf (lit_nl ''mkdir: mkdir receives only 1 argument!'') [] s) (\<lambda>s. Inr (- 1, s))
      else
        bindE (arg argv 1) (\<lambda>a.
        bindE (clear_path a s) (\<lambda>s.
        bindE (not_root s) (\<lambda>below.
        if below then
          bindE (in_kernel (sys_mkdir (final_path s)) s) (\<lambda>(r, s).
          if r = 0 then Inr (0, s)
          else bindE (uprintf (lit_nl ''mkdir: create directory %s failed!'') [VStr a] s) (\<lambda>s. Inr (- 1, s)))
        else Inr (- 1, s)))))"

definition builtin_rmdir :: "nat \<Rightarrow> u8 list option list \<Rightarrow> 'a shell_scheme \<Rightarrow> (int \<times> 'a shell_scheme) res" where
  "builtin_rmdir argc argv s =
     (if argc \<noteq> 2 then bindE (uprintf (lit_nl ''rmdir: rmdir only receives 1 argument!'') [] s) (\<lambda>s. Inr (- 1, s))
      else
        bindE (arg argv 1) (\<lambda>a.
        bindE (clear_path a s) (\<lambda>s.
        bindE (not_root s) (\<lambda>below.
        if below then
          bindE (in_kernel (sys_rmdir (final_path s)) s) (\<lambda>(r, s).
          if r = 0 then Inr (0, s)
          else bindE (uprintf (lit_nl ''rmdir: remove %s failed.'') [VStr a] s) (\<lambda>s. Inr (- 1, s)))
        else Inr (- 1, s)))))"

definition builtin_rm :: "nat \<Rightarrow> u8 list option list \<Rightarrow> 'a shell_scheme \<Rightarrow> (int \<times> 'a shell_scheme) res" where
  "builtin_rm argc argv s =
     (if argc \<noteq> 2 then bindE (uprintf (lit_nl ''rm: rm receives only 1 argument!'') [] s) (\<lambda>s. Inr (- 1, s))
      else
        bindE (arg argv 1) (\<lambda>a.
        bindE (clear_path a s) (\<lambda>s.
        bindE (not_root s) (\<lambda>below.
        if below then
          bindE (in_kernel (sys_unlink (final_path s)) s) (\<lambda>(r, s). Inr (if r = 0 then 0 else - 1, s))
        else bindE (uprintf (lit_nl ''rm: delet %s failed!'') [VStr a] s) (\<lambda>s. Inr (- 1, s))))))"

text \<open>
  \<open>builtin_touch\<close>, which no command reaches, has a path buffer of its own. It puts no separator between the
  working directory and the name.
\<close>

definition builtin_touch :: "nat \<Rightarrow> u8 list option list \<Rightarrow> 'a shell_scheme \<Rightarrow> (int \<times> 'a shell_scheme) res" where
  "builtin_touch argc argv s =
     (if argc \<noteq> 2 then bindE (uprintf (lit_nl ''touch: touch receives only 1 argument!'') [] s) (\<lambda>s. Inr (- 1, s))
      else
        bindE (getcwd (replicate MAX_PATH_LEN 0) s) (\<lambda>(r, s).
        let temp = (case r of Some t \<Rightarrow> t | None \<Rightarrow> replicate MAX_PATH_LEN 0) in
        bindE (arg argv 1) (\<lambda>a.
        bindE (strcat (Some temp) (Some a)) (\<lambda>temp.
        bindE (read_at temp 0) (\<lambda>c.
        bindE (if c \<noteq> slash then getcwd (replicate MAX_PATH_LEN 0) s else Inr (None, s)) (\<lambda>(cwd, s).
        bindE (make_clear_abs_path cwd temp (replicate MAX_PATH_LEN 0)) (\<lambda>touch_path.
        bindE (strcmp (Some (lit ''/'')) (Some touch_path)) (\<lambda>r.
        if r \<noteq> 0 then
          bindE (in_kernel (sys_open touch_path (O_CREAT OR O_RDWD)) s) (\<lambda>(fd, s).
          if fd \<noteq> - 1 then Inr (0, s)
          else bindE (uprintf (lit_nl ''touch: create file %s failed!'') [VStr a] s) (\<lambda>s. Inr (- 1, s)))
        else Inr (- 1, s)))))))))"

section \<open>Running commands\<close>

text \<open>What the child does after \<open>fork\<close>. A result means that \<open>execv\<close> failed; the child is then a second shell.\<close>

definition exec_child :: "u8 list option list \<Rightarrow> 'a shell_scheme \<Rightarrow> (int option \<times> 'a shell_scheme) res" where
  "exec_child argv s =
     bindE (arg argv 0) (\<lambda>a.
     bindE (clear_path a s) (\<lambda>s.
     bindE (in_kernel (\<lambda>s. bindE (sys_stat (final_path s) \<lparr>st_ino = 0, st_size = 0, st_filetype = 0\<rparr> s)
         (\<lambda>(r, st, s). Inr (r, s))) s) (\<lambda>(r, s).
     if r = - 1 then
       bindE (uprintf (lit_nl ''wish: cannot access %s: No such file or directory'') [VStr (final_path s)] s) (\<lambda>s.
       bindE (sys_exit (- 1) (s\<lparr>if_flag := False\<rparr>)) (\<lambda>s. Inr (None, s)))
     else
       in_kernel (sys_execv (final_path s) (argv_at s) (List.map (\<lambda>a. if a = None then NULL else argv_at s) argv)) s)))"

text \<open>
  The table of the built-in commands, in the order the names are compared. \<open>await\<close> is \<open>wait\<close> with all that
  runs until it returns: the child that was found and its status, or \<open>None\<close> for \<open>-1\<close>.
\<close>

definition builtin_names :: "string list" where
  "builtin_names = [''ls'', ''cd'', ''pwd'', ''ps'', ''clear'', ''mkdir'', ''rmdir'', ''rm'', ''help'']"

fun find_command :: "string list \<Rightarrow> u8 list option \<Rightarrow> string option res" where
  "find_command [] a = Inr None"
| "find_command (nm # nms) a =
     bindE (strcmp (Some (lit nm)) a) (\<lambda>r. if r = 0 then Inr (Some nm) else find_command nms a)"

definition cmd_execute ::
  "('a shell_scheme \<Rightarrow> ((u32 \<times> u32) option \<times> 'a shell_scheme) res) \<Rightarrow> nat \<Rightarrow> u8 list option list \<Rightarrow>
   'a shell_scheme \<Rightarrow> 'a shell_scheme res" where
  "cmd_execute await argc argv s =
     bindE (read_at argv 0) (\<lambda>a0.
     bindE (find_command builtin_names a0) (\<lambda>c.
     if c = Some ''ls'' then builtin_ls argc argv s
     else if c = Some ''cd'' then
       bindE (buildin_cd argc argv s) (\<lambda>(done, s).
       if done then
         bindE (memset (Some (cwd_cache s)) 0 MAX_PATH_LEN) (\<lambda>m.
         bindE (strcpy (Some m) (Some (final_path s))) (\<lambda>m. Inr (s\<lparr>cwd_cache := m\<rparr>)))
       else Inr s)
     else if c = Some ''pwd'' then builtin_pwd argc s
     else if c = Some ''ps'' then builtin_ps argc s
     else if c = Some ''clear'' then builtin_clear argc s
     else if c = Some ''mkdir'' then bindE (builtin_mkdir argc argv s) (\<lambda>(_, s). Inr s)
     else if c = Some ''rmdir'' then bindE (builtin_rmdir argc argv s) (\<lambda>(_, s). Inr s)
     else if c = Some ''rm'' then bindE (builtin_rm argc argv s) (\<lambda>(_, s). Inr s)
     else if c = Some ''help'' then in_kernel_void sys_help s
     else
       bindE (in_kernel sys_fork s) (\<lambda>(pid, s).
       if pid \<noteq> 0 then
         bindE (await s) (\<lambda>(r, s).
         case r of
           None \<Rightarrow> Inl Panicked
         | Some (child_pid, code) \<Rightarrow>
             uprintf (lit_nl ''child_pid: %d, return status: %d'') [VInt child_pid, VInt code] s)
       else bindE (exec_child argv s) (\<lambda>(_, s). Inr s))))"

text \<open>The command that starts at offset \<open>e\<close> of the line; \<open>False\<close> if it has too many arguments.\<close>

definition split_command :: "nat \<Rightarrow> 'a shell_scheme \<Rightarrow> (int \<times> u8 list option list \<times> 'a shell_scheme) res" where
  "split_command e s =
     bindE (cmd_split (Some (drop e (cmd_line s))) (chr CHR '' '')) (\<lambda>(argc, mem, argv).
       Inr (argc, List.map (map_option (\<lambda>k. drop k mem)) argv, s\<lparr>cmd_line := take e (cmd_line s) @ mem\<rparr>))"

definition run_command ::
  "('a shell_scheme \<Rightarrow> ((u32 \<times> u32) option \<times> 'a shell_scheme) res) \<Rightarrow> nat \<Rightarrow> 'a shell_scheme \<Rightarrow> 'a shell_scheme res" where
  "run_command await e s =
     bindE (split_command e s) (\<lambda>(argc, argv, s). cmd_execute await (unat (of_int argc :: u32)) argv s)"

text \<open>
  The commands of a pipeline between the first and the last, from offset \<open>e\<close> on; the answer is where the
  last one starts. Each round passes a separator, so there are fewer of them than bytes.
\<close>

fun run_middle ::
  "('a shell_scheme \<Rightarrow> ((u32 \<times> u32) option \<times> 'a shell_scheme) res) \<Rightarrow> nat \<Rightarrow> nat \<Rightarrow> 'a shell_scheme \<Rightarrow>
   (nat \<times> 'a shell_scheme) res" where
  "run_middle await 0 e s = Inl No_return"
| "run_middle await (Suc rounds) e s =
     bindE (strchr (Some (drop e (cmd_line s))) (chr CHR ''|'')) (\<lambda>pipe_symbol.
     case pipe_symbol of
       None \<Rightarrow> Inr (e, s)
     | Some k \<Rightarrow>
         bindE (write_at (cmd_line s) (e + k) 0) (\<lambda>m.
         bindE (run_command await e (s\<lparr>cmd_line := m\<rparr>)) (run_middle await rounds (e + k + 1))))"

definition redirect :: "nat \<Rightarrow> int \<Rightarrow> 'a shell_scheme \<Rightarrow> 'a shell_scheme res" where
  "redirect old_fd new_fd s = in_kernel_void (sys_fd_redirect old_fd (unat (of_int new_fd :: u32))) s"

definition run_pipeline ::
  "('a shell_scheme \<Rightarrow> ((u32 \<times> u32) option \<times> 'a shell_scheme) res) \<Rightarrow> nat \<Rightarrow> 'a shell_scheme \<Rightarrow> 'a shell_scheme res" where
  "run_pipeline await k s =
     bindE (in_kernel (\<lambda>s. bindE (sys_pipe s) (\<lambda>(r, fds, s). Inr (if r = 0 then fds else [- 1, 0], s))) s) (\<lambda>(fd, s).
     bindE (write_at (cmd_line s) k 0) (\<lambda>m.
     bindE (split_command 0 (s\<lparr>cmd_line := m\<rparr>)) (\<lambda>(argc, argv, s).
     bindE (redirect 1 (fd ! 1) s) (\<lambda>s.
     bindE (cmd_execute await (unat (of_int argc :: u32)) argv s) (\<lambda>s.
     bindE (redirect 0 (fd ! 0) s) (\<lambda>s.
     bindE (run_middle await MAX_PATH_LEN (k + 1) s) (\<lambda>(e, s).
     bindE (split_command e s) (\<lambda>(argc, argv, s).
     bindE (redirect 1 1 s) (\<lambda>s.
     bindE (cmd_execute await (unat (of_int argc :: u32)) argv s) (\<lambda>s.
     bindE (redirect 0 0 s) (\<lambda>s.
     bindE (in_kernel (sys_close (fd ! 0)) s) (\<lambda>(_, s).
     bindE (in_kernel (sys_close (fd ! 1)) s) (\<lambda>(_, s). Inr s)))))))))))))"

text \<open>One round of the loop of \<open>wish\<close>, for a line of at most \<open>keys_left\<close> keys.\<close>

definition wish_round ::
  "('a shell_scheme \<Rightarrow> ((u32 \<times> u32) option \<times> 'a shell_scheme) res) \<Rightarrow> nat \<Rightarrow> 'a shell_scheme \<Rightarrow> 'a shell_scheme res" where
  "wish_round await keys_left s =
     bindE (print_prompt s) (\<lambda>s.
     bindE (memset (Some (cmd_line s)) 0 MAX_PATH_LEN) (\<lambda>m.
     bindE (memset (Some (final_path s)) 0 MAX_PATH_LEN) (\<lambda>fp.
     bindE (readline keys_left (Some m) MAX_PATH_LEN (s\<lparr>final_path := fp\<rparr>)) (\<lambda>(m, s).
     let s = s\<lparr>cmd_line := m\<rparr> in
     bindE (read_at m 0) (\<lambda>c.
     if c = 0 then Inr s
     else
       bindE (strchr (Some m) (chr CHR ''|'')) (\<lambda>pipe_symbol.
       case pipe_symbol of
         Some k \<Rightarrow> run_pipeline await k s
       | None \<Rightarrow>
           bindE (split_command 0 s) (\<lambda>(argc, argv, s).
           if argc = - 1 then uprintf (lit_nl ''num of arguments exceed %d'') [VInt (of_nat MAX_ARG_NR)] s
           else cmd_execute await (unat (of_int argc :: u32)) argv s)))))))"

text \<open>\<open>wish\<close> itself, stopped after the given lines.\<close>

definition wish ::
  "('a shell_scheme \<Rightarrow> ((u32 \<times> u32) option \<times> 'a shell_scheme) res) \<Rightarrow> nat list \<Rightarrow> 'a shell_scheme \<Rightarrow> 'a shell_scheme res" where
  "wish await lines s =
     bindE (write_at (cwd_cache s) 0 slash) (\<lambda>m.
       foldE (wish_round await) lines (s\<lparr>cwd_cache := m\<rparr>))"

end
