(* ===== verification/Shell_Line.thy ===== *)
theory Shell_Line
  imports Shell
begin

text \<open>
  What reading a line does (\<open>readline\<close> of \<open>shell/shell.c\<close>): the keys edit the line and the screen as an
  abstract editor does.
\<close>

section \<open>The editor\<close>

text \<open>The line so far and what is on the screen.\<close>

fun edit_key :: "u8 list \<Rightarrow> u8 list \<times> u8 list \<Rightarrow> u8 \<Rightarrow> u8 list \<times> u8 list" where
  "edit_key prompt (line, scr) c =
     (if c = 8 then if line = [] then (line, scr) else (butlast line, scr @ [8])
      else if c = 11 then (line, prompt @ line)
      else if c = 20 then ([], scr @ replicate (length line) 8)
      else (line @ [c], scr @ [c]))"

definition prompt_text :: "'a shell_scheme \<Rightarrow> u8 list" where
  "prompt_text s = List.map of_char ''[Jack@JackOS '' @ text_of (cwd_cache s) @ List.map of_char '']$ ''"

text \<open>The console is free, the standard descriptors are the keyboard and the screen, and nobody waits for keys.\<close>

definition shell_ok :: "'a shell_scheme \<Rightarrow> bool" where
  "shell_ok s \<longleftrightarrow> console_lock s = mutex_init \<and> cur s \<noteq> NULL \<and> quiet (kbd_buf (keys s), s\<lparr>if_flag := False\<rparr>) \<and>
     2 \<le> length (fd_table (tcbs s (cur s))) \<and> fd_table (tcbs s (cur s)) ! 0 = 0 \<and> fd_table (tcbs s (cur s)) ! 1 = 1 \<and>
     2 \<le> length (file_table s) \<and> fd_flag (file_table s ! 0) \<noteq> PIPE_FLAG \<and> fd_flag (file_table s ! 1) \<noteq> PIPE_FLAG \<and>
     terminated (cwd_cache s) \<and> length (text_of (cwd_cache s)) < 64"

section \<open>Single calls\<close>

lemma quiet_cong:
  "sched_wf t' = sched_wf t \<Longrightarrow> if_flag t' = if_flag t \<Longrightarrow> cur t' = cur t \<Longrightarrow> idle_thread t' = idle_thread t \<Longrightarrow>
   quiet (q, t') = quiet (q, t)"
  by (simp add: quiet_def)

lemma shell_ok_screen [simp]: "shell_ok (s\<lparr>screen := x\<rparr>) = shell_ok s"
proof -
  have "quiet (kbd_buf (keys s), s\<lparr>screen := x, if_flag := False\<rparr>) = quiet (kbd_buf (keys s), s\<lparr>if_flag := False\<rparr>)"
    by (rule quiet_cong) (rule sched_wf_irrelevant, simp_all)
  then show ?thesis by (simp add: shell_ok_def)
qed

lemma restore_screen:
  fixes s :: "'a terminal_scheme"
  shows "s\<lparr>if_flag := False, screen := x, if_flag := if_flag s\<rparr> = s\<lparr>screen := x\<rparr>"
    "console_lock s = m \<Longrightarrow> s\<lparr>console_lock := m', screen := x, console_lock := m\<rparr> = s\<lparr>screen := x\<rparr>"
  by (cases s, simp)+

lemma console_put:
  assumes "console_lock s = mutex_init" "cur s \<noteq> NULL"
  shows "terminated str \<Longrightarrow> console_put_str str s = Inr (s\<lparr>screen := screen s @ text_of str\<rparr>)" "console_put_char c s = Inr (s\<lparr>screen := screen s @ [c]\<rparr>)"
proof -
  have "mutex_free (console_lock s)" using assms(1) by (simp add: mutex_free_def)
  note a = mutex_acquire_free [OF this assms(2)]
  show "console_put_str str s = Inr (s\<lparr>screen := screen s @ text_of str\<rparr>)" if "terminated str"
    using that by (simp add: console_put_str_def console_acquire_def console_release_def a mutex_release_held)
      (simp add: restore_screen(2) assms(1))
  show "console_put_char c s = Inr (s\<lparr>screen := screen s @ [c]\<rparr>)"
    by (simp add: console_put_char_def console_acquire_def console_release_def a mutex_release_held)
      (simp add: restore_screen(2) assms(1))
qed

lemma uputchar:
  assumes "shell_ok s" shows "in_kernel_void (sys_putchar c) s = Inr (s\<lparr>screen := screen s @ [c]\<rparr>)"
  using assms by (simp add: in_kernel_void_def sys_putchar_def console_put shell_ok_def restore_screen)

lemma uclear: "in_kernel_void sys_clear s = Inr (s\<lparr>screen := []\<rparr>)"
  by (simp add: in_kernel_void_def sys_clear_def restore_screen)

lemma text_zeros:
  assumes "0 \<notin> set t" shows "text_of (t @ replicate n 0) = t"
proof (cases n)
  case 0
  have "takeWhile (\<lambda>c. c \<noteq> 0) t = t" unfolding takeWhile_eq_all_conv using assms by auto
  then show ?thesis by (simp add: 0 text_of_def)
qed (use assms in simp)

lemma vsprintf_zeroed:
  assumes "terminated fmt" "rendered (text_of fmt) args = Some t" "length t < n" "0 \<notin> set t"
  shows "vsprintf (replicate n 0) fmt args = Inr (t @ replicate (n - length t) 0, length t)"
proof -
  obtain q where q: "vsprintf_loop fmt args (replicate n 0, 0) = Inr q" "emits t (replicate n 0, 0) q"
    using vsprintf_loop_emits [OF assms(1,2), of "(replicate n 0, 0)"] assms(3) by auto
  obtain mem p where mp: "q = (mem, p)" by (cases q)
  have "mem ! i = (t @ replicate (n - length t) 0) ! i" if "i < n" for i
    using q(2) that by (cases "i < length t") (auto simp: mp nth_append)
  moreover have "length mem = n" using q(2) by (simp add: mp)
  ultimately have "mem = t @ replicate (n - length t) 0" using assms(3) by (intro nth_equalityI) auto
  then show ?thesis using q(1) assms(3,4) by (simp add: vsprintf_def mp terminated_def text_zeros)
qed

lemma stdio_fds:
  assumes "shell_ok s"
  shows "is_pipe 0 (s\<lparr>if_flag := False\<rparr>) = Inr False" "is_pipe 1 (s\<lparr>if_flag := False\<rparr>) = Inr False"
proof -
  let ?f = "fd_table (tcbs s (cur s))"
  have "0 < length ?f" "1 < length ?f" "0 < length (file_table s)" "1 < length (file_table s)"
    using assms unfolding shell_ok_def by linarith+
  then show "is_pipe 0 (s\<lparr>if_flag := False\<rparr>) = Inr False" "is_pipe 1 (s\<lparr>if_flag := False\<rparr>) = Inr False"
    using assms by (simp_all add: shell_ok_def is_pipe_def fd_local2global_def running_thread_def MAX_FILE_OPEN_def)
qed

lemma uprintf_eq:
  assumes ok: "shell_ok s" and t: "terminated fmt" "rendered (text_of fmt) args = Some t" "length t < 1024" "0 \<notin> set t"
  shows "uprintf fmt args s = Inr (s\<lparr>screen := screen s @ t\<rparr>)"
proof -
  have n: "unat (of_nat (length t) :: u32) = length t" using t(3) by (intro unat_of_nat_small) simp
  have cp: "memcpy (Some (replicate 1024 0)) (Some (t @ replicate (1024 - length t) 0)) (length t) = Inr (t @ replicate (1024 - length t) 0)"
    using t(3) by simp
  have tz: "text_of (t @ replicate (1024 - length t) 0) = t" using t(4) by (rule text_zeros)
  have te: "terminated (t @ replicate (1024 - length t) 0)" using t(3) by (simp add: terminated_def)
  have cs: "console_put_str (t @ replicate (1024 - length t) 0) (s\<lparr>if_flag := False\<rparr>) =
      Inr (s\<lparr>if_flag := False, screen := screen s @ t\<rparr>)"
    using ok te by (subst console_put(1)) (auto simp: shell_ok_def tz)
  have "sys_write 1 (t @ replicate (1024 - length t) 0) (of_nat (length t)) (s\<lparr>if_flag := False\<rparr>) =
      Inr (sint (of_nat (length t) :: u32), s\<lparr>if_flag := False, screen := screen s @ t\<rparr>)"
    using ok stdio_fds(2) [OF ok]
    by (simp add: sys_write_def n cp cs del: memcpy_eq)
  then show ?thesis
    using vsprintf_zeroed [OF t(1,2), of 1024] t(3,4)
    by (simp add: uprintf_def printf_def in_kernel_def restore_screen terminated_def text_zeros)
qed

text \<open>The next key.\<close>

definition typed :: "'a fs_scheme \<Rightarrow> u8 list" where "typed s = ring_items (kbd_buf (keys s))"

lemma typed_screen [simp]: "typed (s\<lparr>screen := x\<rparr>) = typed s" by (simp add: typed_def)

lemma restore_keys:
  fixes s :: "'a fs_scheme"
  shows "s\<lparr>if_flag := False, keys := x, if_flag := if_flag s\<rparr> = s\<lparr>keys := x\<rparr>"
  by (cases s) simp

lemma read_key:
  assumes ok: "shell_ok s" and t: "typed s = c # cs" and m: "mem \<noteq> []"
  shows "\<exists>k. in_kernel (\<lambda>s. bindE (sys_read 0 (Some mem) 1 s) (\<lambda>(r, rest, s). Inr ((r, rest), s))) s =
      Inr ((1, c # tl mem), s\<lparr>keys := k\<rparr>) \<and> shell_ok (s\<lparr>keys := k\<rparr>) \<and> typed (s\<lparr>keys := k\<rparr>) = cs"
proof -
  let ?t = "s\<lparr>if_flag := False\<rparr>"
  have "quiet (kbd_buf (keys s), ?t)" using ok by (simp add: shell_ok_def)
  from get_byte_some [OF this, of c cs] t obtain q where q: "get_byte (kbd_buf (keys s), ?t) = Inr (c, q)" "quiet q"
      "ring_items (fst q) = cs" "snd q = ?t" by (auto simp: typed_def)
  obtain ioq where ioq: "q = (ioq, ?t)" using q(4) by (cases q) auto
  let ?k = "(keys s)\<lparr>kbd_buf := ioq\<rparr>"
  have one: "(1 :: nat) = Suc 0" by simp
  have "read_keys 1 ?t = Inr ([c], ?t\<lparr>keys := ?k\<rparr>)"
    unfolding read_keys_def one drain.simps using q(1) by (simp add: ioq)
  moreover obtain m0 ms where "mem = m0 # ms" using m by (cases mem) auto
  ultimately have "sys_read 0 (Some mem) 1 ?t = Inr (1, c # tl mem, ?t\<lparr>keys := ?k\<rparr>)"
    using stdio_fds(1) [OF ok] by (simp add: sys_read_def)
  moreover have "shell_ok (s\<lparr>keys := ?k\<rparr>)"
  proof -
    have "quiet (ioq, s\<lparr>keys := ?k, if_flag := False\<rparr>) = quiet (ioq, ?t)"
      by (rule quiet_cong) (rule sched_wf_irrelevant, simp_all)
    then show ?thesis using ok q(2) by (simp add: shell_ok_def ioq)
  qed
  ultimately show ?thesis using q(3) by (intro exI [of _ ?k]) (simp add: in_kernel_def restore_keys typed_def ioq)
qed

lemma erase_line_eq:
  assumes "shell_ok s" "p < length mem"
  shows "\<exists>mem'. erase_line mem p s = Inr (mem', s\<lparr>screen := screen s @ replicate p 8\<rparr>) \<and> length mem' = length mem"
  using assms
proof (induction p arbitrary: mem s)
  case (Suc p)
  have "\<exists>mem'. erase_line (mem[Suc p := 0]) p (s\<lparr>screen := screen s @ [8]\<rparr>) =
      Inr (mem', s\<lparr>screen := screen s @ [8]\<rparr>\<lparr>screen := screen (s\<lparr>screen := screen s @ [8]\<rparr>) @ replicate p 8\<rparr>) \<and>
      length mem' = length (mem[Suc p := 0])"
    by (rule Suc.IH) (use Suc.prems in simp_all)
  then show ?case using Suc.prems by (simp add: uputchar)
qed simp

lemma rendered_prompt:
  "terminated m \<Longrightarrow> rendered (text_of (lit ''[Jack@JackOS %s]$ '')) [VStr m] =
     Some (List.map of_char ''[Jack@JackOS '' @ text_of m @ List.map of_char '']$ '')"
  "terminated m \<Longrightarrow> rendered (text_of (lit ''%s'')) [VStr m] = Some (text_of m)"
  by (simp_all add: lit_def takes_argument_iff chr_def)

lemma print_prompt_eq:
  assumes "shell_ok s" shows "print_prompt s = Inr (s\<lparr>screen := screen s @ prompt_text s\<rparr>)"
proof -
  have c: "terminated (cwd_cache s)" "length (text_of (cwd_cache s)) < 64" using assms by (simp_all add: shell_ok_def)
  show ?thesis
    unfolding print_prompt_def prompt_text_def
    by (rule uprintf_eq [OF assms _ rendered_prompt(1) [OF c(1)]]) (use c(2) in \<open>simp_all add: lit_def terminated_def\<close>)
qed

section \<open>Lines\<close>

text \<open>
  \<open>line\<close> is in the buffer up to the position. A key that does not end the line has the effect it has in
  the editor.
\<close>

definition holds_line :: "u8 list \<Rightarrow> nat \<Rightarrow> u8 list \<Rightarrow> bool" where
  "holds_line mem p line \<longleftrightarrow> p = length line \<and> p < length mem \<and> take p mem = line \<and> 0 \<notin> set line \<and> 8 \<notin> set line"

definition plain_key :: "u8 \<Rightarrow> bool" where "plain_key c \<longleftrightarrow> c \<noteq> 0 \<and> c \<noteq> 10 \<and> c \<noteq> 13"

lemma line_key_edits:
  assumes ok: "shell_ok s" and h: "holds_line mem p line" "mem ! p = c" "length line < 512" "p + 1 < length mem" and c: "plain_key c"
  shows "\<exists>p' mem'. line_key mem p s = Inr (Some p', mem', s\<lparr>screen := snd (edit_key (prompt_text s) (line, screen s) c)\<rparr>) \<and>
    length mem' = length mem \<and> holds_line mem' p' (fst (edit_key (prompt_text s) (line, screen s) c))"
proof -
  have l: "p = length line" "p < length mem" "take p mem = line" "0 \<notin> set line" "8 \<notin> set line"
    using h(1) unfolding holds_line_def by blast+
  have nl: "c \<noteq> 10" "c \<noteq> 13" "c \<noteq> 0" using c by (simp_all add: plain_key_def)
  have ctl: "chr CHR ''l'' - chr CHR ''a'' = 11" "chr CHR ''u'' - chr CHR ''a'' = 20" by (simp_all add: chr_def)
  consider (bs) "c = 8" | (ff) "c = 11" | (kill) "c = 20" | (other) "c \<noteq> 8" "c \<noteq> 11" "c \<noteq> 20" by blast
  then show ?thesis
  proof cases
    case bs
    show ?thesis
    proof (cases "line = []")
      case True
      then show ?thesis using bs l h(2) ok
        by (intro exI [of _ p] exI [of _ mem]) (simp add: line_key_def ctl holds_line_def)
    next
      case False
      have "line ! 0 \<in> set line" using False by simp
      moreover have "mem ! 0 = line ! 0" using False l(1-3) nth_take [of 0 p mem] by simp
      ultimately have "mem ! 0 \<noteq> 8" using l(5) by metis
      moreover have "mem \<noteq> []" using l(2) by auto
      moreover have "take (p - 1) mem = butlast line" using l(1-3) by (metis butlast_take le_eq_less_or_eq)
      ultimately show ?thesis using bs l h(2) ok False
        by (intro exI [of _ "p - 1"] exI [of _ mem])
          (auto simp: line_key_def ctl holds_line_def uputchar dest: in_set_butlastD)
    qed
  next
    case ff
    let ?m = "mem[p := 0]"
    have m: "take p ?m = line" "text_of ?m = line" "terminated ?m"
    proof -
      show "take p ?m = line" using l(3) by simp
      have e: "?m = line @ 0 # drop (Suc p) mem" using upd_conv_take_nth_drop [OF l(2), of 0] unfolding l(3) .
      show "text_of ?m = line" unfolding e using l(4) by simp
      show "terminated ?m" unfolding e by (simp add: terminated_def)
    qed
    have "print_prompt (s\<lparr>screen := []\<rparr>) = Inr (s\<lparr>screen := prompt_text s\<rparr>)"
      using print_prompt_eq [of "s\<lparr>screen := []\<rparr>"] ok by (simp add: prompt_text_def)
    moreover have "uprintf (lit ''%s'') [VStr ?m] (s\<lparr>screen := prompt_text s\<rparr>) = Inr (s\<lparr>screen := prompt_text s @ line\<rparr>)"
      using uprintf_eq [of "s\<lparr>screen := prompt_text s\<rparr>" "lit ''%s''" "[VStr ?m]" line] rendered_prompt(2) [OF m(3)] m(2) ok h(3) l(4)
      by (simp add: lit_def terminated_def)
    ultimately show ?thesis using ff l h(2) m
      by (intro exI [of _ p] exI [of _ ?m]) (simp add: line_key_def ctl holds_line_def uclear)
  next
    case kill
    obtain mem' where "erase_line mem p s = Inr (mem', s\<lparr>screen := screen s @ replicate p 8\<rparr>)" "length mem' = length mem"
      using erase_line_eq [OF ok l(2)] by blast
    then show ?thesis using kill l h(2)
      by (intro exI [of _ 0] exI [of _ mem']) (auto simp: line_key_def ctl holds_line_def)
  next
    case other
    have "take (p + 1) mem = line @ [c]" using l(2,3) h(2) by (simp add: take_Suc_conv_app_nth)
    then show ?thesis using other nl l h ok
      by (intro exI [of _ "p + 1"] exI [of _ mem]) (simp add: line_key_def ctl holds_line_def uputchar)
  qed
qed

lemma swap_keys:
  fixes s :: "'a shell_scheme"
  shows "s\<lparr>keys := k, screen := x, keys := k', screen := y\<rparr> = s\<lparr>keys := k', screen := y\<rparr>"
  by (cases s) simp

lemma prompt_text_keys [simp]: "prompt_text (s\<lparr>keys := k\<rparr>) = prompt_text s" "prompt_text (s\<lparr>screen := x\<rparr>) = prompt_text s"
  by (simp_all add: prompt_text_def)

lemma readline_loop_edits:
  assumes "shell_ok s" "typed s = ks @ e # rest" "e = 10 \<or> e = 13" "\<forall>c \<in> set ks. plain_key c" "length ks < keys_left"
    and "length mem = 512" "holds_line mem p line" "length line + length ks < 500"
  shows "\<exists>mem' k. readline_loop keys_left mem p 512 s =
      Inr (mem', s\<lparr>keys := k, screen := snd (foldl (edit_key (prompt_text s)) (line, screen s) ks) @ [10]\<rparr>) \<and>
    text_of mem' = fst (foldl (edit_key (prompt_text s)) (line, screen s) ks) \<and> ring_items (kbd_buf k) = rest"
  using assms
proof (induction ks arbitrary: s keys_left mem p line)
  case Nil
  note p = Nil.prems
  have l: "p = length line" "p < 512" "take p mem = line" "0 \<notin> set line" using p(6,7,8) unfolding holds_line_def by auto
  have d: "drop p mem \<noteq> []" "take p mem @ e # tl (drop p mem) = mem[p := e]" using l(2) p(6)
    by (simp_all add: upd_conv_take_nth_drop drop_Suc [symmetric] tl_drop)
  obtain k where k: "in_kernel (\<lambda>s. bindE (sys_read 0 (Some (drop p mem)) 1 s) (\<lambda>(r, rest, s). Inr ((r, rest), s))) s =
      Inr ((1, e # tl (drop p mem)), s\<lparr>keys := k\<rparr>)" "shell_ok (s\<lparr>keys := k\<rparr>)" "typed (s\<lparr>keys := k\<rparr>) = rest"
    using read_key [OF p(1) _ d(1), of e rest] p(2) by auto
  obtain n where n: "keys_left = Suc n" using p(5) by (cases keys_left) auto
  have "mem[p := 0] = line @ 0 # drop (Suc p) mem" using l(2,3) p(6) upd_conv_take_nth_drop [of p mem 0] by simp
  then have "text_of (mem[p := 0]) = line" using l(4) by simp
  then show ?case using p(3,6) l(2) k d(2)
    by (intro exI [of _ "mem[p := 0]"] exI [of _ k]) (auto simp: n line_key_def uputchar typed_def)
next
  case (Cons c ks)
  note p = Cons.prems
  have l: "p = length line" "p < 512" "take p mem = line" "0 \<notin> set line" "8 \<notin> set line"
    using p(6,7,8) unfolding holds_line_def by auto
  have d: "drop p mem \<noteq> []" "take p mem @ c # tl (drop p mem) = mem[p := c]" using l(2) p(6)
    by (simp_all add: upd_conv_take_nth_drop drop_Suc [symmetric] tl_drop)
  obtain k where k: "in_kernel (\<lambda>s. bindE (sys_read 0 (Some (drop p mem)) 1 s) (\<lambda>(r, rest, s). Inr ((r, rest), s))) s =
      Inr ((1, c # tl (drop p mem)), s\<lparr>keys := k\<rparr>)" "shell_ok (s\<lparr>keys := k\<rparr>)" "typed (s\<lparr>keys := k\<rparr>) = ks @ e # rest"
    using read_key [OF p(1) _ d(1), of c "ks @ e # rest"] p(2) by auto
  obtain n where n: "keys_left = Suc n" using p(5) by (cases keys_left) auto
  define ed where "ed = edit_key (prompt_text s) (line, screen s) c"
  have h: "holds_line (mem[p := c]) p line" "mem[p := c] ! p = c" "p + 1 < length (mem[p := c])" "length line < 512"
    using l p(6,8) by (simp_all add: holds_line_def)
  obtain p' mem' where r: "line_key (mem[p := c]) p (s\<lparr>keys := k\<rparr>) = Inr (Some p', mem', s\<lparr>keys := k, screen := snd ed\<rparr>)"
    "length mem' = 512" "holds_line mem' p' (fst ed)"
    using line_key_edits [OF k(2) h(1,2,4,3)] p(4,6) by (auto simp: ed_def)
  have len: "length (fst ed) \<le> length line + 1" by (auto simp: ed_def)
  have run: "readline_loop keys_left mem p 512 s = readline_loop n mem' p' 512 (s\<lparr>keys := k, screen := snd ed\<rparr>)"
    using k(1) r(1) l(2) d(2) by (simp add: n)
  let ?s = "s\<lparr>keys := k, screen := snd ed\<rparr>"
  have "\<exists>mem'' k'. readline_loop n mem' p' 512 ?s =
      Inr (mem'', ?s\<lparr>keys := k', screen := snd (foldl (edit_key (prompt_text ?s)) (fst ed, screen ?s) ks) @ [10]\<rparr>) \<and>
    text_of mem'' = fst (foldl (edit_key (prompt_text ?s)) (fst ed, screen ?s) ks) \<and> ring_items (kbd_buf k') = rest"
    by (rule Cons.IH) (use k(2,3) p(3-5,8) n r(2,3) len in \<open>simp_all add: typed_def\<close>)
  then show ?case by (simp add: run swap_keys ed_def [symmetric] del: edit_key.simps)
qed

text \<open>
  C13. A line typed with backspaces, \<open>ctrl + l\<close> and \<open>ctrl + u\<close> arrives in the buffer as the editor leaves it,
  the screen shows what the editor shows, and the keys behind the line are left for the next one.
\<close>

theorem readline_edits:
  assumes "shell_ok s" "typed s = ks @ e # rest" "e = 10 \<or> e = 13" "\<forall>c \<in> set ks. plain_key c"
    and "length ks < keys_left" "length mem = 512"
  shows "\<exists>mem' k. readline keys_left (Some mem) 512 s =
      Inr (mem', s\<lparr>keys := k, screen := snd (foldl (edit_key (prompt_text s)) ([], screen s) ks) @ [10]\<rparr>) \<and>
    text_of mem' = fst (foldl (edit_key (prompt_text s)) ([], screen s) ks) \<and> ring_items (kbd_buf k) = rest"
proof -
  have "ring_ok (kbd_buf (keys s))" using assms(1) by (simp add: shell_ok_def quiet_def)
  then have "length (typed s) \<le> 63" using ioq_length_bound by (simp add: typed_def length_ring_items)
  then have "length ([] :: u8 list) + length ks < 500" using assms(2) by simp
  moreover have "holds_line mem 0 []" using assms(6) by (simp add: holds_line_def)
  ultimately show ?thesis
    using readline_loop_edits [OF assms(1-6)] by (simp add: readline_def)
qed

text \<open>A user has typed \<open>a\<close>, \<open>b\<close>, a backspace, \<open>c\<close> and the return key.\<close>

definition typing :: shell where
  "typing = fs.extend
     (tiny_fs\<lparr>if_flag := True, tcbs := (\<lambda>t. (tcbs three_threads t)\<lparr>fd_table := [0, 1, 2, - 1, - 1, - 1, - 1, - 1]\<rparr>),
        thread_ready_list := [2], thread_all_list := [1, 2, 3], cur := 1, idle_thread := 3,
        keys := (keys tiny_fs)\<lparr>kbd_buf := (ioqueue_init ([97, 98, 8, 99, 13] @ replicate 59 0))\<lparr>head := 5\<rparr>\<rparr>\<rparr>)
     (shell.fields (replicate 512 0) (replicate 512 0) (slash # replicate 63 0) 0)"

lemma typing_simps [simp]:
  "console_lock typing = mutex_init" "cur typing = 1" "idle_thread typing = 3" "screen typing = []"
  "fd_table (tcbs typing t) = [0, 1, 2, - 1, - 1, - 1, - 1, - 1]" "cwd_cache typing = slash # replicate 63 0"
  "file_table typing = replicate 32 \<lparr>fd_pos = 0, fd_flag = 0, fd_inode = NULL\<rparr>"
  "kbd_buf (keys typing) = (ioqueue_init ([97, 98, 8, 99, 13] @ replicate 59 0))\<lparr>head := 5\<rparr>"
  by (simp_all add: typing_def shell.defs tiny_fs_def fs.defs terminal.defs threads.defs)

lemma typing_ok: "shell_ok typing" "typed typing = [97, 98, 8, 99, 13]"
proof -
  have "sched_wf (typing\<lparr>if_flag := False\<rparr>)"
    using three_threads_wf(1)
    by (simp add: typing_def shell.defs tiny_fs_def fs.defs terminal.defs thread_state_defs three_threads_def)
  then show "shell_ok typing"
    using text_zeros [of "[]" 63]
    by (simp add: shell_ok_def quiet_def ring_ok_def ioqueue_init_def bufsize_def mutex_free_def PIPE_FLAG_def terminated_def)
  show "typed typing = [97, 98, 8, 99, 13]"
    by (simp add: typed_def ring_items_def ioq_length_def ioqueue_init_def bufsize_def upt_rec nth_append)
qed

lemma readline_edits_witness:
  "\<exists>mem' k. readline 10 (Some (replicate 512 0)) 512 typing =
    Inr (mem', typing\<lparr>keys := k, screen := [97, 98, 8, 99, 10]\<rparr>) \<and> text_of mem' = [97, 99] \<and> ring_items (kbd_buf k) = []"
  using readline_edits [OF typing_ok(1), of "[97, 98, 8, 99]" 13 "[]" 10 "replicate 512 0"] typing_ok(2)
  by (simp add: plain_key_def)

end
