(* ===== verification/Programs.thy ===== *)
theory Programs
  imports Shell
begin

text \<open>
  The user programs (\<open>command/\<close>) and the main thread that copies them from the boot disk into the file
  system (\<open>kernel/main.c\<close>). A program is its \<open>main\<close>: its result is the status \<open>start.S\<close> passes to \<open>exit\<close>.
  Arguments are the strings behind \<open>argv\<close>.
\<close>

section \<open>Paths\<close>

definition ucwd :: "u8 list \<Rightarrow> 'a fs_scheme \<Rightarrow> (u8 list \<times> 'a fs_scheme) res" where
  "ucwd mem s = bindE (in_kernel (sys_getcwd (Some mem) 512) s) (\<lambda>(r, s). Inr (case r of Some m \<Rightarrow> m | None \<Rightarrow> mem, s))"

text \<open>\<open>if (abs_path[len - 1] != '/') abs_path[len] = '/'; strcat (abs_path, path);\<close>\<close>

definition join_path :: "u8 list \<Rightarrow> u8 list \<Rightarrow> u8 list res" where
  "join_path abs_path path =
     bindE (strlen (Some abs_path)) (\<lambda>len.
     bindE (if len = 0 then Inl Bad_access else read_at abs_path (len - 1)) (\<lambda>c.
     bindE (if c \<noteq> slash then write_at abs_path len slash else Inr abs_path) (\<lambda>abs_path.
       strcat (Some abs_path) (Some path))))"

section \<open>cat\<close>

text \<open>
  The whole buffer is written after every read, however many bytes the read answered. The bound on the
  reads is the first argument.
\<close>

fun cat_loop :: "nat \<Rightarrow> int \<Rightarrow> u8 list \<Rightarrow> 'a fs_scheme \<Rightarrow> 'a fs_scheme res" where
  "cat_loop 0 fd mem s = Inl No_return"
| "cat_loop (Suc rounds) fd mem s =
     bindE (in_kernel (\<lambda>s. bindE (sys_read fd (Some mem) 1024 s) (\<lambda>(r, m, s). Inr ((r, m), s))) s) (\<lambda>((read_bytes, mem), s).
     if read_bytes = - 1 then Inr s
     else bindE (in_kernel (sys_write 1 mem 1024) s) (\<lambda>(_, s). cat_loop rounds fd mem s))"

definition cat_main :: "nat \<Rightarrow> u8 list list \<Rightarrow> 'a fs_scheme \<Rightarrow> (int \<times> 'a fs_scheme) res" where
  "cat_main rounds argv s =
     (let argc = length argv in
      if argc > 2 then bindE (uprintf (lit_nl ''cat: cat reveives only 1 argument!'') [] s) (\<lambda>s. Inr (- 2, s))
      else if argc = 1 then
        bindE (in_kernel (\<lambda>s. bindE (sys_read 0 (Some (replicate 512 0)) 512 s) (\<lambda>(r, m, s). Inr (m, s))) s) (\<lambda>(mem, s).
        bindE (uprintf (lit ''%s'') [VStr mem] s) (\<lambda>s. Inr (0, s)))
      else
        case kmalloc 1024 s of (m, mem, s) \<Rightarrow>
        if m = NULL then bindE (uprintf (lit_nl ''cat: malloc for buf failed!'') [] s) (\<lambda>s. Inr (- 1, s))
        else
          bindE (read_at argv 1) (\<lambda>a.
          bindE (read_at a 0) (\<lambda>c.
          bindE
            (if c \<noteq> slash then
               bindE (ucwd (replicate 512 0) s) (\<lambda>(abs_path, s).
               bindE (strcat (Some abs_path) (Some (lit ''/''))) (\<lambda>abs_path.
               bindE (strcat (Some abs_path) (Some a)) (\<lambda>abs_path. Inr (abs_path, s))))
             else bindE (strcpy (Some (replicate 512 0)) (Some a)) (\<lambda>abs_path. Inr (abs_path, s))) (\<lambda>(abs_path, s).
          bindE (in_kernel (sys_open abs_path O_RDONLY) s) (\<lambda>(fd, s).
          if fd = - 1 then bindE (uprintf (lit_nl ''cat: open %s failed!'') [VStr abs_path] s) (\<lambda>s. Inr (- 1, s))
          else
            bindE (cat_loop rounds fd mem s) (\<lambda>s.
            bindE (kfree m s) (\<lambda>s.
            bindE (in_kernel (sys_close fd) s) (\<lambda>(_, s). Inr (0, s)))))))))"

section \<open>echo\<close>

text \<open>The index behind the first \<open>>\<close>.\<close>

fun redirection :: "u8 list list \<Rightarrow> nat \<Rightarrow> nat option res" where
  "redirection [] i = Inr None"
| "redirection (a # argv) i =
     bindE (strcmp (Some a) (Some (lit ''>''))) (\<lambda>r. if r = 0 then Inr (Some (i + 1)) else redirection argv (i + 1))"

definition uwrite :: "int \<Rightarrow> u8 list \<Rightarrow> nat \<Rightarrow> 'a fs_scheme \<Rightarrow> 'a fs_scheme res" where
  "uwrite fd mem n s = bindE (in_kernel (sys_write fd mem (of_nat n)) s) (\<lambda>(_, s). Inr s)"

definition echo_arg :: "int \<Rightarrow> u8 list \<Rightarrow> 'a fs_scheme \<Rightarrow> 'a fs_scheme res" where
  "echo_arg fd a s =
     bindE (strlen (Some a)) (\<lambda>n. bindE (uwrite fd a n s) (uwrite fd (lit '' '') 1))"

definition echo_main :: "u8 list list \<Rightarrow> 'a fs_scheme \<Rightarrow> (int \<times> 'a fs_scheme) res" where
  "echo_main argv s =
     (let argc = length argv in
      if argc = 0 then
        bindE (uprintf (lit_nl ''echo: echo needs at least 1 argument!'') [] s) (\<lambda>s.
        bindE (uprintf (butlast (lit_nl ''Usage:'') @ butlast (lit_nl ''    echo something'') @ lit_nl ''    echo something > file'') [] s)
          (\<lambda>s. Inr (- 1, s)))
      else if argc = 1 then bindE (uprintf (lit_nl '''') [] s) (\<lambda>s. Inr (0, s))
      else
        bindE (redirection argv 0) (\<lambda>file_idx.
        bindE
          (case file_idx of
             None \<Rightarrow> Inr (1, [], s)
           | Some k \<Rightarrow>
               bindE (read_at argv k) (\<lambda>a.
               bindE (read_at a 0) (\<lambda>c.
               bindE
                 (if c \<noteq> slash then
                    bindE (ucwd (replicate 512 0) s) (\<lambda>(abs_path, s).
                    bindE (join_path abs_path a) (\<lambda>abs_path. Inr (abs_path, s)))
                  else bindE (strcpy (Some (replicate 512 0)) (Some a)) (\<lambda>abs_path. Inr (abs_path, s))) (\<lambda>(abs_path, s).
               bindE (in_kernel (sys_open abs_path (O_CREAT OR O_RDWD)) s) (\<lambda>(fd, s). Inr (fd, abs_path, s)))))) (\<lambda>(fd, abs_path, s).
        if fd = - 1 then bindE (uprintf (lit_nl ''echo: open file %s failed!'') [VStr abs_path] s) (\<lambda>s. Inr (0, s))
        else
          let args_to_print = (case file_idx of None \<Rightarrow> argc | Some k \<Rightarrow> k - 1) in
          bindE (foldE (echo_arg fd) (drop 1 (take args_to_print argv)) s) (\<lambda>s.
          bindE (uwrite fd (lit_nl '''') 1 s) (\<lambda>s.
          bindE (if file_idx \<noteq> Some 1 then bindE (in_kernel (sys_close fd) s) (\<lambda>(_, s). Inr s) else Inr s) (\<lambda>s.
            Inr (0, s)))))))"

section \<open>touch and the two demonstrations\<close>

definition touch_main :: "u8 list list \<Rightarrow> 'a fs_scheme \<Rightarrow> (int \<times> 'a fs_scheme) res" where
  "touch_main argv s =
     (if length argv \<noteq> 2 then
        bindE (uprintf (lit_nl ''touch: touch needs 2 argument but only receives 1 argument!'') [] s) (\<lambda>s. Inr (- 1, s))
      else
        bindE (ucwd (replicate 512 0) s) (\<lambda>(touch_path, s).
        bindE (read_at argv 1) (\<lambda>a.
        bindE (join_path touch_path a) (\<lambda>touch_path.
        bindE (strcmp (Some (lit ''/'')) (Some touch_path)) (\<lambda>r.
        if r \<noteq> 0 then
          bindE (in_kernel (sys_open touch_path (O_CREAT OR O_RDWD)) s) (\<lambda>(fd, s).
          bindE (if fd \<noteq> - 1 then Inr s else uprintf (lit_nl ''touch: create file %s failed!'') [VStr a] s) (\<lambda>s.
          bindE (uwrite fd (lit '' '') 1 s) (\<lambda>s.
          bindE (in_kernel (sys_close fd) s) (\<lambda>(_, s). Inr (if fd \<noteq> - 1 then 0 else - 1, s)))))
        else Inr (- 1, s))))))"

definition prog_no_arg :: "'a fs_scheme \<Rightarrow> (int \<times> 'a fs_scheme) res" where
  "prog_no_arg s =
     bindE (uprintf (lit_nl ''Hello World from first user_program on JackOS.'') [] s) (\<lambda>s.
     bindE (uprintf (lit_nl ''My name is Jack, birthday: 0x%x'') [VInt 0x20010107] s) (\<lambda>s. Inr (0, s)))"

text \<open>
  \<open>prog_pipe\<close> up to \<open>fork\<close>, then the parent up to its \<open>wait\<close>, and the child. The result is the status.
\<close>

definition prog_pipe :: "'a fs_scheme \<Rightarrow> (int list \<times> int \<times> 'a fs_scheme) res" where
  "prog_pipe s =
     bindE (in_kernel (\<lambda>s. bindE (sys_pipe s) (\<lambda>(r, fds, s). Inr (if r = 0 then fds else [- 1, 0], s))) s) (\<lambda>(fd, s).
     bindE (in_kernel sys_fork s) (\<lambda>(pid, s). Inr (fd, pid, s)))"

definition prog_pipe_parent :: "int list \<Rightarrow> 'a fs_scheme \<Rightarrow> (int \<times> 'a fs_scheme) res" where
  "prog_pipe_parent fd s =
     bindE (in_kernel (sys_close (fd ! 0)) s) (\<lambda>(_, s).
     bindE (sprintf (replicate 40 0) (lit ''Hello from father, father pid: %d'') [VInt (scast (sys_getpid s))]) (\<lambda>(str, _).
     bindE (strlen (Some str)) (\<lambda>n.
     bindE (uwrite (fd ! 1) str n s) (\<lambda>s.
     bindE (uprintf (lit_nl ''Father process, pid: %d'') [VInt (scast (sys_getpid s))] s) (\<lambda>s. Inr (8, s))))))"

definition prog_pipe_child :: "int list \<Rightarrow> 'a fs_scheme \<Rightarrow> (int \<times> 'a fs_scheme) res" where
  "prog_pipe_child fd s =
     bindE (in_kernel (sys_close (fd ! 1)) s) (\<lambda>(_, s).
     bindE (in_kernel (\<lambda>s. bindE (sys_read (fd ! 0) (Some (replicate 40 0)) 40 s) (\<lambda>(r, m, s). Inr (m, s))) s) (\<lambda>(mem, s).
     bindE (uprintf (lit_nl ''Child process, pid: %d'') [VInt (scast (sys_getpid s))] s) (\<lambda>s.
     bindE (uprintf (butlast (lit ''Receiving buf from parent: '') @ 34 # butlast (lit ''%s'') @ [34, 10, 0]) [VStr mem] s) (\<lambda>s. Inr (9, s)))))"

text \<open>
  \<open>prog_with_arg\<close> in the same parts; the delay of the parent is left out. \<open>argv\<close> is the address of the
  pointers to the arguments.
\<close>

definition prog_with_arg :: "u8 list list \<Rightarrow> 'a fs_scheme \<Rightarrow> (int \<times> 'a fs_scheme) res" where
  "prog_with_arg args s =
     bindE (uprintf (lit_nl ''argc: %d'') [VInt (of_nat (length args))] s) (\<lambda>s.
     bindE (foldE (\<lambda>(arg_idx, a). uprintf (lit_nl ''argv[%d] = %s'') [VInt (of_nat arg_idx), VStr a]) (enumerate 0 args) s) (\<lambda>s.
       in_kernel sys_fork s))"

definition prog_with_arg_parent :: "'a fs_scheme \<Rightarrow> (int \<times> 'a fs_scheme) res" where
  "prog_with_arg_parent s =
     bindE (uprintf (10 # lit_nl ''Father process, pid: %d'') [VInt (scast (sys_getpid s))] s) (\<lambda>s.
     bindE (uprintf (lit_nl ''Process List:'') [] s) (\<lambda>s.
     bindE (in_kernel_void (sys_ps (\<lambda>bytes s. bindE (sys_write 1 bytes (of_nat (length bytes)) s) (\<lambda>(_, s). Inr s))) s) (\<lambda>s.
       Inr (0, s))))"

definition prog_with_arg_child :: "addr \<Rightarrow> addr list \<Rightarrow> u8 list list \<Rightarrow> 'a fs_scheme \<Rightarrow> (int option \<times> 'a fs_scheme) res" where
  "prog_with_arg_child argv ptrs args s =
     bindE (uprintf (lit_nl ''Child process, pid: %d'') [VInt (scast (sys_getpid s))] s) (\<lambda>s.
     bindE (uprintf (lit_nl ''Run now'') [] s) (\<lambda>s.
     bindE (read_at args 1) (\<lambda>a.
     bindE (read_at a 0) (\<lambda>c.
     if c \<noteq> slash then
       bindE (ucwd (replicate 512 0) s) (\<lambda>(abs_path, s).
       bindE (strcat (Some abs_path) (Some (lit ''/''))) (\<lambda>abs_path.
       bindE (strcat (Some abs_path) (Some a)) (\<lambda>abs_path.
         in_kernel (sys_execv abs_path argv ptrs) s)))
     else in_kernel (sys_execv a argv ptrs) s))))"

section \<open>The main thread\<close>

text \<open>One sector of the program, read from the boot disk and appended to the file; \<open>False\<close> if that fails.\<close>

fun copy_program :: "nat \<Rightarrow> int \<Rightarrow> u32 \<Rightarrow> u8 list \<Rightarrow> 'a fs_scheme \<Rightarrow> (bool \<times> 'a fs_scheme) res" where
  "copy_program 0 fd lba_to_read io_buf s = Inr (True, s)"
| "copy_program (Suc n) fd lba_to_read io_buf s =
     bindE (memset (Some io_buf) (- 1) 512) (\<lambda>io_buf.
     bindE (ide_read (hd_addr s 0 0) lba_to_read io_buf 1 s) (\<lambda>io_buf.
     bindE (sys_write fd io_buf 512 s) (\<lambda>(r, s).
     if r = - 1 then Inr (False, s) else copy_program n fd (lba_to_read + 1) io_buf s)))"

text \<open>\<open>bool\<close> is \<open>int\<close>: a program that cannot be opened answers \<open>-1\<close>, one that cannot be written 0.\<close>

definition write_user_prog :: "u32 \<Rightarrow> u32 \<Rightarrow> u8 list \<Rightarrow> 'a fs_scheme \<Rightarrow> (int \<times> 'a fs_scheme) res" where
  "write_user_prog file_size lba pathname s =
     (case kmalloc 512 s of (m, io_buf, s) \<Rightarrow>
      if m = NULL then Inr (0, s)
      else
        bindE (sys_open pathname (O_CREAT OR O_RDWD) s) (\<lambda>(fd, s).
        if fd = - 1 then Inr (- 1, s)
        else
          bindE (copy_program (unat (DIV_CEILING file_size 512)) fd lba io_buf s) (\<lambda>(ok, s).
          if \<not> ok then Inr (0, s)
          else bindE (sys_close fd s) (\<lambda>(_, s). bindE (kfree m s) (\<lambda>s. Inr (1, s))))))"

definition user_programs :: "(u32 \<times> u32 \<times> u8 list) list" where
  "user_programs =
     [(14956, 30000, lit ''/prog_no_arg''), (15292, 35000, lit ''/prog_with_arg''), (15724, 40000, lit ''/cat''),
      (15940, 45000, lit ''/prog_pipe''), (16148, 50000, lit ''/touch''), (16516, 55000, lit ''/echo'')]"

definition write_all_user_prog :: "'a fs_scheme \<Rightarrow> 'a fs_scheme res" where
  "write_all_user_prog s =
     bindE (in_kernel (sys_open (lit ''/test.txt'') (O_CREAT OR O_RDWD)) s) (\<lambda>(fd, s).
     bindE (if fd = - 1 then Inr s else bindE (sys_write fd (lit_nl ''Hello World!'') 13 s) (\<lambda>(_, s). Inr s)) (\<lambda>s.
       foldE (\<lambda>(file_size, lba, pathname) s.
         bindE (write_user_prog file_size lba pathname s) (\<lambda>(_, s). Inr s)) user_programs s))"

text \<open>What \<open>main\<close> does after \<open>init_all\<close>: the shell's first prompt is its own last message.\<close>

definition main_start :: "'a fs_scheme \<Rightarrow> 'a fs_scheme res" where
  "main_start s =
     bindE (write_all_user_prog s) (\<lambda>s.
     bindE (sys_clear s) (\<lambda>s.
     bindE (kprintf (lit ''[Jack@JackOS /]$ '') [] s) (\<lambda>s. thread_exit (running_thread s) True s)))"

text \<open>
  The first process: its child becomes the shell, and the parent waits for the orphans it adopts, here once
  for each element of the list. \<open>await\<close> is as in \<open>cmd_execute\<close>; a \<open>wait\<close> that fails leaves the status alone.
\<close>

definition init_parent ::
  "('a fs_scheme \<Rightarrow> ((u32 \<times> u32) option \<times> 'a fs_scheme) res) \<Rightarrow> 'b list \<Rightarrow> u32 \<Rightarrow> u32 \<Rightarrow> 'a fs_scheme \<Rightarrow> 'a fs_scheme res" where
  "init_parent await rounds ret_pid code s =
     bindE (uprintf (lit_nl ''I am father, my pid is %d, my child pid is %d'') [VInt (scast (sys_getpid s)), VInt ret_pid] s) (\<lambda>s.
     bindE (foldE (\<lambda>_ (code, s).
       bindE (await s) (\<lambda>(r, s).
       let (child_pid, code) = (case r of Some (p, c) \<Rightarrow> (p, c) | None \<Rightarrow> (- 1, code)) in
       bindE (uprintf (lit_nl ''From init [pid: 1]: adopting a child [pid: %d], status = %d'') [VInt child_pid, VInt code] s) (\<lambda>s.
         Inr (code, s)))) rounds (code, s)) (\<lambda>(_, s). Inr s))"

definition init_child ::
  "('a shell_scheme \<Rightarrow> ((u32 \<times> u32) option \<times> 'a shell_scheme) res) \<Rightarrow> nat list \<Rightarrow> 'a shell_scheme \<Rightarrow> 'a shell_scheme res" where
  "init_child await lines s =
     bindE (uprintf (lit_nl ''I am child, my pid is %d, ret pid is %d'') [VInt (scast (sys_getpid s)), VInt 0] s)
       (wish await lines)"

end
