(* ===== verification/Fs_Types.thy ===== *)
theory Fs_Types
  imports Fs_Calls
begin

text \<open>
  The types of the C declarations as an invariant of the state: the arrays keep their lengths, the
  sectors have 512 bytes, no object lies at \<open>NULL\<close>, and descriptors are indices of the global
  table or \<open>-1\<close>. The calls of the file system are followed with weakest preconditions: \<open>post m Q\<close> says that
  \<open>Q\<close> holds of what \<open>m\<close> returns, if it returns, and the collection \<open>wp\<close> has one rule for every operation.
\<close>

section \<open>Weakest preconditions\<close>

definition post :: "'x res \<Rightarrow> ('x \<Rightarrow> bool) \<Rightarrow> bool" where
  "post m Q \<longleftrightarrow> (\<forall>x. m = Inr x \<longrightarrow> Q x)"

named_theorems wp \<open>weakest preconditions of the operations\<close>

lemma postI: "(\<And>x. m = Inr x \<Longrightarrow> Q x) \<Longrightarrow> post m Q"
  by (simp add: post_def)

lemma postD: "post m Q \<Longrightarrow> m = Inr x \<Longrightarrow> Q x"
  by (simp add: post_def)

lemma post_any: "(\<And>x. Q x) \<Longrightarrow> post m Q"
  by (simp add: post_def)

lemma post_return [simp]: "post (Inr x) Q \<longleftrightarrow> Q x" "post (Inl e) Q"
  by (simp_all add: post_def)

lemma post_bind [wp]: "post m (\<lambda>x. post (f x) Q) \<Longrightarrow> post (bindE m f) Q"
  by (auto simp: post_def return_iff)

lemma post_Inr [wp]: "Q x \<Longrightarrow> post (Inr x) Q" by simp
lemma post_Inl [wp]: "post (Inl e) Q" by simp

lemma post_asserting [wp]: "(P \<Longrightarrow> post m Q) \<Longrightarrow> post (asserting P m) Q"
  by (simp add: post_def asserting_def)

lemma post_if [wp]: "(c \<Longrightarrow> post m Q) \<Longrightarrow> (\<not> c \<Longrightarrow> post n Q) \<Longrightarrow> post (if c then m else n) Q"
  by simp

lemma post_option [wp]:
  "(r = None \<Longrightarrow> post m Q) \<Longrightarrow> (\<And>x. r = Some x \<Longrightarrow> post (f x) Q) \<Longrightarrow> post (case r of None \<Rightarrow> m | Some x \<Rightarrow> f x) Q"
  by (cases r) simp_all

lemma post_prod [wp]: "(\<And>a b. p = (a, b) \<Longrightarrow> post (f a b) Q) \<Longrightarrow> post (case p of (a, b) \<Rightarrow> f a b) Q"
  by (cases p) simp

lemma post_prod2 [wp]: "(\<And>a b. p = (a, b) \<Longrightarrow> post (f a b z) Q) \<Longrightarrow> post ((case p of (a, b) \<Rightarrow> f a b) z) Q"
  by (cases p) simp

lemma post_foldE:
  assumes "P s" "\<And>x s. P s \<Longrightarrow> post (f x s) P" "\<And>t. P t \<Longrightarrow> Q t"
  shows "post (foldE f xs s) Q"
  using foldE_invariant [of f xs s _ P] assms by (auto simp: post_def)

lemma post_mono: "post m P \<Longrightarrow> (\<And>x. P x \<Longrightarrow> Q x) \<Longrightarrow> post m Q"
  by (auto simp: post_def)

section \<open>The types\<close>

definition descriptor :: "int \<Rightarrow> bool" where "descriptor fd \<longleftrightarrow> - 1 \<le> fd \<and> fd < int MAX_FILE_OPEN"

definition typed_fds :: "int list \<Rightarrow> bool" where
  "typed_fds fds \<longleftrightarrow> length fds = MAX_FILE_OPEN_PER_PROC \<and> (\<forall>fd \<in> set fds. descriptor fd)"

definition typed_parts :: "(addr \<Rightarrow> partition) \<Rightarrow> bool" where
  "typed_parts ps \<longleftrightarrow> (\<forall>p. wf_bitmap (block_bitmap (ps p)) \<and> wf_bitmap (inode_bitmap (ps p)))"

definition typed_ring :: "ioqueue \<Rightarrow> bool" where
  "typed_ring q \<longleftrightarrow> length (buf q) = bufsize \<and> head q < bufsize \<and> tail q < bufsize"

definition fs_typed :: "'a fs_scheme \<Rightarrow> bool" where
  "fs_typed s \<longleftrightarrow>
     (\<forall>d. disk_ok (disk s d)) \<and> typed_parts (partitions s) \<and>
     inodes s NULL = None \<and> (\<forall>i \<in> ran (inodes s). length (i_sectors i) = 13) \<and>
     dirs s NULL = None \<and> (\<forall>d \<in> ran (dirs s). length (dir_buf d) = SECTOR_SIZE) \<and>
     length (file_table s) = MAX_FILE_OPEN \<and> (\<forall>t. typed_fds (fd_table (tcbs s t))) \<and>
     (\<forall>q \<in> ran (pipes s). typed_ring q) \<and> typed_ring (kbd_buf (keys s))"

text \<open>The rest of the state does not matter.\<close>

lemma fs_typed_frame [simp]:
  "fs_typed (s\<lparr>if_flag := f\<rparr>) = fs_typed s" "fs_typed (s\<lparr>thread_ready_list := ts\<rparr>) = fs_typed s"
  "fs_typed (s\<lparr>thread_all_list := ts\<rparr>) = fs_typed s" "fs_typed (s\<lparr>cur := t\<rparr>) = fs_typed s"
  "fs_typed (s\<lparr>cr3 := c\<rparr>) = fs_typed s" "fs_typed (s\<lparr>tss_esp0 := c\<rparr>) = fs_typed s"
  "fs_typed (s\<lparr>pmem := m\<rparr>) = fs_typed s" "fs_typed (s\<lparr>kernel_pool := p\<rparr>) = fs_typed s"
  "fs_typed (s\<lparr>user_pool := p\<rparr>) = fs_typed s" "fs_typed (s\<lparr>kernel_vaddr := v\<rparr>) = fs_typed s"
  "fs_typed (s\<lparr>v2p := vp\<rparr>) = fs_typed s" "fs_typed (s\<lparr>k_block_descs := ds\<rparr>) = fs_typed s"
  "fs_typed (s\<lparr>arenas := as\<rparr>) = fs_typed s" "fs_typed (s\<lparr>pid_bitmap := pb\<rparr>) = fs_typed s"
  "fs_typed (s\<lparr>pid_mutex := l\<rparr>) = fs_typed s" "fs_typed (s\<lparr>thread_stacks := st\<rparr>) = fs_typed s"
  "fs_typed (s\<lparr>intr_stacks := fr\<rparr>) = fs_typed s" "fs_typed (s\<lparr>bits_at := ba\<rparr>) = fs_typed s"
  "fs_typed (s\<lparr>console_lock := l\<rparr>) = fs_typed s" "fs_typed (s\<lparr>screen := x\<rparr>) = fs_typed s"
  "fs_typed (s\<lparr>heap_next := h\<rparr>) = fs_typed s" "fs_typed (s\<lparr>live := lv\<rparr>) = fs_typed s"
  by (simp_all add: fs_typed_def)

lemma fs_typed_upd_tcb [simp]:
  "fs_typed s \<Longrightarrow> typed_fds (fd_table (f (tcbs s t))) \<Longrightarrow> fs_typed (upd_tcb t f s)"
  by (simp add: fs_typed_def upd_tcb_def)

lemma fs_typed_fds: "fs_typed s \<Longrightarrow> typed_fds (fd_table (tcbs s t))"
  by (simp add: fs_typed_def)

lemma fs_typed_upd_same [simp]:
  "(\<And>p. fd_table (f p) = fd_table p) \<Longrightarrow> fs_typed (upd_tcb t f s) = fs_typed s"
  by (auto simp: fs_typed_def upd_tcb_def)

lemma fs_typed_set_inode [simp]:
  "fs_typed s \<Longrightarrow> a \<noteq> NULL \<Longrightarrow> length (i_sectors i) = 13 \<Longrightarrow> fs_typed (set_inode a i s)"
  by (auto simp: fs_typed_def set_inode_def ran_def)

lemma fs_typed_set_dir [simp]:
  "fs_typed s \<Longrightarrow> a \<noteq> NULL \<Longrightarrow> length (dir_buf d) = SECTOR_SIZE \<Longrightarrow> fs_typed (set_dir a d s)"
  by (auto simp: fs_typed_def set_dir_def ran_def)

lemma fs_typed_upd_part [simp]:
  "fs_typed s \<Longrightarrow> wf_bitmap (block_bitmap (f (partitions s p))) \<Longrightarrow> wf_bitmap (inode_bitmap (f (partitions s p))) \<Longrightarrow>
   fs_typed (upd_part p f s)"
  by (auto simp: fs_typed_def upd_part_def typed_parts_def)

lemma fs_typed_bitmaps:
  "fs_typed s \<Longrightarrow> wf_bitmap (block_bitmap (partitions s p))" "fs_typed s \<Longrightarrow> wf_bitmap (inode_bitmap (partitions s p))"
  by (simp_all add: fs_typed_def typed_parts_def)

section \<open>Switching threads and locks\<close>

lemma typed_intr [simp]:
  "fs_typed (snd (intr_disable s)) = fs_typed s" "fs_typed (snd (intr_enable s)) = fs_typed s"
  "fs_typed (intr_set_status st s) = fs_typed s"
  by (simp_all add: snd_intr_disable snd_intr_enable intr_set_status_eq)


section \<open>Operations without a state of their own\<close>

lemmas pure_wp [wp] =
  post_any [of _ "strlen t" for t] post_any [of _ "strcmp t u" for t u] post_any [of _ "strcat t u" for t u]
  post_any [of _ "strcpy t u" for t u] post_any [of _ "strrchr t c" for t c] post_any [of _ "path_parse t nm" for t nm]
  post_any [of _ "path_depth_cnt t nm" for t nm] post_any [of _ "bitmap_scan b n" for b n]
  post_any [of _ "inode_locate p no s" for p no s] post_any [of _ "find_open no as s" for no as s]
  post_any [of _ "all_blocks h i s" for h i s] post_any [of _ "ide_read_table h lba ws s" for h lba ws s]
  post_any [of _ "create_dir_entry nm no ty de" for nm no ty de] post_any [of _ "entry_at mem k" for mem k]
  post_any [of _ "dir_entry_per_sec n" for n] post_any [of _ "delete_scan no mem n k cnt fst" for no mem n k cnt "fst"]
  post_any [of _ "count_indirect ws" for ws] post_any [of _ "search_entries nm mem n k" for nm mem n k]
  post_any [of _ "search_blocks h nm n ws mem s" for h nm n ws mem s] post_any [of _ "free_slot mem n k" for mem n k]
  post_any [of _ "read_entries e d mem n k c" for e d mem n k c] post_any [of _ "dir_is_empty d s" for d s]
  postI [of "next_component q nm" for q nm] post_any [of _ "root_path t" for t]
  postI [of "read_at xs k" for xs k]

lemma wp_memset [wp]: "(\<And>m'. length m' = length m \<Longrightarrow> Q m') \<Longrightarrow> post (memset (Some m) v n) Q"
  by (auto simp: post_def split: if_splits)

lemma wp_memcpy [wp]: "(\<And>m'. length m' = length m \<Longrightarrow> Q m') \<Longrightarrow> post (memcpy (Some m) src n) Q"
  by (cases src) (auto simp: post_def split: if_splits, simp add: memcpy_def)

lemma wp_memcpy_at [wp]: "(\<And>m'. length m' = length m \<Longrightarrow> Q m') \<Longrightarrow> post (memcpy_at m off src n) Q"
  by (auto simp: post_def memcpy_at_def return_iff split: if_splits)

lemma wp_memset_at [wp]: "(\<And>m'. length m' = length m \<Longrightarrow> Q m') \<Longrightarrow> post (memset_at m off c n) Q"
  by (auto simp: post_def memset_at_def return_iff split: if_splits)

lemma wp_write_at [wp]: "(k < length xs \<Longrightarrow> Q (xs[k := x])) \<Longrightarrow> post (write_at xs k x) Q"
  by (simp add: write_at_def)

lemma wp_ide_read [wp]: "(\<And>m'. length m' = length m \<Longrightarrow> Q m') \<Longrightarrow> post (ide_read h lba m k s) Q"
  unfolding ide_read_def by (auto intro!: wp)

lemma wp_bitmap_set [wp]:
  "(\<And>b'. length (bits b') = length (bits b) \<Longrightarrow> btmp_byte_len b' = btmp_byte_len b \<Longrightarrow> Q b') \<Longrightarrow>
   post (bitmap_set b k v) Q"
  unfolding bitmap_set_def Let_def by (auto intro!: wp)

lemma fs_typed_objects:
  assumes "fs_typed s"
  shows "inodes s a = Some i \<Longrightarrow> a \<noteq> NULL \<and> length (i_sectors i) = 13"
    "dirs s a = Some d \<Longrightarrow> a \<noteq> NULL \<and> length (dir_buf d) = SECTOR_SIZE"
    "pipes s a = Some q \<Longrightarrow> typed_ring q"
  using assms by (auto simp: fs_typed_def dest: ranI)

lemma wp_inode_at [wp]:
  "fs_typed s \<Longrightarrow> (\<And>i. a \<noteq> NULL \<Longrightarrow> length (i_sectors i) = 13 \<Longrightarrow> Q i) \<Longrightarrow> post (inode_at a s) Q"
  by (auto simp: inode_at_def post_def dest: fs_typed_objects(1) split: option.splits)

lemma wp_dir_at [wp]:
  "fs_typed s \<Longrightarrow> (\<And>d. a \<noteq> NULL \<Longrightarrow> length (dir_buf d) = SECTOR_SIZE \<Longrightarrow> Q d) \<Longrightarrow> post (dir_at a s) Q"
  by (auto simp: dir_at_def post_def dest: fs_typed_objects(2) split: option.splits)

lemma fs_typed_kmalloc [dest!]: "kmalloc n s = (a, m, t) \<Longrightarrow> fs_typed s \<Longrightarrow> fs_typed t"
  by (auto simp: kmalloc_def split: list.splits if_splits)

lemma fs_typed_forget:
  "fs_typed s \<Longrightarrow> fs_typed (s\<lparr>live := l, inodes := (inodes s)(a := None), dirs := (dirs s)(a := None)\<rparr>)"
  by (auto simp: fs_typed_def ran_def)

lemma wp_kfree [wp]: "fs_typed s \<Longrightarrow> (\<And>t. fs_typed t \<Longrightarrow> Q t) \<Longrightarrow> post (kfree a s) Q"
  unfolding kfree_def by (intro wp) (simp add: fs_typed_forget)

lemma fs_typed_set_pgdir [simp]: "fs_typed (set_pgdir d s) = fs_typed s"
  by (simp add: set_pgdir_def)

lemma wp_ide_write [wp]:
  "fs_typed s \<Longrightarrow> (\<And>t. fs_typed t \<Longrightarrow> Q t) \<Longrightarrow> post (ide_write h lba m n s) Q"
  by (auto simp: ide_write_def post_def return_iff fs_typed_def disk_ok_put split: if_splits)

lemma wp_ide_write_table [wp]:
  "fs_typed s \<Longrightarrow> (\<And>t. fs_typed t \<Longrightarrow> Q t) \<Longrightarrow> post (ide_write_table h lba ws s) Q"
  unfolding ide_write_table_def by (rule wp)

section \<open>Bitmaps and inodes\<close>

lemma wf_bitmap_same:
  "wf_bitmap b \<Longrightarrow> length (bits b') = length (bits b) \<Longrightarrow> btmp_byte_len b' = btmp_byte_len b \<Longrightarrow> wf_bitmap b'"
  by (simp add: wf_bitmap_def)

lemma fs_typed_bitmap_set [simp]:
  assumes "fs_typed s"
  shows "length (bits b) = length (bits (block_bitmap (partitions s p))) \<Longrightarrow>
      btmp_byte_len b = btmp_byte_len (block_bitmap (partitions s p)) \<Longrightarrow>
      fs_typed (upd_part p (\<lambda>q. q\<lparr>block_bitmap := b\<rparr>) s)"
    "length (bits b) = length (bits (inode_bitmap (partitions s p))) \<Longrightarrow>
      btmp_byte_len b = btmp_byte_len (inode_bitmap (partitions s p)) \<Longrightarrow>
      fs_typed (upd_part p (\<lambda>q. q\<lparr>inode_bitmap := b\<rparr>) s)"
  using assms fs_typed_bitmaps [OF assms, of p] by (auto intro!: fs_typed_upd_part simp: wf_bitmap_def)

lemma fs_typed_open_inodes [simp]: "fs_typed (upd_part p (\<lambda>q. q\<lparr>open_inodes := f q\<rparr>) s) = fs_typed s"
  by (auto simp: fs_typed_def upd_part_def typed_parts_def split: if_splits)

lemma wp_inode_bitmap_alloc [wp]:
  "fs_typed s \<Longrightarrow> (\<And>r t. fs_typed t \<Longrightarrow> Q (r, t)) \<Longrightarrow> post (inode_bitmap_alloc p s) Q"
  unfolding inode_bitmap_alloc_def by (auto intro!: wp)

lemma wp_block_bitmap_alloc [wp]:
  "fs_typed s \<Longrightarrow> (\<And>r t. fs_typed t \<Longrightarrow> Q (r, t)) \<Longrightarrow> post (block_bitmap_alloc p s) Q"
  unfolding block_bitmap_alloc_def by (auto intro!: wp)

lemma wp_bitmap_sync [wp]:
  "fs_typed s \<Longrightarrow> (\<And>t. fs_typed t \<Longrightarrow> Q t) \<Longrightarrow> post (bitmap_sync p k w s) Q"
  unfolding bitmap_sync_def Let_def by (auto intro!: wp)

lemma wp_inode_sync [wp]:
  "fs_typed s \<Longrightarrow> (\<And>t. fs_typed t \<Longrightarrow> Q t) \<Longrightarrow> post (inode_sync p i mem s) Q"
  unfolding inode_sync_def Let_def by (auto intro!: wp)

lemma wp_inode_delete [wp]:
  "fs_typed s \<Longrightarrow> (\<And>t. fs_typed t \<Longrightarrow> Q t) \<Longrightarrow> post (inode_delete p no mem s) Q"
  unfolding inode_delete_def Let_def by (auto intro!: wp)

lemma length_words_at [simp]: "length (words_at bs k n) = n" by (simp add: words_at_def)

lemma fs_typed_set_inode_of [simp]: "fs_typed s \<Longrightarrow> a \<noteq> NULL \<Longrightarrow> fs_typed (set_inode a ((inode_of bs)\<lparr>i_open_cnt := c\<rparr>) s)"
  by (rule fs_typed_set_inode) (simp_all add: inode_of_def)

lemma wp_memcpy_ptr [wp]: "(\<And>m'. a \<noteq> NULL \<Longrightarrow> Q m') \<Longrightarrow> post (memcpy (ptr a m) src n) Q"
  by (auto simp: post_def ptr_def memcpy_def asserting_def split: if_splits)

lemma wp_memset_ptr [wp]: "(\<And>m'. a \<noteq> NULL \<Longrightarrow> Q m') \<Longrightarrow> post (memset (ptr a m) v n) Q"
  by (auto simp: post_def ptr_def memset_def asserting_def split: if_splits)

lemma wp_inode_load [wp]:
  "fs_typed s \<Longrightarrow> (\<And>a t. fs_typed t \<Longrightarrow> Q (a, t)) \<Longrightarrow> post (inode_load p no s) Q"
  unfolding inode_load_def Let_def by (auto intro!: wp)

lemma wp_inode_open [wp]:
  "fs_typed s \<Longrightarrow> (\<And>a t. fs_typed t \<Longrightarrow> Q (a, t)) \<Longrightarrow> post (inode_open p no s) Q"
  unfolding inode_open_def by (auto intro!: wp)

lemma wp_inode_close [wp]:
  "fs_typed s \<Longrightarrow> (\<And>t. fs_typed t \<Longrightarrow> Q t) \<Longrightarrow> post (inode_close a s) Q"
  unfolding inode_close_def Let_def intr_disable_eq by (auto intro!: wp)

lemma wp_release_block [wp]:
  "fs_typed s \<Longrightarrow> (\<And>t. fs_typed t \<Longrightarrow> Q t) \<Longrightarrow> post (release_block p lba s) Q"
  unfolding release_block_def Let_def by (auto intro!: wp)

lemma wp_release_blocks [wp]:
  "fs_typed s \<Longrightarrow> (\<And>t. fs_typed t \<Longrightarrow> Q t) \<Longrightarrow> post (foldE (release_block p) lbas s) Q"
  by (rule post_foldE [where P = fs_typed]) (auto intro: wp)

lemma wp_inode_release [wp]:
  "fs_typed s \<Longrightarrow> (\<And>t. fs_typed t \<Longrightarrow> Q t) \<Longrightarrow> post (inode_release p no s) Q"
  unfolding inode_release_def Let_def by (auto intro!: wp)

section \<open>Directories\<close>

lemma wp_dir_open [wp]:
  "fs_typed s \<Longrightarrow> (\<And>d t. fs_typed t \<Longrightarrow> Q (d, t)) \<Longrightarrow> post (dir_open p no s) Q"
  unfolding dir_open_def by (auto intro!: wp simp: SECTOR_SIZE_def)

lemma wp_dir_close [wp]:
  "fs_typed s \<Longrightarrow> (\<And>t. fs_typed t \<Longrightarrow> Q t) \<Longrightarrow> post (dir_close d s) Q"
  unfolding dir_close_def by (auto intro!: wp)

lemma wp_delete_block [wp]:
  "fs_typed s \<Longrightarrow> (\<And>t. fs_typed t \<Longrightarrow> Q t) \<Longrightarrow> post (delete_block p di blocks k s) Q"
  unfolding delete_block_def Let_def by (auto intro!: wp)

lemma wp_delete_found [wp]:
  "fs_typed s \<Longrightarrow> (\<And>t. fs_typed t \<Longrightarrow> Q t) \<Longrightarrow> post (delete_found p di blocks k mem j cnt first s) Q"
  unfolding delete_found_def Let_def by (auto intro!: wp)

lemma wp_delete_blocks [wp]:
  "fs_typed s \<Longrightarrow> (\<And>r t. fs_typed t \<Longrightarrow> Q (r, t)) \<Longrightarrow> post (delete_blocks p di no per_sec blocks n k mem s) Q"
  by (induction n arbitrary: k mem) (auto intro!: wp)

lemma wp_delete_dir_entry [wp]:
  "fs_typed s \<Longrightarrow> (\<And>r t. fs_typed t \<Longrightarrow> Q (r, t)) \<Longrightarrow> post (delete_dir_entry p d no mem s) Q"
  unfolding delete_dir_entry_def by (auto intro!: wp)

lemma wp_search_dir_entry [wp]:
  "fs_typed s \<Longrightarrow> (\<And>r e t. fs_typed t \<Longrightarrow> Q (r, e, t)) \<Longrightarrow> post (search_dir_entry p d nm e s) Q"
  unfolding search_dir_entry_def by (auto intro!: wp)

lemma wp_grow_dir [wp]:
  "fs_typed s \<Longrightarrow> (\<And>t. fs_typed t \<Longrightarrow> Q t) \<Longrightarrow> post (grow_dir di s) Q"
  unfolding grow_dir_def by (auto intro!: wp)

lemma wp_add_block [wp]:
  "fs_typed s \<Longrightarrow> (\<And>r t. fs_typed t \<Longrightarrow> Q (r, t)) \<Longrightarrow> post (add_block di blocks k lba s) Q"
  unfolding add_block_def Let_def by (auto intro!: wp)

lemma wp_sync_new_block [wp]:
  "fs_typed s \<Longrightarrow> (\<And>r t. fs_typed t \<Longrightarrow> Q (r, t)) \<Longrightarrow> post (sync_new_block di de blocks k mem s) Q"
  unfolding sync_new_block_def Let_def by (auto intro!: wp)

lemma wp_sync_blocks [wp]:
  "fs_typed s \<Longrightarrow> (\<And>r t. fs_typed t \<Longrightarrow> Q (r, t)) \<Longrightarrow> post (sync_blocks di de per_sec blocks n k mem s) Q"
  by (induction n arbitrary: k mem) (auto intro!: wp simp: Let_def)

lemma wp_sync_dir_entry [wp]:
  "fs_typed s \<Longrightarrow> (\<And>r t. fs_typed t \<Longrightarrow> Q (r, t)) \<Longrightarrow> post (sync_dir_entry d de mem s) Q"
  unfolding sync_dir_entry_def by (auto intro!: wp)

lemma wp_read_blocks [wp]:
  "fs_typed s \<Longrightarrow> (\<And>r t. fs_typed t \<Longrightarrow> Q (r, t)) \<Longrightarrow> post (read_blocks d per_sec blocks c s) Q"
  by (induction blocks arbitrary: c s) (auto intro!: wp simp: Let_def)

lemma wp_dir_read [wp]:
  "fs_typed s \<Longrightarrow> (\<And>r t. fs_typed t \<Longrightarrow> Q (r, t)) \<Longrightarrow> post (dir_read d s) Q"
  unfolding dir_read_def by (auto intro!: wp)

lemma wp_dir_remove [wp]:
  "fs_typed s \<Longrightarrow> (\<And>r t. fs_typed t \<Longrightarrow> Q (r, t)) \<Longrightarrow> post (dir_remove p d s) Q"
  unfolding dir_remove_def by (auto intro!: wp)

section \<open>Descriptors and files\<close>

lemma typed_fds_update [simp]:
  "typed_fds fds \<Longrightarrow> descriptor fd \<Longrightarrow> typed_fds (fds[k := fd])"
  by (auto simp: typed_fds_def dest!: subsetD [OF set_update_subset_insert])

lemma descriptor_const [simp]: "descriptor (- 1)" "descriptor 0" "descriptor 1" "descriptor 2"
  by (simp_all add: descriptor_def MAX_FILE_OPEN_def)

lemma wp_set_fd [wp]:
  "fs_typed s \<Longrightarrow> (\<And>t. fs_typed t \<Longrightarrow> Q t) \<Longrightarrow> post (set_fd g fd s) Q"
  by (auto simp: set_fd_def post_def return_iff fs_typed_def)

lemma first_free_bound: "first_free n k fds = Inr r \<Longrightarrow> r \<le> k + n"
  by (induction n arbitrary: k) (force simp: return_iff split: if_splits)+

lemma wp_get_free_slot_in_global [wp]:
  "(\<And>r. descriptor r \<Longrightarrow> Q r) \<Longrightarrow> post (get_free_slot_in_global s) Q"
  using first_free_bound [of "MAX_FILE_OPEN - 3" 3 "file_table s"]
  by (auto simp: get_free_slot_in_global_def post_def return_iff descriptor_def MAX_FILE_OPEN_def split: if_splits)

lemma wp_pcb_fd_install [wp]:
  "fs_typed s \<Longrightarrow> descriptor fd \<Longrightarrow> (\<And>r t. fs_typed t \<Longrightarrow> Q (r, t)) \<Longrightarrow> post (pcb_fd_install fd s) Q"
  by (auto simp: pcb_fd_install_def Let_def post_def return_iff fs_typed_fds split: if_splits)

lemma wp_create_rollback [wp]:
  "fs_typed s \<Longrightarrow> (\<And>r t. fs_typed t \<Longrightarrow> Q (r, t)) \<Longrightarrow> post (create_rollback st g node no bk io s) Q"
  unfolding create_rollback_def by (auto intro!: wp)

lemma wp_create_finish [wp]:
  "fs_typed s \<Longrightarrow> descriptor (int g) \<Longrightarrow> (\<And>r t. fs_typed t \<Longrightarrow> Q (r, t)) \<Longrightarrow> post (create_finish d g node no io s) Q"
  unfolding create_finish_def Let_def by (auto intro!: wp)

lemma descriptor_nat [simp]: "descriptor fd \<Longrightarrow> fd \<noteq> - 1 \<Longrightarrow> descriptor (int (nat fd))"
  by (simp add: descriptor_def)

lemma fs_typed_inode_init [simp]: "fs_typed s \<Longrightarrow> a \<noteq> NULL \<Longrightarrow> fs_typed (set_inode a (inode_init no) s)"
  by (simp add: inode_init_def)

lemma wp_file_create [wp]:
  "fs_typed s \<Longrightarrow> (\<And>r t. fs_typed t \<Longrightarrow> Q (r, t)) \<Longrightarrow> post (file_create d nm flag s) Q"
  unfolding file_create_def Let_def by (auto intro!: wp)

lemma wp_file_open [wp]:
  "fs_typed s \<Longrightarrow> (\<And>r t. fs_typed t \<Longrightarrow> Q (r, t)) \<Longrightarrow> post (file_open no flag s) Q"
  unfolding file_open_def intr_disable_eq by (auto intro!: wp)

lemma wp_file_close [wp]:
  "fs_typed s \<Longrightarrow> (\<And>r t. fs_typed t \<Longrightarrow> Q (r, t)) \<Longrightarrow> post (file_close g s) Q"
  unfolding file_close_def by (auto intro!: wp)

lemma wp_take_new_block [wp]:
  "fs_typed s \<Longrightarrow> (\<And>r t. fs_typed t \<Longrightarrow> Q (r, t)) \<Longrightarrow> post (take_new_block s) Q"
  unfolding take_new_block_def Let_def by (auto intro!: wp)

lemma wp_add_direct [wp]:
  "fs_typed s \<Longrightarrow> (\<And>r t. fs_typed t \<Longrightarrow> Q (r, t)) \<Longrightarrow> post (add_direct n k a blocks s) Q"
  by (induction n arbitrary: k blocks s) (auto intro!: wp)

lemma wp_add_mixed [wp]:
  "fs_typed s \<Longrightarrow> (\<And>r t. fs_typed t \<Longrightarrow> Q (r, t)) \<Longrightarrow> post (add_mixed n k a blocks s) Q"
  by (induction n arbitrary: k blocks s) (auto intro!: wp simp: Let_def)

lemma wp_add_indirect [wp]:
  "fs_typed s \<Longrightarrow> (\<And>r t. fs_typed t \<Longrightarrow> Q (r, t)) \<Longrightarrow> post (add_indirect n k blocks s) Q"
  by (induction n arbitrary: k blocks s) (auto intro!: wp)

lemma wp_blocks_for_write [wp]:
  "fs_typed s \<Longrightarrow> (\<And>r t. fs_typed t \<Longrightarrow> Q (r, t)) \<Longrightarrow> post (blocks_for_write a used will s) Q"
  unfolding blocks_for_write_def Let_def by (auto intro!: wp)

lemma wp_write_loop [wp]:
  "fs_typed s \<Longrightarrow> (\<And>t. fs_typed t \<Longrightarrow> Q t) \<Longrightarrow> post (write_loop g blocks src n first mem s) Q"
proof (induction n arbitrary: src "first" mem s rule: less_induct)
  case (less n)
  show ?case
    using less.prems
    by (subst write_loop.simps) (auto intro!: wp less.IH simp: Let_def SECTOR_SIZE_def)
qed

lemma wp_write_data [wp]:
  "fs_typed s \<Longrightarrow> (\<And>r t. fs_typed t \<Longrightarrow> Q (r, t)) \<Longrightarrow> post (write_data g src cnt io lbas mem blocks s) Q"
  unfolding write_data_def by (auto intro!: wp)

lemma wp_take_first_block [wp]:
  "fs_typed s \<Longrightarrow> length (i_sectors i) = 13 \<Longrightarrow> a \<noteq> NULL \<Longrightarrow> (\<And>r t. fs_typed t \<Longrightarrow> Q (r, t)) \<Longrightarrow>
   post (take_first_block a i s) Q"
  unfolding take_first_block_def Let_def by (auto intro!: wp)

lemma wp_file_write [wp]:
  "fs_typed s \<Longrightarrow> (\<And>r t. fs_typed t \<Longrightarrow> Q (r, t)) \<Longrightarrow> post (file_write g src cnt s) Q"
  unfolding file_write_def Let_def by (auto intro!: wp)

lemmas read_wp [wp] = post_any [of _ "blocks_for_read i k l s" for i k l s]

lemma wp_read_loop [wp]:
  "fs_typed s \<Longrightarrow> (\<And>m t. fs_typed t \<Longrightarrow> Q (m, t)) \<Longrightarrow> post (read_loop g blocks dst k n mem s) Q"
proof (induction n arbitrary: dst k mem s rule: less_induct)
  case (less n)
  show ?case
    using less.prems
    by (subst read_loop.simps) (auto intro!: wp less.IH simp: Let_def SECTOR_SIZE_def)
qed

lemma wp_file_read [wp]:
  "fs_typed s \<Longrightarrow> (\<And>r m t. fs_typed t \<Longrightarrow> Q (r, m, t)) \<Longrightarrow> post (file_read g dst cnt s) Q"
  unfolding file_read_def Let_def by (auto intro!: wp)

section \<open>Paths\<close>

lemma wp_enter_dir [wp]:
  "fs_typed s \<Longrightarrow> (\<And>d no t. fs_typed t \<Longrightarrow> Q (d, no, t)) \<Longrightarrow> post (enter_dir e d s) Q"
  unfolding enter_dir_def by (auto intro!: wp)

lemma wp_search_loop [wp]:
  "fs_typed s \<Longrightarrow> (\<And>r rec t. fs_typed t \<Longrightarrow> Q (r, rec, t)) \<Longrightarrow> post (search_loop sub_path nm d no path e s) Q"
proof (induction "depth_measure sub_path nm" arbitrary: sub_path nm d no path e s rule: less_induct)
  case less
  show ?case
    using less.prems
    by (subst search_loop.simps) (auto intro!: wp less.hyps dest: next_component_measure)
qed

lemma wp_search_file [wp]:
  "fs_typed s \<Longrightarrow> (\<And>r rec t. fs_typed t \<Longrightarrow> Q (r, rec, t)) \<Longrightarrow> post (search_file pathname s) Q"
  unfolding search_file_def Let_def by (auto intro!: wp)

lemma wp_get_parent_dir_inode_nr [wp]:
  "fs_typed s \<Longrightarrow> (\<And>r m t. fs_typed t \<Longrightarrow> Q (r, m, t)) \<Longrightarrow> post (get_parent_dir_inode_nr no mem s) Q"
  unfolding get_parent_dir_inode_nr_def Let_def by (auto intro!: wp)

lemmas find_child_wp [wp] = post_any [of _ "find_child_name h no n ws mem s" for h no n ws mem s]

lemma wp_get_child_dir_name:
  "fs_typed s \<Longrightarrow> (\<And>r q m t. fs_typed t \<Longrightarrow> Q (r, q, m, t)) \<Longrightarrow> post (get_child_dir_name pn cn path mem s) Q"
  unfolding get_child_dir_name_def Let_def by (auto intro!: wp)

lemma wp_climb [wp]:
  "fs_typed s \<Longrightarrow> (\<And>r t. fs_typed t \<Longrightarrow> Q (r, t)) \<Longrightarrow> post (climb no path mem s) Q"
proof (induction "path_room path" arbitrary: no path mem s rule: less_induct)
  case less
  have child: "post (get_child_dir_name pn cn path mem t) R"
    if "fs_typed t" "\<And>r q m t'. fs_typed t' \<Longrightarrow> (r \<longrightarrow> path_room q < path_room path) \<Longrightarrow> R (r, q, m, t')"
    for pn cn mem and t :: "'a fs_scheme" and R
  proof (rule postI)
    fix x assume x: "get_child_dir_name pn cn path mem t = Inr x"
    obtain r q m t' where x': "x = (r, q, m, t')" by (cases x)
    have "post (get_child_dir_name pn cn path mem t) (\<lambda>(_, _, _, t). fs_typed t)"
      by (rule wp_get_child_dir_name [OF that(1)]) simp
    from postD [OF this x] show "R x" using x child_name_room [of pn cn path mem t] by (auto simp: x' intro!: that(2))
  qed
  show ?case
    using less.prems
    by (subst climb.simps) (auto intro!: wp child less.hyps)
qed

lemmas turn_wp [wp] = post_any [of _ "turn_round q mem" for q mem]

lemma wp_sys_getcwd [wp]:
  "fs_typed s \<Longrightarrow> (\<And>r t. fs_typed t \<Longrightarrow> Q (r, t)) \<Longrightarrow> post (sys_getcwd mem n s) Q"
  unfolding sys_getcwd_def Let_def by (cases mem) (auto intro!: wp)

section \<open>Calls\<close>

lemma wp_sys_open:
  "fs_typed s \<Longrightarrow> (\<And>r t. fs_typed t \<Longrightarrow> Q (r, t)) \<Longrightarrow> post (sys_open pathname flags s) Q"
  unfolding sys_open_def Let_def by (auto intro!: wp)

lemmas call_wp [wp] = post_any [of _ "is_pipe fd s" for fd s] post_any [of _ "fd_local2global fd s" for fd s]
  post_any [of _ "file_in_use no fds s" for no fds s]

lemma wp_sys_lseek:
  "fs_typed s \<Longrightarrow> (\<And>r t. fs_typed t \<Longrightarrow> Q (r, t)) \<Longrightarrow> post (sys_lseek fd off whence s) Q"
  unfolding sys_lseek_def Let_def by (auto intro!: wp)

lemma wp_sys_unlink:
  "fs_typed s \<Longrightarrow> (\<And>r t. fs_typed t \<Longrightarrow> Q (r, t)) \<Longrightarrow> post (sys_unlink pathname s) Q"
  unfolding sys_unlink_def Let_def by (auto intro!: wp)

lemma wp_mkdir_rollback [wp]:
  "fs_typed s \<Longrightarrow> (\<And>r t. fs_typed t \<Longrightarrow> Q (r, t)) \<Longrightarrow> post (mkdir_rollback st no d m s) Q"
  unfolding mkdir_rollback_def Let_def by (auto intro!: wp)

lemma wp_mkdir_finish [wp]:
  "fs_typed s \<Longrightarrow> (\<And>r t. fs_typed t \<Longrightarrow> Q (r, t)) \<Longrightarrow> post (mkdir_finish nm no lba d m s) Q"
  unfolding mkdir_finish_def Let_def by (auto intro!: wp)

lemma wp_sys_mkdir:
  "fs_typed s \<Longrightarrow> (\<And>r t. fs_typed t \<Longrightarrow> Q (r, t)) \<Longrightarrow> post (sys_mkdir pathname s) Q"
  unfolding sys_mkdir_def Let_def by (auto intro!: wp)

lemma wp_sys_opendir:
  "fs_typed s \<Longrightarrow> (\<And>r t. fs_typed t \<Longrightarrow> Q (r, t)) \<Longrightarrow> post (sys_opendir pathname s) Q"
  unfolding sys_opendir_def by (auto intro!: wp)

lemma wp_sys_closedir:
  "fs_typed s \<Longrightarrow> (\<And>r t. fs_typed t \<Longrightarrow> Q (r, t)) \<Longrightarrow> post (sys_closedir d s) Q"
  unfolding sys_closedir_def by (auto intro!: wp)

lemma wp_sys_readdir:
  "fs_typed s \<Longrightarrow> (\<And>r t. fs_typed t \<Longrightarrow> Q (r, t)) \<Longrightarrow> post (sys_readdir d s) Q"
  unfolding sys_readdir_def by (auto intro!: wp)

lemma wp_sys_rewinddir:
  "fs_typed s \<Longrightarrow> (\<And>t. fs_typed t \<Longrightarrow> Q t) \<Longrightarrow> post (sys_rewinddir d s) Q"
  unfolding sys_rewinddir_def by (auto intro!: wp)

lemma wp_sys_rmdir:
  "fs_typed s \<Longrightarrow> (\<And>r t. fs_typed t \<Longrightarrow> Q (r, t)) \<Longrightarrow> post (sys_rmdir pathname s) Q"
  unfolding sys_rmdir_def by (auto intro!: wp)

lemma wp_sys_chdir:
  "fs_typed s \<Longrightarrow> (\<And>r t. fs_typed t \<Longrightarrow> Q (r, t)) \<Longrightarrow> post (sys_chdir path s) Q"
  unfolding sys_chdir_def Let_def by (auto intro!: wp)

lemma wp_sys_stat:
  "fs_typed s \<Longrightarrow> (\<And>r st t. fs_typed t \<Longrightarrow> Q (r, st, t)) \<Longrightarrow> post (sys_stat path st s) Q"
  unfolding sys_stat_def by (auto intro!: wp)

section \<open>Threads, locks and pages\<close>

text \<open>What the scheduler and the page allocator do does not touch the types.\<close>

lemma wp_thread_unblock [wp]:
  fixes s :: "'a fs_scheme"
  shows "fs_typed s \<Longrightarrow> (\<And>t. fs_typed t \<Longrightarrow> Q t) \<Longrightarrow> post (thread_unblock tcb s) Q"
  unfolding thread_unblock_def intr_disable_eq by (auto intro!: wp)

lemma wp_process_activate [wp]:
  fixes s :: "'a fs_scheme"
  shows "fs_typed s \<Longrightarrow> (\<And>t. fs_typed t \<Longrightarrow> Q t) \<Longrightarrow> post (process_activate tcb s) Q"
  unfolding process_activate_def page_dir_activate_def update_tss_esp_def Let_def by (auto intro!: wp)

lemma wp_schedule [wp]:
  fixes s :: "'a fs_scheme"
  shows "fs_typed s \<Longrightarrow> (\<And>t. fs_typed t \<Longrightarrow> Q t) \<Longrightarrow> post (schedule s) Q"
  unfolding schedule_def Let_def by (auto intro!: wp)

lemma wp_thread_block [wp]:
  fixes s :: "'a fs_scheme"
  shows "fs_typed s \<Longrightarrow> (\<And>t. fs_typed t \<Longrightarrow> Q t) \<Longrightarrow> post (thread_block st s) Q"
  unfolding thread_block_def intr_disable_eq by (auto intro!: wp)

lemma wp_sema_down [wp]:
  fixes s :: "'a fs_scheme"
  shows "fs_typed s \<Longrightarrow> (\<And>m t. fs_typed t \<Longrightarrow> Q (m, t)) \<Longrightarrow> post (sema_down sema s) Q"
  unfolding sema_down_def sema_down_pass_def Let_def intr_disable_eq by (auto intro!: wp)

lemma wp_sema_up [wp]:
  fixes s :: "'a fs_scheme"
  shows "fs_typed s \<Longrightarrow> (\<And>m t. fs_typed t \<Longrightarrow> Q (m, t)) \<Longrightarrow> post (sema_up sema s) Q"
  unfolding sema_up_def Let_def intr_disable_eq by (auto intro!: wp)

lemma wp_mutex [wp]:
  fixes s :: "'a fs_scheme"
  shows "fs_typed s \<Longrightarrow> (\<And>m t. fs_typed t \<Longrightarrow> Q (m, t)) \<Longrightarrow> post (mutex_acquire m s) Q"
    "fs_typed s \<Longrightarrow> (\<And>m t. fs_typed t \<Longrightarrow> Q (m, t)) \<Longrightarrow> post (mutex_release m s) Q"
  unfolding mutex_acquire_def mutex_release_def Let_def by (auto intro!: wp)

lemma wp_console_put_str [wp]:
  fixes s :: "'a fs_scheme"
  shows "fs_typed s \<Longrightarrow> (\<And>t. fs_typed t \<Longrightarrow> Q t) \<Longrightarrow> post (console_put_str str s) Q"
  unfolding console_put_str_def console_acquire_def console_release_def by (auto intro!: wp)

lemma fs_typed_set_pool [simp]: "fs_typed (set_pool pf p s) = fs_typed s"
  by (simp add: set_pool_def)

lemma fs_typed_upd_uvaddr [simp]: "fs_typed (upd_uvaddr b s) = fs_typed s"
  by (simp add: upd_uvaddr_def)

lemmas page_wp [wp] = post_any [of _ "palloc p" for p] post_any [of _ "load32 a s" for a s]
  post_any [of _ "set_range k n v b" for k n v b] post_any [of _ "addr_v2p a s" for a s]

lemma wp_store32 [wp]:
  fixes s :: "'a fs_scheme"
  shows "fs_typed s \<Longrightarrow> (\<And>t. fs_typed t \<Longrightarrow> Q t) \<Longrightarrow> post (store32 a v s) Q"
  unfolding store32_def by (auto intro!: wp)

lemma wp_zero_words [wp]:
  fixes s :: "'a fs_scheme"
  shows "fs_typed s \<Longrightarrow> (\<And>t. fs_typed t \<Longrightarrow> Q t) \<Longrightarrow> post (zero_words a n s) Q"
  unfolding zero_words_def by (rule post_foldE [where P = fs_typed]) (auto intro: wp)

lemma wp_page_tables [wp]:
  fixes s :: "'a fs_scheme"
  shows "fs_typed s \<Longrightarrow> (\<And>t. fs_typed t \<Longrightarrow> Q t) \<Longrightarrow> post (page_table_add a b s) Q"
    "fs_typed s \<Longrightarrow> (\<And>t. fs_typed t \<Longrightarrow> Q t) \<Longrightarrow> post (page_table_pte_remove a s) Q"
  unfolding page_table_add_def page_table_pte_remove_def Let_def by (auto intro!: wp)

lemma wp_vaddr_get [wp]:
  fixes s :: "'a fs_scheme"
  shows "fs_typed s \<Longrightarrow> (\<And>a t. fs_typed t \<Longrightarrow> Q (a, t)) \<Longrightarrow> post (vaddr_get pf n s) Q"
  unfolding vaddr_get_def Let_def by (auto intro!: wp)

lemma wp_vaddr_remove [wp]:
  fixes s :: "'a fs_scheme"
  shows "fs_typed s \<Longrightarrow> (\<And>t. fs_typed t \<Longrightarrow> Q t) \<Longrightarrow> post (vaddr_remove pf a n s) Q"
  unfolding vaddr_remove_def Let_def by (auto intro!: wp)

lemma wp_map_pages [wp]:
  fixes s :: "'a fs_scheme"
  shows "fs_typed s \<Longrightarrow> (\<And>r t. fs_typed t \<Longrightarrow> Q (r, t)) \<Longrightarrow> post (map_pages pf n a s) Q"
  by (induction n arbitrary: a s) (auto intro!: wp simp: Let_def)

lemma wp_pool [wp]:
  fixes s :: "'a fs_scheme"
  shows "fs_typed s \<Longrightarrow> (\<And>t. fs_typed t \<Longrightarrow> Q t) \<Longrightarrow> post (pool_acquire pf s) Q"
    "fs_typed s \<Longrightarrow> (\<And>t. fs_typed t \<Longrightarrow> Q t) \<Longrightarrow> post (pool_release pf s) Q"
  unfolding pool_acquire_def pool_release_def by (auto intro!: wp)

lemma wp_get_kernel_pages [wp]:
  fixes s :: "'a fs_scheme"
  shows "fs_typed s \<Longrightarrow> (\<And>a t. fs_typed t \<Longrightarrow> Q (a, t)) \<Longrightarrow> post (get_kernel_pages n s) Q"
  unfolding get_kernel_pages_def malloc_page_def by (auto intro!: wp)

lemma wp_free_pages [wp]:
  fixes s :: "'a fs_scheme"
  shows "fs_typed s \<Longrightarrow> (\<And>t. fs_typed t \<Longrightarrow> Q t) \<Longrightarrow> post (free_pages user n a s) Q"
  by (induction n arbitrary: a s) (auto intro!: wp simp: pfree_def Let_def)

lemma wp_mfree_page [wp]:
  fixes s :: "'a fs_scheme"
  shows "fs_typed s \<Longrightarrow> (\<And>t. fs_typed t \<Longrightarrow> Q t) \<Longrightarrow> post (mfree_page pf a n s) Q"
  unfolding mfree_page_def by (auto intro!: wp)

section \<open>Rings\<close>

lemma next_pos_less [simp]: "next_pos k < bufsize" by (simp add: next_pos_def bufsize_def)

text \<open>The state may be that of the file system, for the two that carry the ring along.\<close>

lemma wp_ioq_wakeup [wp]:
  fixes s :: "'a fs_scheme"
  shows "fs_typed s \<Longrightarrow> (\<And>w t. fs_typed t \<Longrightarrow> Q (w, t)) \<Longrightarrow> post (ioq_wakeup waiter s) Q"
    "fs_typed s \<Longrightarrow> (\<And>w t. fs_typed t \<Longrightarrow> Q (w, t)) \<Longrightarrow> post (ioq_wait waiter s) Q"
  unfolding ioq_wakeup_def ioq_wait_def Let_def by (auto intro!: wp)

lemmas ring_wp [wp] = post_any [of _ "ioq_empty q s" for q s] post_any [of _ "ioq_full q s" for q s]

lemma wp_get_byte [wp]:
  fixes s :: "'a fs_scheme"
  shows "fs_typed s \<Longrightarrow> typed_ring q \<Longrightarrow> (\<And>c q' t. fs_typed t \<Longrightarrow> typed_ring q' \<Longrightarrow> Q (c, q', t)) \<Longrightarrow>
    post (get_byte (q, s)) Q"
  unfolding get_byte_def ioq_getchar_def ioq_take_def Let_def by (auto intro!: wp simp: typed_ring_def)

lemma wp_put_byte [wp]:
  fixes s :: "'a fs_scheme"
  shows "fs_typed s \<Longrightarrow> typed_ring q \<Longrightarrow> (\<And>q' t. fs_typed t \<Longrightarrow> typed_ring q' \<Longrightarrow> Q (q', t)) \<Longrightarrow>
    post (put_byte c (q, s)) Q"
  unfolding put_byte_def ioq_putchar_def ioq_putchar_pass_def ioq_store_def Let_def by (auto intro!: wp simp: typed_ring_def)

lemma wp_drain [wp]:
  fixes s :: "'a fs_scheme"
  shows "fs_typed s \<Longrightarrow> typed_ring q \<Longrightarrow> (\<And>cs q' t. fs_typed t \<Longrightarrow> typed_ring q' \<Longrightarrow> Q (cs, q', t)) \<Longrightarrow>
    post (drain get_byte n (q, s)) Q"
  by (induction n arbitrary: q s Q) (auto intro!: wp)

lemma wp_put_bytes [wp]:
  fixes s :: "'a fs_scheme"
  shows "fs_typed s \<Longrightarrow> typed_ring q \<Longrightarrow> (\<And>q' t. fs_typed t \<Longrightarrow> typed_ring q' \<Longrightarrow> Q (q', t)) \<Longrightarrow>
    post (foldE put_byte cs (q, s)) Q"
  by (induction cs arbitrary: q s) (auto intro!: wp)

lemma fs_typed_pipes [simp]:
  "fs_typed s \<Longrightarrow> typed_ring q \<Longrightarrow> fs_typed (s\<lparr>pipes := (pipes s)(a \<mapsto> q)\<rparr>)"
  "fs_typed s \<Longrightarrow> typed_ring q \<Longrightarrow> fs_typed (s\<lparr>keys := k\<lparr>kbd_buf := q\<rparr>\<rparr>)"
  "fs_typed s \<Longrightarrow> typed_ring (kbd_buf (keys s))"
  by (auto simp: fs_typed_def ran_def)

lemma wp_pipe_of [wp]:
  "fs_typed s \<Longrightarrow> (\<And>a q. typed_ring q \<Longrightarrow> Q (a, q)) \<Longrightarrow> post (pipe_of fd s) Q"
  unfolding pipe_of_def by (auto intro!: wp dest: fs_typed_objects(3))

lemma wp_pipe_read [wp]:
  "fs_typed s \<Longrightarrow> (\<And>cs t. fs_typed t \<Longrightarrow> Q (cs, t)) \<Longrightarrow> post (pipe_read fd n s) Q"
  unfolding pipe_read_def pipe_read_ioq_def Let_def by (auto intro!: wp)

lemma wp_pipe_write [wp]:
  "fs_typed s \<Longrightarrow> (\<And>k t. fs_typed t \<Longrightarrow> Q (k, t)) \<Longrightarrow> post (pipe_write fd cs n s) Q"
  unfolding pipe_write_def pipe_write_ioq_def Let_def by (auto intro!: wp)

lemma wp_sys_pipe:
  "fs_typed s \<Longrightarrow> (\<And>r fds t. fs_typed t \<Longrightarrow> Q (r, fds, t)) \<Longrightarrow> post (sys_pipe s) Q"
  unfolding sys_pipe_def Let_def by (auto intro!: wp simp: typed_ring_def ioqueue_init_def bufsize_def)

lemma wp_sys_close:
  "fs_typed s \<Longrightarrow> (\<And>r t. fs_typed t \<Longrightarrow> Q (r, t)) \<Longrightarrow> post (sys_close fd s) Q"
  unfolding sys_close_def Let_def by (auto intro!: wp simp: fs_typed_fds)

lemma wp_sys_write:
  "fs_typed s \<Longrightarrow> (\<And>r t. fs_typed t \<Longrightarrow> Q (r, t)) \<Longrightarrow> post (sys_write fd cs n s) Q"
  unfolding sys_write_def by (auto intro!: wp)

lemma wp_sys_read:
  "fs_typed s \<Longrightarrow> (\<And>r m t. fs_typed t \<Longrightarrow> Q (r, m, t)) \<Longrightarrow> post (sys_read fd mem n s) Q"
  unfolding sys_read_def read_keys_def by (cases mem) (auto intro!: wp)

lemma typed_fds_read:
  assumes "typed_fds fds"
  shows "(\<And>v. descriptor v \<Longrightarrow> Q v) \<Longrightarrow> post (read_at fds k) Q"
  using assms by (auto simp: post_def return_iff typed_fds_def)

lemma wp_sys_fd_redirect:
  assumes "fs_typed s" "\<And>t. fs_typed t \<Longrightarrow> Q t"
  shows "post (sys_fd_redirect old new s) Q"
proof -
  let ?fds = "fd_table (tcbs s (running_thread s))"
  have "post (if new < 3 then Inr (int new) else read_at ?fds new) descriptor"
    by (auto intro!: post_if typed_fds_read [OF fs_typed_fds [OF assms(1)]] simp: descriptor_def MAX_FILE_OPEN_def)
  then show ?thesis
    unfolding sys_fd_redirect_def Let_def
    by (auto intro!: post_bind wp_write_at assms fs_typed_upd_tcb typed_fds_update elim!: post_mono simp: fs_typed_fds [OF assms(1)])
qed

end
