(* ===== verification/Call_Types.thy ===== *)
theory Call_Types
  imports Fs_Types Syscalls Keyboard
begin

text \<open>
  Every system call keeps the types of the state: the calls on processes and memory, and then all calls
  of the table as a step relation.
\<close>

section \<open>The heap\<close>

lemma wp_malloc_page [wp]:
  fixes s :: "'a fs_scheme"
  shows "fs_typed s \<Longrightarrow> (\<And>a t. fs_typed t \<Longrightarrow> Q (a, t)) \<Longrightarrow> post (malloc_page pf n s) Q"
  unfolding malloc_page_def by (auto intro!: wp)

lemma fs_typed_heap [simp]:
  fixes s :: "'a fs_scheme"
  shows "fs_typed (set_arena a ar s) = fs_typed s" "fs_typed (set_free_list k xs s) = fs_typed s"
  by (simp_all add: set_arena_def set_free_list_def set_descs_def)

lemmas heap_wp [wp] = post_any [of _ "link_blocks a d" for a d] post_any [of _ "unlink_blocks a d xs" for a d xs]
  post_any [of _ "free_append b xs" for b xs]

lemma wp_new_arena [wp]:
  fixes s :: "'a fs_scheme"
  shows "fs_typed s \<Longrightarrow> (\<And>r t. fs_typed t \<Longrightarrow> Q (r, t)) \<Longrightarrow> post (new_arena pf k s) Q"
  unfolding new_arena_def Let_def intr_disable_eq by (auto intro!: wp)

lemma wp_take_block [wp]:
  fixes s :: "'a fs_scheme"
  shows "fs_typed s \<Longrightarrow> (\<And>b t. fs_typed t \<Longrightarrow> Q (b, t)) \<Longrightarrow> post (take_block k s) Q"
  unfolding take_block_def Let_def by (auto intro!: wp split: list.split)

lemma wp_sys_malloc:
  fixes s :: "'a fs_scheme"
  shows "fs_typed s \<Longrightarrow> (\<And>b t. fs_typed t \<Longrightarrow> Q (b, t)) \<Longrightarrow> post (sys_malloc sz s) Q"
  unfolding sys_malloc_def malloc_large_def malloc_small_def Let_def by (auto intro!: wp)

lemma wp_free_small [wp]:
  fixes s :: "'a fs_scheme"
  shows "fs_typed s \<Longrightarrow> (\<And>t. fs_typed t \<Longrightarrow> Q t) \<Longrightarrow> post (free_small pf a b k s) Q"
  unfolding free_small_def Let_def by (auto intro!: wp)

lemma wp_sys_free:
  fixes s :: "'a fs_scheme"
  shows "fs_typed s \<Longrightarrow> (\<And>t. fs_typed t \<Longrightarrow> Q t) \<Longrightarrow> post (sys_free p s) Q"
  unfolding sys_free_def Let_def by (auto intro!: wp)

section \<open>Fork\<close>

lemma fs_typed_page_dir [simp]:
  fixes s :: "'a fs_scheme"
  shows "fs_typed (page_dir_activate t s) = fs_typed s"
  by (simp add: page_dir_activate_def)

lemma wp_pids [wp]:
  fixes s :: "'a fs_scheme"
  shows "fs_typed s \<Longrightarrow> (\<And>t. fs_typed t \<Longrightarrow> Q t) \<Longrightarrow> post (pid_acquire s) Q"
    "fs_typed s \<Longrightarrow> (\<And>t. fs_typed t \<Longrightarrow> Q t) \<Longrightarrow> post (pid_release s) Q"
  unfolding pid_acquire_def pid_release_def by (auto intro!: wp)

lemma wp_fork_pid [wp]:
  fixes s :: "'a fs_scheme"
  shows "fs_typed s \<Longrightarrow> (\<And>p t. fs_typed t \<Longrightarrow> Q (p, t)) \<Longrightarrow> post (fork_pid s) Q"
  unfolding fork_pid_def allocate_pid_def by (auto intro!: wp)

lemma wp_release_pid [wp]:
  fixes s :: "'a fs_scheme"
  shows "fs_typed s \<Longrightarrow> (\<And>t. fs_typed t \<Longrightarrow> Q t) \<Longrightarrow> post (release_pid p s) Q"
  unfolding release_pid_def Let_def by (auto intro!: wp)

lemma fs_typed_copy_tcb_page [simp]:
  fixes s :: "'a fs_scheme"
  shows "fs_typed s \<Longrightarrow> fs_typed (copy_tcb_page c p s)"
  by (simp add: copy_tcb_page_def fs_typed_fds)

lemma wp_copy_pcb [wp]:
  fixes s :: "'a fs_scheme"
  shows "fs_typed s \<Longrightarrow> (\<And>r t. fs_typed t \<Longrightarrow> Q (r, t)) \<Longrightarrow> post (copy_pcb_vaddrbitmap_stack0 c p s) Q"
  unfolding copy_pcb_vaddrbitmap_stack0_def Let_def by (auto intro!: wp)

lemma wp_copy_page [wp]:
  fixes s :: "'a fs_scheme"
  shows "fs_typed s \<Longrightarrow> (\<And>t. fs_typed t \<Longrightarrow> Q t) \<Longrightarrow> post (copy_page a b s) Q"
  unfolding copy_page_def by (rule post_foldE [where P = fs_typed]) (auto intro!: wp)

lemma wp_get_a_page [wp]:
  fixes s :: "'a fs_scheme"
  shows "fs_typed s \<Longrightarrow> (\<And>a t. fs_typed t \<Longrightarrow> Q (a, t)) \<Longrightarrow> post (get_a_page_without_opvaddrbitmap pf v s) Q"
    "fs_typed s \<Longrightarrow> (\<And>a t. fs_typed t \<Longrightarrow> Q (a, t)) \<Longrightarrow> post (get_a_page pf v s) Q"
  unfolding get_a_page_without_opvaddrbitmap_def get_a_page_def Let_def by (auto intro!: wp)

lemma wp_copy_user_page [wp]:
  fixes s :: "'a fs_scheme"
  shows "fs_typed s \<Longrightarrow> (\<And>t. fs_typed t \<Longrightarrow> Q t) \<Longrightarrow> post (copy_user_page c p b v s) Q"
  unfolding copy_user_page_def by (auto intro!: wp)

lemma wp_copy_body [wp]:
  fixes s :: "'a fs_scheme"
  shows "fs_typed s \<Longrightarrow> (\<And>t. fs_typed t \<Longrightarrow> Q t) \<Longrightarrow> post (copy_body_stack3 c p b s) Q"
  unfolding copy_body_stack3_def Let_def
  by (rule post_foldE [where P = fs_typed])
    (auto intro!: wp post_foldE [where P = fs_typed and Q = fs_typed])

lemma wp_build_child_stack [wp]:
  fixes s :: "'a fs_scheme"
  shows "fs_typed s \<Longrightarrow> (\<And>t. fs_typed t \<Longrightarrow> Q t) \<Longrightarrow> post (build_child_stack c s) Q"
  unfolding build_child_stack_def Let_def by (auto intro!: wp)

lemma wp_update_inode_open_cnts [wp]:
  "fs_typed s \<Longrightarrow> (\<And>t. fs_typed t \<Longrightarrow> Q t) \<Longrightarrow> post (update_inode_open_cnts c s) Q"
  unfolding update_inode_open_cnts_def by (rule post_foldE [where P = fs_typed]) (auto intro!: wp)

lemma wp_create_page_dir [wp]:
  fixes s :: "'a fs_scheme"
  shows "fs_typed s \<Longrightarrow> (\<And>d t. fs_typed t \<Longrightarrow> Q (d, t)) \<Longrightarrow> post (create_page_dir s) Q"
  unfolding create_page_dir_def fill_page_dir_def copy_kernel_half_def
  by (auto intro!: wp post_foldE [where P = fs_typed])

lemma wp_copy_process [wp]:
  "fs_typed s \<Longrightarrow> (\<And>r t. fs_typed t \<Longrightarrow> Q (r, t)) \<Longrightarrow> post (copy_process c p s) Q"
  unfolding copy_process_def Let_def by (auto intro!: wp)

lemma wp_sys_fork:
  "fs_typed s \<Longrightarrow> (\<And>r t. fs_typed t \<Longrightarrow> Q (r, t)) \<Longrightarrow> post (sys_fork s) Q"
  unfolding sys_fork_def Let_def enqueue_ready_def enqueue_all_def by (auto intro!: wp)

section \<open>Exec\<close>

lemma wp_store_bytes [wp]:
  fixes s :: "'a fs_scheme"
  shows "fs_typed s \<Longrightarrow> (\<And>t. fs_typed t \<Longrightarrow> Q t) \<Longrightarrow> post (store_bytes a bs s) Q"
  unfolding store_bytes_def store8_def Let_def by (rule post_foldE [where P = fs_typed]) (auto intro!: wp)

lemma wp_map_segment [wp]:
  fixes s :: "'a fs_scheme"
  shows "fs_typed s \<Longrightarrow> (\<And>r t. fs_typed t \<Longrightarrow> Q (r, t)) \<Longrightarrow> post (map_segment n a s) Q"
  by (induction n arbitrary: a s) (auto intro!: wp)

lemmas file_calls_wp [wp] = wp_sys_lseek wp_sys_read wp_sys_open wp_sys_close

lemma wp_segment_load [wp]:
  "fs_typed s \<Longrightarrow> (\<And>r t. fs_typed t \<Longrightarrow> Q (r, t)) \<Longrightarrow> post (segment_load fd off n a s) Q"
  unfolding segment_load_def by (auto intro!: wp)

lemma wp_load_segments [wp]:
  "fs_typed s \<Longrightarrow> (\<And>r t. fs_typed t \<Longrightarrow> Q (r, t)) \<Longrightarrow> post (load_segments n fd off sz s) Q"
  by (induction n arbitrary: off s) (auto intro!: wp simp: Let_def)

lemmas exec_wp [wp] = post_any [of _ "elf_ok h" for h] post_any [of _ "count_args as" for as]

lemma wp_load [wp]:
  "fs_typed s \<Longrightarrow> (\<And>e t. fs_typed t \<Longrightarrow> Q (e, t)) \<Longrightarrow> post (load path s) Q"
  unfolding load_def Let_def by (auto intro!: wp)

lemma wp_sys_execv:
  "fs_typed s \<Longrightarrow> (\<And>r t. fs_typed t \<Longrightarrow> Q (r, t)) \<Longrightarrow> post (sys_execv path argv args s) Q"
  unfolding sys_execv_def Let_def by (auto intro!: wp)

section \<open>Exit and wait\<close>

lemma wp_free_a_phy_page [wp]:
  fixes s :: "'a fs_scheme"
  shows "fs_typed s \<Longrightarrow> (\<And>t. fs_typed t \<Longrightarrow> Q t) \<Longrightarrow> post (free_a_phy_page a s) Q"
  unfolding free_a_phy_page_def Let_def by (auto intro!: wp)

lemma wp_release_table [wp]:
  fixes s :: "'a fs_scheme"
  shows "fs_typed s \<Longrightarrow> (\<And>t. fs_typed t \<Longrightarrow> Q t) \<Longrightarrow> post (release_table d k s) Q"
  unfolding release_table_def Let_def by (auto intro!: wp post_foldE [where P = fs_typed])

lemma wp_release_fd [wp]:
  "fs_typed s \<Longrightarrow> (\<And>t. fs_typed t \<Longrightarrow> Q t) \<Longrightarrow> post (release_fd tcb k s) Q"
  unfolding release_fd_def Let_def by (auto intro!: wp)

lemma wp_release_prog_resource [wp]:
  "fs_typed s \<Longrightarrow> (\<And>t. fs_typed t \<Longrightarrow> Q t) \<Longrightarrow> post (release_prog_resource tcb s) Q"
  unfolding release_prog_resource_def by (auto intro!: wp post_foldE [where P = fs_typed])

lemma fs_typed_adopt_children [simp]:
  fixes s :: "'a fs_scheme"
  shows "fs_typed (adopt_children p s) = fs_typed s"
proof -
  have "fs_typed (foldl (\<lambda>s t. init_adopt_a_child p t s) s ts) = fs_typed s" for ts
    by (induction ts arbitrary: s) (simp_all add: init_adopt_a_child_def)
  then show ?thesis by (simp add: adopt_children_def)
qed

lemma wp_sys_exit:
  "fs_typed s \<Longrightarrow> (\<And>t. fs_typed t \<Longrightarrow> Q t) \<Longrightarrow> post (sys_exit code s) Q"
  unfolding sys_exit_def leave_parent_def Let_def by (auto intro!: wp)

lemma wp_thread_exit [wp]:
  fixes s :: "'a fs_scheme"
  shows "fs_typed s \<Longrightarrow> (\<And>t. fs_typed t \<Longrightarrow> Q t) \<Longrightarrow> post (thread_exit tcb sch s) Q"
  unfolding thread_exit_def Let_def by (auto intro!: wp)

lemma wp_sys_wait:
  fixes s :: "'a fs_scheme"
  shows "fs_typed s \<Longrightarrow> (\<And>r t. fs_typed t \<Longrightarrow> Q (r, t)) \<Longrightarrow> post (sys_wait s) Q"
  unfolding sys_wait_def Let_def by (auto intro!: wp)

section \<open>The screen\<close>

lemmas print_wp [wp] = post_any [of _ "vsprintf m f as" for m f as] post_any [of _ "sprintf m f as" for m f as]
  post_any [of _ "pad_text n v f" for n v f]

lemma wp_sys_putchar:
  fixes s :: "'a fs_scheme"
  shows "fs_typed s \<Longrightarrow> (\<And>t. fs_typed t \<Longrightarrow> Q t) \<Longrightarrow> post (sys_putchar c s) Q"
  unfolding sys_putchar_def console_put_char_def console_acquire_def console_release_def by (auto intro!: wp)

lemma wp_sys_help:
  fixes s :: "'a fs_scheme"
  shows "fs_typed s \<Longrightarrow> (\<And>t. fs_typed t \<Longrightarrow> Q t) \<Longrightarrow> post (sys_help s) Q"
  unfolding sys_help_def kprintf_def by (auto intro!: wp)

text \<open>The listing of the threads writes with the system call.\<close>

definition write_call :: "u8 list \<Rightarrow> 'a fs_scheme \<Rightarrow> 'a fs_scheme res" where
  "write_call bytes s = bindE (sys_write 1 bytes (of_nat (length bytes)) s) (\<lambda>(_, s). Inr s)"

lemma wp_write_call [wp]:
  "fs_typed s \<Longrightarrow> (\<And>t. fs_typed t \<Longrightarrow> Q t) \<Longrightarrow> post (write_call cs s) Q"
  unfolding write_call_def by (auto intro!: wp wp_sys_write)

lemma wp_elem2thread_info [wp]:
  "fs_typed s \<Longrightarrow> (\<And>t. fs_typed t \<Longrightarrow> Q t) \<Longrightarrow> post (elem2thread_info write_call tcb s) Q"
  unfolding elem2thread_info_def pad_print_def by (auto intro!: wp)

lemma wp_sys_ps:
  "fs_typed s \<Longrightarrow> (\<And>t. fs_typed t \<Longrightarrow> Q t) \<Longrightarrow> post (sys_ps write_call s) Q"
  unfolding sys_ps_def by (auto intro!: wp post_foldE [where P = fs_typed])

section \<open>Interrupts\<close>

lemma wp_intr_timer_handler:
  fixes s :: "'a fs_scheme"
  shows "fs_typed s \<Longrightarrow> (\<And>t. fs_typed t \<Longrightarrow> Q t) \<Longrightarrow> post (intr_timer_handler s) Q"
  unfolding intr_timer_handler_def Let_def by (auto intro!: wp simp: fs_typed_def upd_tcb_def)

lemma kbd_buf_unchanged [simp]: "kbd_buf (key_up c k) = kbd_buf k" "kbd_buf (modifier_down c k) = kbd_buf k"
  by (simp_all add: key_up_def modifier_down_def)

lemmas keyboard_wp [wp] = post_any [of _ "inb p" for p] post_any [of _ "key_char c k" for c k]

lemma wp_intr_keyboard_handler:
  fixes s :: "'a fs_scheme"
  shows "fs_typed s \<Longrightarrow> typed_ring (kbd_buf k) \<Longrightarrow> (\<And>k' t. fs_typed t \<Longrightarrow> typed_ring (kbd_buf k') \<Longrightarrow> Q (k', t)) \<Longrightarrow>
    post (intr_keyboard_handler port (k, s)) Q"
  unfolding intr_keyboard_handler_def key_down_def by (auto intro!: wp)

section \<open>All that happens to the state\<close>

text \<open>A system call that returns, by its number, or an interrupt.\<close>

datatype event = Call syscall_nr | Timer | Key

inductive system_step :: "event \<Rightarrow> 'a fs_scheme \<Rightarrow> 'a fs_scheme \<Rightarrow> bool" where
  getpid_call: "system_step (Call SYS_GETPID) s s"
| write_call: "system_step (Call SYS_WRITE) s t" if "sys_write fd bytes n s = Inr (r, t)"
| malloc_call: "system_step (Call SYS_MALLOC) s t" if "sys_malloc n s = Inr (a, t)"
| free_call: "system_step (Call SYS_FREE) s t" if "sys_free a s = Inr t"
| open_call: "system_step (Call SYS_OPEN) s t" if "sys_open path flags s = Inr (r, t)"
| close_call: "system_step (Call SYS_CLOSE) s t" if "sys_close fd s = Inr (r, t)"
| read_call: "system_step (Call SYS_READ) s t" if "sys_read fd mem n s = Inr (r, mem', t)"
| lseek_call: "system_step (Call SYS_LSEEK) s t" if "sys_lseek fd off whence s = Inr (r, t)"
| unlink_call: "system_step (Call SYS_UNLINK) s t" if "sys_unlink path s = Inr (r, t)"
| mkdir_call: "system_step (Call SYS_MKDIR) s t" if "sys_mkdir path s = Inr (r, t)"
| opendir_call: "system_step (Call SYS_OPENDIR) s t" if "sys_opendir path s = Inr (d, t)"
| closedir_call: "system_step (Call SYS_CLOSEDIR) s t" if "sys_closedir d s = Inr (r, t)"
| readdir_call: "system_step (Call SYS_READDIR) s t" if "sys_readdir d s = Inr (e, t)"
| rewinddir_call: "system_step (Call SYS_REWINDDIR) s t" if "sys_rewinddir d s = Inr t"
| rmdir_call: "system_step (Call SYS_RMDIR) s t" if "sys_rmdir path s = Inr (r, t)"
| getcwd_call: "system_step (Call SYS_GETCWD) s t" if "sys_getcwd mem n s = Inr (p, t)"
| chdir_call: "system_step (Call SYS_CHDIR) s t" if "sys_chdir path s = Inr (r, t)"
| stat_call: "system_step (Call SYS_STAT) s t" if "sys_stat path st s = Inr (r, st', t)"
| fork_call: "system_step (Call SYS_FORK) s t" if "sys_fork s = Inr (p, t)"
| putchar_call: "system_step (Call SYS_PUTCHAR) s t" if "sys_putchar c s = Inr t"
| clear_call: "system_step (Call SYS_CLEAR) s t" if "sys_clear s = Inr t"
| ps_call: "system_step (Call SYS_PS) s t" if "sys_ps write_call s = Inr t"
| execv_call: "system_step (Call SYS_EXECV) s t" if "sys_execv path argv args s = Inr (p, t)"
| wait_call: "system_step (Call SYS_WAIT) s t" if "sys_wait s = Inr (w, t)"
| exit_call: "system_step (Call SYS_EXIT) s t" if "sys_exit code s = Inr t"
| pipe_call: "system_step (Call SYS_PIPE) s t" if "sys_pipe s = Inr (r, fds, t)"
| redirect_call: "system_step (Call SYS_FD_REDIRECT) s t" if "sys_fd_redirect old_fd new_fd s = Inr t"
| help_call: "system_step (Call SYS_HELP) s t" if "sys_help s = Inr t"
| timer: "system_step Timer s t" if "intr_timer_handler s = Inr t"
| key: "system_step Key s (t\<lparr>keys := k\<rparr>)" if "intr_keyboard_handler port (keys s, s) = Inr (k, t)"

lemma fs_typed_keys [simp]: "fs_typed s \<Longrightarrow> typed_ring (kbd_buf k) \<Longrightarrow> fs_typed (s\<lparr>keys := k\<rparr>)"
  by (simp add: fs_typed_def)

lemma sys_clear_typed: "sys_clear s = Inr t \<Longrightarrow> fs_typed s \<Longrightarrow> fs_typed t"
  by (auto simp: sys_clear_def)

text \<open>The rules of the calls, read forwards.\<close>

lemmas call_typed =
  postD [OF wp_sys_write [where Q = "\<lambda>(_, t). fs_typed t"]] postD [OF wp_sys_malloc [where Q = "\<lambda>(_, t). fs_typed t"]]
  postD [OF wp_sys_free [where Q = fs_typed]] postD [OF wp_sys_open [where Q = "\<lambda>(_, t). fs_typed t"]]
  postD [OF wp_sys_close [where Q = "\<lambda>(_, t). fs_typed t"]] postD [OF wp_sys_read [where Q = "\<lambda>(_, _, t). fs_typed t"]]
  postD [OF wp_sys_lseek [where Q = "\<lambda>(_, t). fs_typed t"]] postD [OF wp_sys_unlink [where Q = "\<lambda>(_, t). fs_typed t"]]
  postD [OF wp_sys_mkdir [where Q = "\<lambda>(_, t). fs_typed t"]] postD [OF wp_sys_opendir [where Q = "\<lambda>(_, t). fs_typed t"]]
  postD [OF wp_sys_closedir [where Q = "\<lambda>(_, t). fs_typed t"]] postD [OF wp_sys_readdir [where Q = "\<lambda>(_, t). fs_typed t"]]
  postD [OF wp_sys_rewinddir [where Q = fs_typed]] postD [OF wp_sys_rmdir [where Q = "\<lambda>(_, t). fs_typed t"]]
  postD [OF wp_sys_getcwd [where Q = "\<lambda>(_, t). fs_typed t"]] postD [OF wp_sys_chdir [where Q = "\<lambda>(_, t). fs_typed t"]]
  postD [OF wp_sys_stat [where Q = "\<lambda>(_, _, t). fs_typed t"]] postD [OF wp_sys_fork [where Q = "\<lambda>(_, t). fs_typed t"]]
  postD [OF wp_sys_putchar [where Q = fs_typed]] postD [OF wp_sys_ps [where Q = fs_typed]]
  postD [OF wp_sys_execv [where Q = "\<lambda>(_, t). fs_typed t"]] postD [OF wp_sys_wait [where Q = "\<lambda>(_, t). fs_typed t"]]
  postD [OF wp_sys_exit [where Q = fs_typed]] postD [OF wp_sys_pipe [where Q = "\<lambda>(_, _, t). fs_typed t"]]
  postD [OF wp_sys_fd_redirect [where Q = fs_typed]] postD [OF wp_sys_help [where Q = fs_typed]]
  postD [OF wp_intr_timer_handler [where Q = fs_typed]]

lemma system_step_typed:
  assumes "system_step e s t" "fs_typed s"
  shows "fs_typed t"
  using assms
proof cases
  case (key port k u)
  have "post (intr_keyboard_handler port (keys s, s)) (\<lambda>(k, u). fs_typed u \<and> typed_ring (kbd_buf k))"
    by (rule wp_intr_keyboard_handler [OF assms(2)]) (use assms(2) in \<open>simp_all add: fs_typed_def\<close>)
  from postD [OF this key(3)] show ?thesis by (simp add: key(2))
qed (use assms(2) in \<open>auto dest: call_typed sys_clear_typed\<close>)

text \<open>A descriptor that is open leads to an entry of the global table.\<close>

lemma descriptor_entry:
  assumes "fs_typed s" "fd_local2global fd s = Inr g"
  shows "g < length (file_table s)"
  using assms by (auto simp: fd_local2global_def return_iff fs_typed_def split: if_splits)


text \<open>A process redirects its output and the screen is cleared.\<close>

lemma tiny_state:
  "file_table tiny_fs = replicate 32 \<lparr>fd_pos = 0, fd_flag = 0, fd_inode = NULL\<rparr>" "pipes tiny_fs = (\<lambda>_. None)"
  "fd_table (tcbs tiny_fs t) = replicate 8 0" "kbd_buf (keys tiny_fs) = ioqueue_init (replicate 64 0)" "cur tiny_fs = 1"
  by (simp_all add: tiny_fs_def fs.defs terminal.defs threads.defs boot_threads_def heap.defs one_arena_def vm.defs
      one_page_vm_def boot_vm_def three_threads_def zero_tcb_def MAX_FILE_OPEN_PER_PROC_def)

lemma tiny_typed: "fs_typed tiny_fs"
  using tiny_table
  by (simp add: fs_typed_def typed_parts_def tiny_part_def wf_bitmap_def inode_init_def MAX_FILE_OPEN_def typed_fds_def
      MAX_FILE_OPEN_PER_PROC_def typed_ring_def ioqueue_init_def bufsize_def table_ok_def Let_def tiny_state)


end
