(* ===== verification/Spec2Isabelle.thy ===== *)
theory Spec2Isabelle
  imports Prelude Interrupts Intrusive_List C_String Stdio Bitmap Paths Scheduler Sync Paging Page_Alloc Arena Threads Machine Io_Queue Keyboard
    Disk_Layout Inode Directory File_Ops File_Data Dir_Data Fs_Setup Ide_Disk Ide_Transfer Path_Search Fs_Calls Process_Life
    Syscalls Shell Shell_Line Programs Fs_Types Call_Types
begin

text \<open>
  JackOS, a kernel for 32-bit x86 with threads, virtual memory, an ext2-like file system, pipes and a
  shell: a model of its C code and the theorems about it. The boot code and the assembly are not modelled. Paths below are relative to \<open>src/\<close>.

  \<^bold>\<open>How the parts work together.\<close> The processor tables and interrupt handlers lead every interrupt to a
  handler of the timer, the keyboard or the disks, and system calls to their functions. The timer
  drives the scheduler, which keeps the ready threads in intrusive lists; semaphores and mutexes block
  and wake threads through it and protect the allocators, the console and the ring buffers. Pages come
  from the physical pools and address bitmaps and enter the page tables; the heap cuts pages into
  blocks. Processes are threads with an address space of their own. The file system keeps inodes,
  directories and file contents in the sectors of a partition and their working copies in the heap, and
  gives processes descriptors for files, the keyboard, the screen and pipes. The shell reads lines from
  the keyboard and runs its own commands, and by \<open>fork\<close> and \<open>execv\<close> the user programs, by means of these calls.
  The main thread copies the user programs from the boot disk into the file system first.

  \<^bold>\<open>Conventions.\<close> A C function is a HOL function from the state before to the state after, with the result
  beside it. What may go wrong beyond an error return is a value of type \<open>fault\<close> (\<open>Prelude\<close>): a failed
  \<open>ASSERT\<close>, a \<open>PANIC\<close>, an access outside an object, a thread that would block with nobody to wake it,
  or a loop that never ends. Words have the width of the C type and wrap around; sizes and indices that
  cannot wrap are naturals. A loop is a recursive function that counts down what the loop counts, or is
  proved to terminate; the searches that may run off an object end there with \<open>Bad_access\<close>. Names are those
  of the source, and a definition that models a part of a function (a loop body, one branch)
  has a name of its own.

  \<^bold>\<open>Theories.\<close>
  \<^item> \<open>Prelude\<close>: machine words, faults, sequencing of operations that may fail, checked array access.
  \<^item> \<open>Interrupts\<close>: the interrupt flag and the bracket around critical sections (\<open>kernel/interrupt.c\<close>).
  \<^item> \<open>Intrusive_List\<close>: doubly linked lists as pointers in a heap (\<open>lib/kernel/list.c\<close>); \<open>list_at\<close>
    relates a list in the heap to the sequence of its elements, and every operation is shown to do to the
    sequence what its name says. All later theories use sequences.
  \<^item> \<open>C_String\<close>, \<open>Stdio\<close>: strings as bytes in bounded objects, conversion of numbers and the
    formatted output (\<open>lib/string.c\<close>, \<open>lib/stdio.c\<close>).
  \<^item> \<open>Bitmap\<close>: bitmaps and the searches in them (\<open>lib/kernel/bitmap.c\<close>), with the set of bits as abstraction.
  \<^item> \<open>Paths\<close>: splitting and normalising paths and splitting command lines (\<open>fs/fs.c\<close>, \<open>shell\<close>).
  \<^item> \<open>Scheduler\<close>: ready queue, blocking and waking, time slices (\<open>thread/thread.c\<close>, \<open>device/timer.c\<close>);
    \<open>sched_wf\<close> is its invariant. \<open>Sync\<close>: semaphores and mutexes (\<open>thread/sync.c\<close>), and a step relation
    that interleaves threads on a mutex, with the invariant \<open>lock_inv\<close> of its reachable states.
  \<^item> \<open>Paging\<close>, \<open>Page_Alloc\<close>, \<open>Arena\<close>: page tables through physical memory, page pools, and the heap with
    its arenas (\<open>kernel/memory.c\<close>). \<open>translate\<close> is what the processor does with an address.
  \<^item> \<open>Threads\<close>: pids, creation and end of threads, address spaces of processes (\<open>thread/thread.c\<close>,
    \<open>userprog/process.c\<close>).
  \<^item> \<open>Machine\<close>: descriptor tables, task state, interrupt controller, timer set-up (\<open>userprog/tss.c\<close>,
    \<open>kernel/interrupt.c\<close>, \<open>device/timer.c\<close>).
  \<^item> \<open>Io_Queue\<close>: the ring buffer, the console lock and the pipes' transfer (\<open>device/ioqueue.c\<close>,
    \<open>device/console.c\<close>, \<open>shell/pipe.c\<close>). \<open>Keyboard\<close>: the keyboard handler as a state machine.
  \<^item> \<open>Disk_Layout\<close>: inodes, directory entries and super blocks byte for byte (\<open>lib/types.h\<close>,
    \<open>fs/super_block.h\<close>). \<open>Inode\<close>: the state \<open>fs\<close> of the file system, sectors, bitmaps of a partition, inodes on
    disk and in memory (\<open>fs/inode.c\<close>). \<open>Directory\<close> (\<open>fs/dir.c\<close>), \<open>File_Ops\<close> (\<open>fs/file.c\<close>), \<open>Fs_Setup\<close>,
    \<open>Path_Search\<close> and \<open>Fs_Calls\<close> (\<open>fs/fs.c\<close>, \<open>shell/pipe.c\<close>): the rest of the file system.
    \<open>File_Data\<close>: what reading and writing do to the bytes of a file. \<open>Dir_Data\<close>: what adding an entry to
    a directory does to its slots, and what searches find.
  \<^item> \<open>Ide_Disk\<close>: the disk driver down to the registers (\<open>device/ide.c\<close>); \<open>Ide_Transfer\<close> shows that its transfers
    implement the sector operations \<open>ide_read\<close> and \<open>ide_write\<close> the file system uses. The controller behind
    the ports is a parameter; \<open>obeys_ata\<close> says what is documented of it.
  \<^item> \<open>Process_Life\<close>: \<open>fork\<close>, \<open>execv\<close>, \<open>wait\<close> and \<open>exit\<close> (\<open>userprog\<close>).
  \<^item> \<open>Syscalls\<close>: the numbers and the table of the system calls, the registers of each call, and the way a user
    program enters the kernel (\<open>lib/user/syscall.c\<close>, \<open>userprog/syscall-init.c\<close>).
  \<^item> \<open>Shell\<close>: the line reader, the built-in commands, pipelines and the loop of the shell (\<open>shell\<close>);
    \<open>Shell_Line\<close> shows that reading a line is an editor on the keys. \<open>Programs\<close>: the user programs
    and the first processes (\<open>command\<close>, \<open>kernel/main.c\<close>).
  \<^item> \<open>Fs_Types\<close> and \<open>Call_Types\<close>: the types of the C declarations as the invariant \<open>fs_typed\<close>, weakest preconditions of
    the operations (\<open>post\<close>, the collection \<open>wp\<close>), and \<open>system_step\<close>, the step relation of all system calls and
    interrupts, which keeps the invariant.

  \<^bold>\<open>Bounds.\<close> The interrupt lines, pids, descriptors, block tables (140 blocks) and path lengths are those of
  the source. Loops over objects are bounded by the objects.
  The theorem on a writer appending to a file is for files in direct blocks (less than 6144
  bytes), and so is the one on directories; the one on reading covers the indirect block too.

  \<^bold>\<open>Abstractions.\<close> The translation buffer and caches of the processor are left out. A switch of threads is
  the change of the current thread; the registers it saves are not modelled. From \<open>Inode\<close> on, the heap is
  the list of addresses it is going to hand out and the set of blocks in use, which is what \<open>Arena\<close> shows
  of it, and a system call runs without interruption. The screen is the text put on it since it was cleared.
  What other processes do while the shell or \<open>init\<close> waits is a parameter (\<open>await\<close>), and a program that
  forks is modelled in parts: up to the fork, the parent and the child. Messages of \<open>kprintf\<close> to the screen are left out.
  Open inodes belong to the current partition, the only one the code ever opens inodes of.

  \<^bold>\<open>Not modelled.\<close> \<open>boot/\<close>, \<open>kernel/kernel.S\<close>, \<open>thread/switch.S\<close>, \<open>lib/kernel/print.S\<close> and
  \<open>command/start.S\<close>: assembly. \<open>kernel/io.h\<close>: inline assembly for port access. \<open>kernel/debug.c\<close> is the
  fault \<open>Assert_failed\<close> and \<open>lib/user/assert.c\<close> likewise. \<open>kernel/init.c\<close> calls the initialisers, which are
  modelled each on the part of the state it sets up. \<open>idle\<close> of \<open>thread/thread.c\<close> and \<open>partition_info\<close> of
  \<open>device/ide.c\<close>: a blocked thread around two instructions, and messages. \<open>kernel/test.c\<close>: test code.
\<close>

end
